(* ===== verification/Prelude.thy ===== *)
theory Prelude
  imports Complex_Main "HOL-Library.AList" "HOL-Library.Sublist" "HOL-Library.Multiset" "HOL-Library.Char_ord"
    "HOL-Library.List_Lexorder" "HOL-Library.Product_Lexorder"
begin

text \<open>
  What every component of the model shares: the exceptions the program raises and the result type
  of code that may raise; Python's dictionaries as association lists in insertion order, and the
  dictionaries of dictionaries by which every store of the program is partitioned by tenant;
  Python's \<^verbatim>\<open>sorted\<close>, \<^verbatim>\<open>max(range(...), key=...)\<close> and \<^verbatim>\<open>list.pop\<close>.
  Importing the lexicographic orders makes strings and pairs linear orders, as Python's are.
\<close>

section \<open>Exceptions\<close>

text \<open>
  One constructor per exception class of the source, with the data its message is made of, and
  the built-in exceptions the modelled code can raise. \<open>AdapterError\<close> is whatever an inference
  backend raises, \<open>EmbedderError\<close> an embedding provider, \<open>DatabaseError\<close> the database.
\<close>

datatype pyexn =
    AccessDenied string
  | MissingTenant string
  | MissingNamespace string
  | ContextOverflow int int
  | PolicyError rat
  | NoEligibleBackend string
  | BackendUnavailable string
  | UnknownCommit string
  | ValidationError string
  | ValueError string
  | KeyError string
  | IndexError
  | OverflowError string
  | ZeroDivisionError
  | RuntimeError string
  | AdapterError string
  | EmbedderError string
  | DatabaseError string

type_synonym 'a result = "pyexn + 'a"

definition bnd :: "'a result \<Rightarrow> ('a \<Rightarrow> 'b result) \<Rightarrow> 'b result" where
  "bnd m f = (case m of Inl e \<Rightarrow> Inl e | Inr x \<Rightarrow> f x)"

lemma bnd_simps [simp]:
  "bnd (Inl e) f = Inl e"
  "bnd (Inr x) f = f x"
  by (simp_all add: bnd_def)

lemma bnd_eq_Inr [simp]: "bnd m f = Inr y \<longleftrightarrow> (\<exists>x. m = Inr x \<and> f x = Inr y)"
  by (cases m) auto

lemma bnd_eq_Inl: "bnd m f = Inl e \<longleftrightarrow> m = Inl e \<or> (\<exists>x. m = Inr x \<and> f x = Inl e)"
  by (cases m) auto

text \<open>A list comprehension whose body may raise stops at the first exception.\<close>

fun map_result :: "('a \<Rightarrow> 'b result) \<Rightarrow> 'a list \<Rightarrow> 'b list result" where
  "map_result f [] = Inr []"
| "map_result f (x # xs) = bnd (f x) (\<lambda>y. bnd (map_result f xs) (\<lambda>ys. Inr (y # ys)))"

lemma map_result_Inr: "\<forall>x \<in> set xs. f x = Inr (g x) \<Longrightarrow> map_result f xs = Inr (map g xs)"
  by (induction xs) auto

lemma map_result_eq_InrD: "map_result f xs = Inr ys \<Longrightarrow> list_all2 (\<lambda>x y. f x = Inr y) xs ys"
  by (induction xs arbitrary: ys) auto

lemma map_result_length: "map_result f xs = Inr ys \<Longrightarrow> length ys = length xs"
  by (auto dest!: map_result_eq_InrD simp: list_all2_lengthD)

section \<open>Dictionaries\<close>

type_synonym ('k, 'v) dict = "('k \<times> 'v) list"

abbreviation dget :: "('k, 'v) dict \<Rightarrow> 'k \<Rightarrow> 'v option" where
  "dget \<equiv> map_of"

abbreviation dset :: "'k \<Rightarrow> 'v \<Rightarrow> ('k, 'v) dict \<Rightarrow> ('k, 'v) dict" where
  "dset \<equiv> AList.update"

abbreviation dvalues :: "('k, 'v) dict \<Rightarrow> 'v list" where
  "dvalues d \<equiv> map snd d"

abbreviation dkeys :: "('k, 'v) dict \<Rightarrow> 'k list" where
  "dkeys d \<equiv> map fst d"

text \<open>\<^verbatim>\<open>d[k]\<close> of a missing key raises.\<close>

definition dlookup :: "('k, 'v) dict \<Rightarrow> 'k \<Rightarrow> 'v result" where
  "dlookup d k = (case dget d k of None \<Rightarrow> Inl (KeyError ''key'') | Some v \<Rightarrow> Inr v)"

lemma dlookup_Inr [simp]: "dlookup d k = Inr v \<longleftrightarrow> dget d k = Some v"
  by (simp add: dlookup_def split: option.splits)

lemma dget_dset [simp]: "dget (dset k v d) k' = (if k' = k then Some v else dget d k')"
  by (simp add: update_conv')

lemma set_dkeys_dset: "set (dkeys (dset k v d)) = insert k (set (dkeys d))"
  by (induction d) auto

lemma distinct_dkeys_dset: "distinct (dkeys d) \<Longrightarrow> distinct (dkeys (dset k v d))"
  by (rule distinct_update)

lemma set_dset_subset: "set (dset k v d) \<subseteq> insert (k, v) (set d)"
  by (induction d) auto

text \<open>A dictionary built by a loop of assignments over distinct keys.\<close>

lemma dget_foldl_dset:
  "distinct (map f xs) \<Longrightarrow>
   dget (foldl (\<lambda>d x. dset (f x) (g x) d) d xs) k =
     (case find (\<lambda>x. f x = k) xs of Some x \<Rightarrow> Some (g x) | None \<Rightarrow> dget d k)"
proof (induction xs arbitrary: d)
  case (Cons x xs)
  show ?case
  proof (cases "f x = k")
    case True
    then have "find (\<lambda>x. f x = k) xs = None" using Cons.prems by (auto simp: find_None_iff) (metis image_eqI)
    then show ?thesis using Cons True by simp
  qed (use Cons in \<open>simp split: option.splits\<close>)
qed simp

lemma dget_foldl_dset_mem:
  "distinct (map f xs) \<Longrightarrow> x \<in> set xs \<Longrightarrow>
   dget (foldl (\<lambda>d x. dset (f x) (g x) d) d xs) (f x) = Some (g x)"
  by (auto simp: dget_foldl_dset find_Some_iff find_None_iff nth_eq_iff_index_eq distinct_map inj_on_def
      split: option.splits)

lemma dget_foldl_dset_const:
  "x \<in> set xs \<Longrightarrow> dget (foldl (\<lambda>d x. dset (f x) v d) d xs) (f x) = Some v"
proof (induction xs rule: rev_induct)
  case (snoc y ys)
  then show ?case by auto
qed simp

lemma set_dvalues_dset: "x \<in> set (dvalues (dset k v d)) \<Longrightarrow> x = v \<or> x \<in> set (dvalues d)"
  using set_dset_subset [of k v d] by fastforce

section \<open>Dictionaries partitioned by tenant\<close>

text \<open>
  The stores of the program are all \<^verbatim>\<open>dict[str, dict[str, V]]\<close>: tenant, then key.
  \<open>part m t\<close> is \<^verbatim>\<open>m.get(t, {})\<close> and \<open>tput t k v m\<close> is
  \<^verbatim>\<open>m.setdefault(t, {})[k] = v\<close>.
\<close>

type_synonym 'v tdict = "(string, (string, 'v) dict) dict"

definition part :: "(string, ('k, 'v) dict) dict \<Rightarrow> string \<Rightarrow> ('k, 'v) dict" where
  "part m t = (case dget m t of None \<Rightarrow> [] | Some d \<Rightarrow> d)"

definition tput :: "string \<Rightarrow> 'k \<Rightarrow> 'v \<Rightarrow> (string, ('k, 'v) dict) dict \<Rightarrow> (string, ('k, 'v) dict) dict" where
  "tput t k v m = dset t (dset k v (part m t)) m"

lemma part_Nil [simp]: "part [] t = []"
  by (simp add: part_def)

lemma part_dset [simp]: "part (dset t d m) t' = (if t' = t then d else part m t')"
  by (simp add: part_def)

lemma part_tput [simp]: "part (tput t k v m) t' = (if t' = t then dset k v (part m t) else part m t')"
  by (simp add: tput_def)

section \<open>Sorting and selection\<close>

text \<open>Python sorts stably; \<^verbatim>\<open>reverse=True\<close> keeps the order of equal elements, so it is a
  reversal before and after an ascending stable sort.\<close>

definition sorted_desc :: "('a \<Rightarrow> 'b::linorder) \<Rightarrow> 'a list \<Rightarrow> 'a list" where
  "sorted_desc key xs = rev (sort_key key (rev xs))"

lemma mset_sorted_desc [simp]: "mset (sorted_desc key xs) = mset xs"
  by (simp add: sorted_desc_def)

lemma set_sorted_desc [simp]: "set (sorted_desc key xs) = set xs"
  by (metis mset_sorted_desc set_mset_mset)

lemma length_sorted_desc [simp]: "length (sorted_desc key xs) = length xs"
  by (simp add: sorted_desc_def)

lemma distinct_sorted_desc [simp]: "distinct (sorted_desc key xs) = distinct xs"
  by (simp add: sorted_desc_def)

lemma sorted_desc_sorted: "sorted_wrt (\<lambda>x y. key y \<le> key x) (sorted_desc key xs)"
proof -
  have "sorted_wrt (\<lambda>x y. key x \<le> key y) (sort_key key (rev xs))"
    using sorted_sort_key [of key "rev xs"] by (simp add: sorted_map)
  then show ?thesis by (simp add: sorted_desc_def sorted_wrt_rev)
qed

lemma sorted_desc_stable:
  "filter (\<lambda>x. key x = k) (sorted_desc key xs) = filter (\<lambda>x. key x = k) xs"
  by (simp add: sorted_desc_def rev_filter [symmetric] sort_key_stable)

lemma sorted_desc_hd_max: "sorted_desc key xs = y # ys \<Longrightarrow> x \<in> set xs \<Longrightarrow> key x \<le> key y"
  using sorted_desc_sorted [of key xs] set_sorted_desc [of key xs] by auto

text \<open>The first position of the greatest element, as \<^verbatim>\<open>max\<close> finds it.\<close>

fun argmax :: "'b::linorder list \<Rightarrow> nat" where
  "argmax [] = 0"
| "argmax [v] = 0"
| "argmax (v # w # vs) = (let p = argmax (w # vs) in if (w # vs) ! p \<le> v then 0 else Suc p)"

lemma argmax_less: "vs \<noteq> [] \<Longrightarrow> argmax vs < length vs"
  by (induction vs rule: argmax.induct) (auto simp: Let_def)

lemma argmax_max: "v \<in> set vs \<Longrightarrow> v \<le> vs ! argmax vs"
  by (induction vs rule: argmax.induct) (force simp: Let_def)+

lemma argmax_first: "i < argmax vs \<Longrightarrow> vs ! i < vs ! argmax vs"
proof (induction vs arbitrary: i rule: argmax.induct)
  case (3 v w vs)
  let ?p = "argmax (w # vs)"
  have gt: "\<not> (w # vs) ! ?p \<le> v" using 3(2) by (auto simp: Let_def split: if_splits)
  then have p: "argmax (v # w # vs) = Suc ?p" by (simp add: Let_def)
  show ?case
  proof (cases i)
    case 0
    then show ?thesis using gt unfolding p by simp
  next
    case (Suc j)
    then have "j < ?p" using 3(2) p by simp
    then have "(w # vs) ! j < (w # vs) ! ?p" by (rule "3.IH")
    then show ?thesis using Suc unfolding p by simp
  qed
qed simp_all

lemma argmax_0: "\<forall>v \<in> set vs. v \<le> vs ! 0 \<Longrightarrow> argmax vs = 0"
proof (rule ccontr)
  assume le: "\<forall>v \<in> set vs. v \<le> vs ! 0" and n: "argmax vs \<noteq> 0"
  then have "vs \<noteq> []" by auto
  then have "vs ! argmax vs \<in> set vs" using argmax_less nth_mem by blast
  moreover have "vs ! 0 < vs ! argmax vs" using n by (intro argmax_first) simp
  ultimately show False using le by fastforce
qed

definition pop_at :: "nat \<Rightarrow> 'a list \<Rightarrow> 'a list" where
  "pop_at i xs = take i xs @ drop (Suc i) xs"

lemma length_pop_at [simp]: "i < length xs \<Longrightarrow> length (pop_at i xs) = length xs - 1"
  by (simp add: pop_at_def)

lemma mset_pop_at: "i < length xs \<Longrightarrow> add_mset (xs ! i) (mset (pop_at i xs)) = mset xs"
proof -
  assume i: "i < length xs"
  have "mset xs = mset (take i xs @ xs ! i # drop (Suc i) xs)"
    using i by (simp add: id_take_nth_drop [symmetric])
  then show ?thesis by (simp add: pop_at_def)
qed

lemma set_pop_at: "i < length xs \<Longrightarrow> insert (xs ! i) (set (pop_at i xs)) = set xs"
  by (metis mset_pop_at set_mset_add_mset_insert set_mset_mset)

lemma set_pop_at_subset: "set (pop_at i xs) \<subseteq> set xs"
  by (auto simp: pop_at_def dest: in_set_takeD in_set_dropD)

lemma distinct_submset:
  assumes "mset xs \<subseteq># mset ys" and "distinct ys"
  shows "distinct xs"
proof -
  have "count (mset xs) a \<le> count (mset ys) a" for a using assms(1) by (simp add: mset_subset_eq_count)
  then have "count (mset xs) a \<le> 1" for a
    using assms(2) by (metis (full_types) distinct_count_atmost_1 le_trans order_refl zero_le)
  moreover have "1 \<le> count (mset xs) a" if "a \<in> set xs" for a
    using that by (simp add: Suc_le_eq)
  ultimately show ?thesis
    unfolding distinct_count_atmost_1 by (metis antisym count_mset_0_iff)
qed

lemma pop_at_0 [simp]: "pop_at 0 (x # xs) = xs"
  by (simp add: pop_at_def)

lemma subseq_submset: "subseq xs ys \<Longrightarrow> mset xs \<subseteq># mset ys"
  by (induction rule: list_emb.induct) (auto intro: subset_mset.order_trans)

end
