(* ===== verification/Float64.thy ===== *)
theory Float64
  imports Prelude "HOL-Library.Log_Nat"
begin

text \<open>
  Python's \<^verbatim>\<open>float\<close> is IEEE 754 binary64. A finite double is a dyadic rational, so a float
  is modelled as the rational it denotes (\<open>flt = rat\<close>), and every arithmetic operation is the
  exact operation followed by \<open>rnd64\<close>, the rounding to the nearest number with a 53-bit
  significand, ties to even, which is what the hardware does. So \<open>fadd\<close> is not associative,
  \<open>rnd64 (1 / 10)\<close> is not \<open>1 / 10\<close>, and a property proved here holds of the rounded
  arithmetic. Not modelled: the exponent range (no overflow to infinity, no subnormals), NaN and
  the sign of zero. The lemmas: \<open>rnd64\<close> is monotone, odd, idempotent, keeps the sign, and is
  the identity on numbers with at most 53 significant bits (\<open>rnd64_exact\<close>).
\<close>

section \<open>Round half to even, on integers\<close>

text \<open>\<open>rhe\<close> rounds a rational to the nearest integer, ties to the even one.\<close>

definition rhe :: "rat \<Rightarrow> int" where
  "rhe x = (let f = \<lfloor>x\<rfloor>; r = x - of_int f
            in if r < 1 / 2 then f else if 1 / 2 < r then f + 1
               else if even f then f else f + 1)"

lemma rhe_of_int [simp]: "rhe (of_int n) = n"
  by (simp add: rhe_def)

lemma rhe_ge_floor: "\<lfloor>x\<rfloor> \<le> rhe x"
  by (simp add: rhe_def Let_def)

lemma rhe_le_floor: "rhe x \<le> \<lfloor>x\<rfloor> + 1"
  by (simp add: rhe_def Let_def)

lemma rhe_mono: "x \<le> y \<Longrightarrow> rhe x \<le> rhe y"
proof -
  assume le: "x \<le> y"
  have fl: "\<lfloor>x\<rfloor> \<le> \<lfloor>y\<rfloor>" using le by (rule floor_mono)
  show ?thesis
  proof (cases "\<lfloor>x\<rfloor> = \<lfloor>y\<rfloor>")
    case True
    with le show ?thesis by (auto simp: rhe_def Let_def)
  next
    case False
    with fl have "\<lfloor>x\<rfloor> + 1 \<le> \<lfloor>y\<rfloor>" by simp
    with rhe_le_floor [of x] rhe_ge_floor [of y] show ?thesis by linarith
  qed
qed

lemma floor_minus_frac: "x \<noteq> of_int \<lfloor>x\<rfloor> \<Longrightarrow> \<lfloor>- x\<rfloor> = - \<lfloor>x\<rfloor> - 1" for x :: rat
proof -
  assume "x \<noteq> of_int \<lfloor>x\<rfloor>"
  then have "of_int \<lfloor>x\<rfloor> < x" and "x < of_int \<lfloor>x\<rfloor> + 1"
    using of_int_floor_le [of x] by linarith+
  then show ?thesis by (simp add: floor_eq_iff)
qed

lemma rhe_minus: "rhe (- x) = - rhe x"
proof (cases "x = of_int \<lfloor>x\<rfloor>")
  case True
  then have "rhe x = \<lfloor>x\<rfloor>" by (metis rhe_of_int)
  moreover have "- x = of_int (- \<lfloor>x\<rfloor>)" using True by simp
  then have "rhe (- x) = - \<lfloor>x\<rfloor>" by (metis rhe_of_int)
  ultimately show ?thesis by simp
next
  case False
  define r where "r = x - of_int \<lfloor>x\<rfloor>"
  have f: "\<lfloor>- x\<rfloor> = - \<lfloor>x\<rfloor> - 1" using False by (rule floor_minus_frac)
  have r': "- x - of_int \<lfloor>- x\<rfloor> = 1 - r" by (simp add: r_def f)
  have "rhe x = (if r < 1 / 2 then \<lfloor>x\<rfloor> else if 1 / 2 < r then \<lfloor>x\<rfloor> + 1
      else if even \<lfloor>x\<rfloor> then \<lfloor>x\<rfloor> else \<lfloor>x\<rfloor> + 1)"
    unfolding rhe_def Let_def r_def by (rule refl)
  moreover have "rhe (- x) = (if 1 - r < 1 / 2 then \<lfloor>- x\<rfloor> else if 1 / 2 < 1 - r then \<lfloor>- x\<rfloor> + 1
      else if even \<lfloor>- x\<rfloor> then \<lfloor>- x\<rfloor> else \<lfloor>- x\<rfloor> + 1)"
    unfolding rhe_def Let_def r' by (rule refl)
  ultimately show ?thesis by (simp add: f)
qed

section \<open>The exponent of a positive rational\<close>

definition ilog2 :: "rat \<Rightarrow> int" where
  "ilog2 x = (case quotient_of x of (n, d) \<Rightarrow>
     let k = bitlen n - bitlen d in if 2 powi k \<le> x then k else k - 1)"

lemma bitlen_powi: "0 < n \<Longrightarrow> (2::rat) powi (bitlen n - 1) \<le> of_int n \<and> of_int n < (2::rat) powi bitlen n"
proof -
  assume n: "0 < n"
  have b: "1 \<le> bitlen n" using n bitlen_eq_zero_iff [of n] bitlen_nonneg [of n] by linarith
  have "2 ^ nat (bitlen n - 1) \<le> n \<and> n < 2 ^ nat (bitlen n)"
    using bitlen_bounds [OF n] by simp
  then have "(2::rat) ^ nat (bitlen n - 1) \<le> of_int n \<and> of_int n < (2::rat) ^ nat (bitlen n)"
    by (metis of_int_le_iff of_int_less_iff of_int_numeral of_int_power)
  then show ?thesis using b by (simp add: power_int_def)
qed

lemma ilog2_bounds:
  assumes "0 < x"
  shows "2 powi ilog2 x \<le> x" and "x < 2 powi (ilog2 x + 1)"
proof -
  obtain n d where q: "quotient_of x = (n, d)" by (cases "quotient_of x")
  have d: "0 < d" and x: "x = of_int n / of_int d"
    using q quotient_of_denom_pos quotient_of_div by blast+
  have n: "0 < n" using assms x d by (simp add: zero_less_divide_iff)
  note bn = bitlen_powi [OF n] and bd = bitlen_powi [OF d]
  let ?k = "bitlen n - bitlen d"
  have pos: "(0::rat) < 2 powi i" for i by simp
  have up: "x < 2 powi (?k + 1)"
  proof -
    have "of_int n < 2 powi (?k + 1) * (2::rat) powi (bitlen d - 1)"
      using bn by (simp flip: power_int_add)
    also have "\<dots> \<le> 2 powi (?k + 1) * of_int d"
      using bd pos by (intro mult_left_mono) (auto intro: less_imp_le)
    finally show ?thesis using d by (simp add: x field_simps)
  qed
  have lo: "2 powi (?k - 1) \<le> x"
  proof -
    have "2 powi (?k - 1) * (of_int d :: rat) \<le> 2 powi (?k - 1) * 2 powi bitlen d"
      using bd pos by (intro mult_left_mono) (auto intro: less_imp_le)
    also have "\<dots> = 2 powi (bitlen n - 1)"
      by (simp flip: power_int_add)
    also have "\<dots> \<le> of_int n" using bn by simp
    finally show ?thesis using d by (simp add: x field_simps)
  qed
  show "2 powi ilog2 x \<le> x" and "x < 2 powi (ilog2 x + 1)"
    using up lo by (auto simp: ilog2_def q Let_def)
qed

lemma powi2_less_iff [simp]: "(2::rat) powi i < 2 powi j \<longleftrightarrow> i < j"
proof
  assume "(2::rat) powi i < 2 powi j"
  then show "i < j"
    by (metis linorder_not_le one_le_numeral power_int_increasing)
qed (simp add: power_int_strict_increasing)

lemma powi2_le_iff [simp]: "(2::rat) powi i \<le> 2 powi j \<longleftrightarrow> i \<le> j"
  by (meson linorder_not_le powi2_less_iff)

lemma ilog2_mono: "0 < x \<Longrightarrow> x \<le> y \<Longrightarrow> ilog2 x \<le> ilog2 y"
proof -
  assume a: "0 < x" "x \<le> y"
  then have "(2::rat) powi ilog2 x < 2 powi (ilog2 y + 1)"
    using ilog2_bounds(1) [of x] ilog2_bounds(2) [of y] by linarith
  then show ?thesis by (simp only: powi2_less_iff) 
qed

lemma ilog2_eqI: "2 powi k \<le> x \<Longrightarrow> x < 2 powi (k + 1) \<Longrightarrow> ilog2 x = k"
proof -
  assume a: "2 powi k \<le> x" "x < 2 powi (k + 1)"
  have "(0::rat) < 2 powi k" by simp
  then have x: "0 < x" using a(1) by linarith
  have "(2::rat) powi ilog2 x < 2 powi (k + 1)" "(2::rat) powi k < 2 powi (ilog2 x + 1)"
    using ilog2_bounds [OF x] a by linarith+
  then show ?thesis by (simp only: powi2_less_iff)
qed

section \<open>Rounding to binary64\<close>

definition ulp :: "rat \<Rightarrow> rat" where
  "ulp x = 2 powi (ilog2 \<bar>x\<bar> - 52)"

definition rnd64 :: "rat \<Rightarrow> rat" where
  "rnd64 x = (if x = 0 then 0 else of_int (rhe (x / ulp x)) * ulp x)"

lemma ulp_pos [simp]: "0 < ulp x"
  by (simp add: ulp_def)

lemma ulp_minus [simp]: "ulp (- x) = ulp x"
  by (simp add: ulp_def)

lemma rnd64_0 [simp]: "rnd64 0 = 0"
  by (simp add: rnd64_def)

lemma rnd64_minus: "rnd64 (- x) = - rnd64 x"
  by (simp add: rnd64_def rhe_minus)

text \<open>The significand of a positive number.\<close>

lemma mant_bounds:
  assumes "0 < x"
  shows "2 ^ 52 \<le> x / ulp x" and "x / ulp x < 2 ^ 53"
proof -
  have "(2::rat) ^ 52 * ulp x = 2 powi ilog2 x" "(2::rat) ^ 53 * ulp x = 2 powi (ilog2 x + 1)"
    using assms by (simp_all add: ulp_def power_int_diff power_int_add)
  then show "2 ^ 52 \<le> x / ulp x" and "x / ulp x < 2 ^ 53"
    using ilog2_bounds [OF assms] by (simp_all add: pos_le_divide_eq pos_divide_less_eq)
qed

lemma rhe_mant_bounds:
  assumes "0 < x"
  shows "2 ^ 52 \<le> rhe (x / ulp x)" and "rhe (x / ulp x) \<le> 2 ^ 53"
proof -
  have "rhe (of_int (2 ^ 52)) \<le> rhe (x / ulp x)"
    by (rule rhe_mono) (use mant_bounds(1) [OF assms] in simp)
  then show "2 ^ 52 \<le> rhe (x / ulp x)" by (simp only: rhe_of_int)
  have "rhe (x / ulp x) \<le> rhe (of_int (2 ^ 53))"
    by (rule rhe_mono) (use mant_bounds(2) [OF assms] in simp)
  then show "rhe (x / ulp x) \<le> 2 ^ 53" by (simp only: rhe_of_int)
qed

lemma rnd64_bounds:
  assumes "0 < x"
  shows "2 powi ilog2 x \<le> rnd64 x" and "rnd64 x \<le> 2 powi (ilog2 x + 1)"
proof -
  have u: "(2::rat) powi ilog2 x = of_int (2 ^ 52) * ulp x"
    "(2::rat) powi (ilog2 x + 1) = of_int (2 ^ 53) * ulp x"
    using assms by (simp_all add: ulp_def power_int_diff power_int_add)
  have r: "rnd64 x = of_int (rhe (x / ulp x)) * ulp x"
    using assms by (simp add: rnd64_def)
  show "2 powi ilog2 x \<le> rnd64 x" and "rnd64 x \<le> 2 powi (ilog2 x + 1)"
    unfolding u r using rhe_mant_bounds [OF assms]
    by (auto intro!: mult_right_mono simp del: of_int_power)
qed

lemma rnd64_mono_pos:
  assumes "0 < x" and "x \<le> y"
  shows "rnd64 x \<le> rnd64 y"
proof (cases "ilog2 x = ilog2 y")
  case True
  then have u: "ulp x = ulp y" using assms by (simp add: ulp_def)
  have "x / ulp y \<le> y / ulp y" using assms by (intro divide_right_mono) (auto simp: less_imp_le)
  then have "rhe (x / ulp y) \<le> rhe (y / ulp y)" by (rule rhe_mono)
  then show ?thesis using assms
    by (auto simp: rnd64_def u intro!: mult_right_mono less_imp_le)
next
  case False
  with ilog2_mono [OF assms] have "ilog2 x + 1 \<le> ilog2 y" by simp
  then have "(2::rat) powi (ilog2 x + 1) \<le> 2 powi ilog2 y" by (simp only: powi2_le_iff)
  with rnd64_bounds(2) [OF assms(1)] rnd64_bounds(1) [of y] assms show ?thesis by linarith
qed

lemma rnd64_pos: "0 < x \<Longrightarrow> 0 < rnd64 x"
  using rnd64_bounds(1) [of x] zero_less_power_int [of "2::rat" "ilog2 x"] by linarith

lemma rnd64_mono: "x \<le> y \<Longrightarrow> rnd64 x \<le> rnd64 y"
proof -
  assume le: "x \<le> y"
  consider "0 < x" | "x \<le> 0" "0 \<le> y" | "y < 0" by linarith
  then show ?thesis
  proof cases
    case 1 with le show ?thesis by (rule rnd64_mono_pos [rotated -1])
  next
    case 2
    have "rnd64 x \<le> 0" using 2(1) rnd64_pos [of "- x"] by (cases "x = 0") (auto simp: rnd64_minus)
    moreover have "0 \<le> rnd64 y" using 2(2) rnd64_pos [of y] by (cases "y = 0") auto
    ultimately show ?thesis by linarith
  next
    case 3
    then have "rnd64 (- y) \<le> rnd64 (- x)" using le by (intro rnd64_mono_pos) auto
    then show ?thesis by (simp add: rnd64_minus)
  qed
qed

lemma rnd64_eq_0_iff [simp]: "rnd64 x = 0 \<longleftrightarrow> x = 0"
  by (metis linorder_less_linear neg_0_less_iff_less neg_equal_0_iff_equal rnd64_0 rnd64_minus rnd64_pos order_less_irrefl)

lemma rnd64_nonneg: "0 \<le> x \<Longrightarrow> 0 \<le> rnd64 x"
  using rnd64_mono [of 0 x] by simp

text \<open>Every number with a significand of at most 53 bits is a double.\<close>

lemma rnd64_exact:
  assumes m: "\<bar>m\<bar> \<le> 2 ^ 53"
  shows "rnd64 (of_int m * 2 powi k) = of_int m * 2 powi k"
proof -
  have pos: "rnd64 (of_int m * 2 powi k) = of_int m * 2 powi k" if m: "0 < m" "m \<le> 2 ^ 53" for m :: int
  proof -
    let ?x = "of_int m * 2 powi k :: rat"
    have x: "0 < ?x" using m by simp
    have "?x \<le> of_int (2 ^ 53) * 2 powi k" using m by (intro mult_right_mono) (simp_all del: of_int_power)
    also have "\<dots> = 2 powi (k + 53)" by (simp add: power_int_add)
    finally have "(2::rat) powi ilog2 ?x \<le> 2 powi (k + 53)"
      using ilog2_bounds(1) [OF x] by linarith
    then have e: "ilog2 ?x \<le> k + 53" by (simp only: powi2_le_iff)
    have "\<exists>j :: int. ?x / ulp ?x = of_int j"
    proof (cases "ilog2 ?x \<le> k + 52")
      case True
      have "?x / ulp ?x = of_int m * 2 powi (k - (ilog2 ?x - 52))"
        using x by (simp add: ulp_def power_int_diff)
      also have "\<dots> = of_int (m * 2 ^ nat (k - (ilog2 ?x - 52)))"
        using True by (simp add: power_int_def)
      finally show ?thesis by blast
    next
      case False
      with e have e: "ilog2 ?x = k + 53" by simp
      have "(2::rat) powi (k + 53) \<le> ?x" using ilog2_bounds(1) [OF x] by (simp add: e)
      then have "of_int (2 ^ 53) * (2::rat) powi k \<le> ?x" by (simp add: power_int_add mult.commute)
      then have "(2 ^ 53 :: int) \<le> m" by (simp del: of_int_power add: of_int_le_iff)
      then have "m = 2 ^ 53" using m by simp
      then have "?x = 2 powi (k + 53)" by (simp add: power_int_add)
      moreover have "ulp ?x = 2 powi (k + 1)" using x by (simp add: ulp_def e add.commute)
      ultimately have "?x / ulp ?x = of_int (2 ^ 52)"
        by (simp only:) (simp add: power_int_add)
      then show ?thesis by blast
    qed
    then obtain j where j: "?x / ulp ?x = of_int j" ..
    then have "rnd64 ?x = of_int j * ulp ?x" using x m by (simp add: rnd64_def)
    also have "\<dots> = ?x" using ulp_pos [of ?x] by (simp add: less_imp_neq [symmetric] del: ulp_pos flip: j)
    finally show ?thesis .
  qed
  consider "0 < m" | "m = 0" | "0 < - m" by linarith
  then show ?thesis
  proof cases
    case 3
    then have "rnd64 (of_int (- m) * 2 powi k) = of_int (- m) * 2 powi k"
      using m by (intro pos) simp_all
    then show ?thesis using rnd64_minus [of "of_int m * 2 powi k"] by simp
  qed (use pos m in simp_all)
qed

lemma rnd64_of_int: "\<bar>m\<bar> \<le> 2 ^ 53 \<Longrightarrow> rnd64 (of_int m) = of_int m"
  using rnd64_exact [of m 0] by simp

lemma rnd64_1 [simp]: "rnd64 1 = 1"
  using rnd64_of_int [of 1] by simp

lemma rnd64_idem [simp]: "rnd64 (rnd64 x) = rnd64 x"
proof -
  have pos: "rnd64 (rnd64 x) = rnd64 x" if "0 < x" for x
    using that rhe_mant_bounds [OF that]
    by (simp add: rnd64_def [of x] rnd64_exact ulp_def)
  consider "0 < x" | "x = 0" | "0 < - x" by linarith
  then show ?thesis
    by cases (use pos [of x] pos [of "- x"] in \<open>simp_all add: rnd64_minus\<close>)
qed

section \<open>Arithmetic of floats\<close>

type_synonym flt = rat

definition fadd :: "flt \<Rightarrow> flt \<Rightarrow> flt" where
  "fadd a b = rnd64 (a + b)"

definition fsub :: "flt \<Rightarrow> flt \<Rightarrow> flt" where
  "fsub a b = rnd64 (a - b)"

definition fmul :: "flt \<Rightarrow> flt \<Rightarrow> flt" where
  "fmul a b = rnd64 (a * b)"

text \<open>\<open>fdiv\<close> is used under the guards of the code, where the divisor is not zero.\<close>

definition fdiv :: "flt \<Rightarrow> flt \<Rightarrow> flt" where
  "fdiv a b = rnd64 (a / b)"

text \<open>The conversion of an integer, and a decimal literal of the source such as
  \<^verbatim>\<open>0.70\<close>, written \<open>lit (70 / 100)\<close>.\<close>

definition flt_of_int :: "int \<Rightarrow> flt" where
  "flt_of_int n = rnd64 (of_int n)"

abbreviation flt_of_nat :: "nat \<Rightarrow> flt" where
  "flt_of_nat n \<equiv> flt_of_int (int n)"

definition lit :: "rat \<Rightarrow> flt" where
  "lit x = rnd64 x"

text \<open>The true division of two Python integers is correctly rounded, whatever their size.\<close>

definition int_truediv :: "int \<Rightarrow> int \<Rightarrow> flt" where
  "int_truediv a b = rnd64 (of_int a / of_int b)"

text \<open>\<^verbatim>\<open>sum\<close> of floats: a left fold from 0 (the interpreter of the Dockerfile, 3.11).\<close>

definition fsum :: "flt list \<Rightarrow> flt" where
  "fsum xs = foldl fadd 0 xs"

text \<open>\<^verbatim>\<open>round(x, k)\<close>: the nearest decimal with \<open>k\<close> places (ties to even on the
  exact value of the double), read back as a float.\<close>

definition py_round :: "nat \<Rightarrow> flt \<Rightarrow> flt" where
  "py_round k x = rnd64 (of_int (rhe (x * 10 ^ k)) / 10 ^ k)"

definition py_ceil :: "flt \<Rightarrow> int" where
  "py_ceil x = \<lceil>x\<rceil>"

named_theorems flt_defs "the definitions of the float operations"

declare fadd_def [flt_defs] fsub_def [flt_defs] fmul_def [flt_defs] fdiv_def [flt_defs]
  lit_def [flt_defs]

lemma fadd_mono: "a \<le> a' \<Longrightarrow> b \<le> b' \<Longrightarrow> fadd a b \<le> fadd a' b'"
  by (simp add: fadd_def rnd64_mono)

lemma fmul_mono: "0 \<le> a \<Longrightarrow> b \<le> b' \<Longrightarrow> fmul a b \<le> fmul a b'"
  by (simp add: fmul_def rnd64_mono mult_left_mono)

lemma fsub_mono: "a \<le> a' \<Longrightarrow> b' \<le> b \<Longrightarrow> fsub a b \<le> fsub a' b'"
  by (simp add: fsub_def rnd64_mono)

lemma fdiv_mono: "a \<le> a' \<Longrightarrow> 0 < b \<Longrightarrow> fdiv a b \<le> fdiv a' b"
  by (simp add: fdiv_def rnd64_mono divide_right_mono)

lemma fadd_commute: "fadd a b = fadd b a"
  by (simp add: fadd_def add.commute)

lemma fmul_commute: "fmul a b = fmul b a"
  by (simp add: fmul_def mult.commute)

lemma fadd_nonneg: "0 \<le> a \<Longrightarrow> 0 \<le> b \<Longrightarrow> 0 \<le> fadd a b"
  by (simp add: fadd_def rnd64_nonneg)

lemma fmul_nonneg: "0 \<le> a \<Longrightarrow> 0 \<le> b \<Longrightarrow> 0 \<le> fmul a b"
  by (simp add: fmul_def rnd64_nonneg)

lemma fdiv_nonneg: "0 \<le> a \<Longrightarrow> 0 \<le> b \<Longrightarrow> 0 \<le> fdiv a b"
  by (simp add: fdiv_def rnd64_nonneg)

lemma fsub_nonneg: "b \<le> a \<Longrightarrow> 0 \<le> fsub a b"
  by (simp add: fsub_def rnd64_nonneg)

lemma fsub_pos: "b < a \<Longrightarrow> 0 < fsub a b"
  by (simp add: fsub_def rnd64_pos)

lemma fsub_self [simp]: "fsub a a = 0"
  by (simp add: fsub_def)

lemma fmul_0 [simp]: "fmul 0 a = 0" "fmul a 0 = 0"
  by (simp_all add: fmul_def)

lemma fdiv_0 [simp]: "fdiv 0 a = 0"
  by (simp add: fdiv_def)

lemma fdiv_le_1: "0 < b \<Longrightarrow> a \<le> b \<Longrightarrow> fdiv a b \<le> 1"
  using rnd64_mono [of "a / b" 1] by (simp add: fdiv_def)

lemma fdiv_self: "b \<noteq> 0 \<Longrightarrow> fdiv b b = 1"
  by (simp add: fdiv_def)

lemma flt_of_int_mono: "m \<le> n \<Longrightarrow> flt_of_int m \<le> flt_of_int n"
  by (simp add: flt_of_int_def rnd64_mono)

lemma flt_of_int_exact: "\<bar>n\<bar> \<le> 2 ^ 53 \<Longrightarrow> flt_of_int n = of_int n"
  by (simp add: flt_of_int_def rnd64_of_int)

lemma fsum_nonneg_from: "0 \<le> a \<Longrightarrow> \<forall>x \<in> set xs. 0 \<le> x \<Longrightarrow> 0 \<le> foldl fadd a xs"
  by (induction xs arbitrary: a) (auto intro: fadd_nonneg)

lemma fsum_nonneg: "\<forall>x \<in> set xs. 0 \<le> x \<Longrightarrow> 0 \<le> fsum xs"
  by (simp add: fsum_def fsum_nonneg_from)

section \<open>Square root\<close>

text \<open>
  \<^verbatim>\<open>math.sqrt\<close> is correctly rounded. \<open>isqrt\<close> is the integer square root, digit by digit in
  base 4. \<open>fsqrt\<close> scales its argument by a power of 4 until the integer root has at least 60
  bits, appends half a unit when the root is not exact (the sticky bit), and rounds once.
\<close>

function isqrt :: "int \<Rightarrow> int" where
  "isqrt n = (if n \<le> 0 then 0
     else let r = 2 * isqrt (n div 4) in if (r + 1) * (r + 1) \<le> n then r + 1 else r)"
  by pat_completeness auto
termination
  by (relation "measure nat") auto

declare isqrt.simps [simp del]

lemma isqrt_spec: "0 \<le> n \<Longrightarrow> 0 \<le> isqrt n \<and> isqrt n * isqrt n \<le> n \<and> n < (isqrt n + 1) * (isqrt n + 1)"
proof (induction n rule: isqrt.induct)
  case (1 n)
  show ?case
  proof (cases "n = 0")
    case False
    let ?q = "isqrt (n div 4)"
    have q: "0 \<le> ?q" and lo: "?q * ?q \<le> n div 4" and hi: "n div 4 + 1 \<le> (?q + 1) * (?q + 1)"
      using "1.IH" "1.prems" False zless_imp_add1_zle [of "n div 4" "(?q + 1) * (?q + 1)"] by auto
    have "(2 * ?q) * (2 * ?q) \<le> n" using lo by simp
    moreover have "n < (2 * ?q + 2) * (2 * ?q + 2)"
      using hi by (simp add: algebra_simps)
    ultimately show ?thesis
      using False "1.prems" q by (simp add: isqrt.simps [of n] Let_def algebra_simps)
  qed (simp add: isqrt.simps)
qed

definition fsqrt :: "flt \<Rightarrow> flt" where
  "fsqrt x = (if x \<le> 0 then 0
     else let k = 60 - ilog2 x div 2;
              y = x * 4 powi k;
              s = isqrt \<lfloor>y\<rfloor>
          in rnd64 ((of_int s + (if of_int (s * s) = y then 0 else 1 / 2)) * 2 powi (- k)))"

lemma fsqrt_0 [simp]: "fsqrt 0 = 0"
  by (simp add: fsqrt_def)

lemma fsqrt_pos: "0 < x \<Longrightarrow> 0 < fsqrt x"
proof -
  assume x: "0 < x"
  let ?k = "60 - ilog2 x div 2"
  let ?s = "isqrt \<lfloor>x * 4 powi ?k\<rfloor>"
  have "0 \<le> ?s" using isqrt_spec [of "\<lfloor>x * 4 powi ?k\<rfloor>"] x by simp
  then have "0 < of_int ?s + (if of_int (?s * ?s) = x * 4 powi ?k then 0 else 1 / 2 :: rat)"
    using x by (cases "?s = 0") auto
  then show ?thesis
    using x by (simp add: fsqrt_def Let_def rnd64_pos)
qed

lemma fsqrt_nonneg: "0 \<le> fsqrt x"
  using fsqrt_pos [of x] by (cases "0 < x") (auto simp: fsqrt_def)

lemma fsqrt_eq_0_iff: "fsqrt x = 0 \<longleftrightarrow> x \<le> 0"
  using fsqrt_pos [of x] by (auto simp: fsqrt_def)

lemma fsqrt_1 [simp]: "fsqrt 1 = 1"
  by code_simp

end
