(* ===== verification/Text.thy ===== *)
theory Text
  imports Prelude
begin

text \<open>
  The string operations of the source, on Isabelle's \<open>string\<close> (a list of characters). The model
  covers ASCII text: \<open>lower\<close>, \<open>is_space\<close>, \<open>is_digit\<close> and the regular-expression classes
  agree with Python's on code points below 128. \<open>runs p\<close> is \<^verbatim>\<open>re.findall\<close> of a pattern
  \<^verbatim>\<open>[class]+\<close>: the maximal runs of characters in the class. The lemmas say how \<open>runs\<close>
  behaves under concatenation, mapping and stripping; the tokenizers of the program (words,
  facts, query normalisation) are all instances of it.
\<close>

section \<open>Characters\<close>

definition code :: "char \<Rightarrow> nat" where
  "code c = of_char c"

definition is_space :: "char \<Rightarrow> bool" where
  "is_space c = (9 \<le> code c \<and> code c \<le> 13 \<or> 28 \<le> code c \<and> code c \<le> 32)"

definition is_upper :: "char \<Rightarrow> bool" where
  "is_upper c = (65 \<le> code c \<and> code c \<le> 90)"

definition is_lower :: "char \<Rightarrow> bool" where
  "is_lower c = (97 \<le> code c \<and> code c \<le> 122)"

definition is_digit :: "char \<Rightarrow> bool" where
  "is_digit c = (48 \<le> code c \<and> code c \<le> 57)"

definition lower_char :: "char \<Rightarrow> char" where
  "lower_char c = (if is_upper c then char_of (code c + 32) else c)"

definition lower :: "string \<Rightarrow> string" where
  "lower s = map lower_char s"

named_theorems char_defs "the definitions of the character classes"

declare code_def [char_defs] is_space_def [char_defs] is_upper_def [char_defs]
  is_lower_def [char_defs] is_digit_def [char_defs]

lemma code_lower_char: "code (lower_char c) = (if is_upper c then code c + 32 else code c)"
proof (cases "is_upper c")
  case True
  then have "code c + 32 < 256" by (simp add: is_upper_def)
  then show ?thesis using True by (simp add: lower_char_def code_def of_char_of)
qed (simp add: lower_char_def)

lemma is_space_lower [simp]: "is_space (lower_char c) = is_space c"
  by (auto simp: is_space_def code_lower_char is_upper_def)

lemma is_digit_lower [simp]: "is_digit (lower_char c) = is_digit c"
  by (auto simp: is_digit_def code_lower_char is_upper_def)

lemma lower_char_idem [simp]: "lower_char (lower_char c) = lower_char c"
  using code_lower_char [of c] by (auto simp: lower_char_def is_upper_def split: if_splits)

lemma lower_append [simp]: "lower (s @ t) = lower s @ lower t"
  by (simp add: lower_def)

lemma lower_Cons [simp]: "lower (c # t) = lower_char c # lower t"
  by (simp add: lower_def)

lemma lower_Nil [simp]: "lower [] = []"
  by (simp add: lower_def)

section \<open>Maximal runs\<close>

function runs :: "('a \<Rightarrow> bool) \<Rightarrow> 'a list \<Rightarrow> 'a list list" where
  "runs p [] = []"
| "runs p (c # cs) =
     (if p c then (c # takeWhile p cs) # runs p (dropWhile p cs) else runs p cs)"
  by pat_completeness auto
termination
  by (relation "measure (\<lambda>(p, s). length s)") (auto simp: length_dropWhile_le le_imp_less_Suc)

lemma dropWhile_all: "\<forall>x \<in> set xs. p x \<Longrightarrow> dropWhile p xs = []"
  by (induction xs) auto

lemma takeWhile_all: "\<forall>x \<in> set xs. p x \<Longrightarrow> takeWhile p xs = xs"
  by (induction xs) auto

lemma runs_sep: "\<not> p c \<Longrightarrow> runs p (s @ c # t) = runs p s @ runs p t"
proof (induction p s rule: runs.induct)
  case (2 p d ds)
  show ?case
  proof (cases "p d")
    case True
    show ?thesis
    proof (cases "\<forall>x \<in> set ds. p x")
      case all: True
      then have "takeWhile p (ds @ c # t) = ds" "dropWhile p (ds @ c # t) = c # t"
        using "2.prems" by (simp_all add: takeWhile_append2 dropWhile_append2)
      then show ?thesis using True "2.prems" all
        by (simp add: takeWhile_all dropWhile_all)
    next
      case False
      then have "takeWhile p (ds @ c # t) = takeWhile p ds"
        "dropWhile p (ds @ c # t) = dropWhile p ds @ c # t"
        by (auto simp: takeWhile_append1 dropWhile_append1)
      then show ?thesis using True "2.IH"(1) "2.prems" by simp
    qed
  next
    case False
    then show ?thesis using "2.IH"(2) "2.prems" by simp
  qed
qed simp

lemma runs_none: "\<forall>c \<in> set s. \<not> p c \<Longrightarrow> runs p s = []"
  by (induction s) auto

lemma runs_append_none: "\<forall>c \<in> set t. \<not> p c \<Longrightarrow> runs p (s @ t) = runs p s"
  by (cases t) (auto simp: runs_sep runs_none)

lemma runs_prepend_none: "\<forall>c \<in> set t. \<not> p c \<Longrightarrow> runs p (t @ s) = runs p s"
  by (induction t) auto

lemma runs_dropWhile: "(\<And>c. q c \<Longrightarrow> \<not> p c) \<Longrightarrow> runs p (dropWhile q s) = runs p s"
  by (induction s) auto

lemma runs_map: "runs p (map f s) = map (map f) (runs (p \<circ> f) s)"
proof (induction "p \<circ> f" s rule: runs.induct)
  case (2 c cs)
  then show ?case by (simp add: takeWhile_map dropWhile_map)
qed simp

lemma runs_all: "s \<noteq> [] \<Longrightarrow> \<forall>c \<in> set s. p c \<Longrightarrow> runs p s = [s]"
  by (cases s) (simp_all add: takeWhile_all dropWhile_all)

lemma runs_elem: "r \<in> set (runs p s) \<Longrightarrow> r \<noteq> [] \<and> (\<forall>c \<in> set r. p c)"
proof (induction p s rule: runs.induct)
  case (2 p c cs)
  then show ?case by (cases "p c") (auto dest: set_takeWhileD)
qed simp

lemma set_concat_runs: "set (concat (runs p s)) = {c \<in> set s. p c}"
proof (induction p s rule: runs.induct)
  case (2 p c cs)
  have "set cs = set (takeWhile p cs) \<union> set (dropWhile p cs)"
    by (metis set_append takeWhile_dropWhile_id)
  then show ?case using 2 by (auto dest: set_takeWhileD)
qed simp

section \<open>Split, strip, join\<close>

definition split_ws :: "string \<Rightarrow> string list" where
  "split_ws s = runs (\<lambda>c. \<not> is_space c) s"

definition strip :: "string \<Rightarrow> string" where
  "strip s = rev (dropWhile is_space (rev (dropWhile is_space s)))"

fun join :: "string \<Rightarrow> string list \<Rightarrow> string" where
  "join sep [] = []"
| "join sep [x] = x"
| "join sep (x # y # ys) = x @ sep @ join sep (y # ys)"

lemma runs_strip: "(\<And>c. is_space c \<Longrightarrow> \<not> p c) \<Longrightarrow> runs p (strip s) = runs p s"
proof -
  assume sp: "\<And>c. is_space c \<Longrightarrow> \<not> p c"
  have tail: "runs p (rev (dropWhile is_space (rev t))) = runs p t" for t
  proof -
    have "t = rev (dropWhile is_space (rev t)) @ rev (takeWhile is_space (rev t))"
      by (metis rev_append rev_rev_ident takeWhile_dropWhile_id)
    moreover have "\<forall>c \<in> set (rev (takeWhile is_space (rev t))). \<not> p c"
      using sp by (auto dest: set_takeWhileD)
    ultimately show ?thesis by (metis runs_append_none)
  qed
  show ?thesis by (simp add: strip_def tail runs_dropWhile sp)
qed

lemma set_strip: "set (strip s) \<subseteq> set s"
  by (auto simp: strip_def dest!: set_dropWhileD)

lemma set_join: "set (join sep xs) \<subseteq> set sep \<union> \<Union> (set ` set xs)"
  by (induction sep xs rule: join.induct) auto

lemma join_Cons: "xs \<noteq> [] \<Longrightarrow> join sep (x # xs) = x @ sep @ join sep xs"
  by (cases xs) auto

lemma runs_join: "\<not> p c \<Longrightarrow> runs p (join [c] xs) = concat (map (runs p) xs)"
  by (induction "[c]" xs rule: join.induct) (auto simp: runs_sep)

lemma join_runs_id: "\<not> p c \<Longrightarrow> runs p (join [c] (runs p s)) = runs p s"
proof -
  assume c: "\<not> p c"
  have "map (runs p) (runs p s) = map (\<lambda>r. [r]) (runs p s)"
    by (rule map_cong) (auto dest: runs_elem intro: runs_all)
  then have "runs p (join [c] (runs p s)) = concat (map (\<lambda>r. [r]) (runs p s))"
    by (simp only: runs_join [of p c, OF c])
  then show ?thesis by (simp add: concat_map_singleton)
qed

section \<open>Decimal numerals\<close>

definition digit_char :: "nat \<Rightarrow> char" where
  "digit_char d = char_of (48 + d)"

fun str_of_nat :: "nat \<Rightarrow> string" where
  "str_of_nat n = (if n < 10 then [digit_char n] else str_of_nat (n div 10) @ [digit_char (n mod 10)])"

declare str_of_nat.simps [simp del]

definition str_of_int :: "int \<Rightarrow> string" where
  "str_of_int n = (if n < 0 then ''-'' @ str_of_nat (nat (- n)) else str_of_nat (nat n))"

end
