(* ===== verification/Models.thy ===== *)
theory Models
  imports Float64 Text "HOL-Library.Word"
begin

text \<open>
  The typed vocabulary of \<^verbatim>\<open>src/contextos/models\<close>: enumerations, the five core schemas
  (memory object and candidate, context block, policy, cache entry, trace span) as records with
  the source's fields, and the ULID generator of \<^verbatim>\<open>models/common.py\<close>. A timestamp is an
  \<open>int\<close>, microseconds since the epoch: Python's \<^verbatim>\<open>datetime\<close> is exact at that
  resolution. A default factory (\<^verbatim>\<open>new_ulid\<close>, \<^verbatim>\<open>utcnow\<close>) is an explicit argument of the
  operation that runs it. Enumerations come with the \<^verbatim>\<open>.value\<close> strings the code prints.
\<close>

section \<open>Enumerations\<close>

datatype action = READ | WRITE | DELETE | ADMIN | ROUTE | CACHE_READ

text \<open>An f-string prints a member of a \<^verbatim>\<open>(str, Enum)\<close> class by its qualified name.\<close>

fun action_name :: "action \<Rightarrow> string" where
  "action_name READ = ''Action.READ''"
| "action_name WRITE = ''Action.WRITE''"
| "action_name DELETE = ''Action.DELETE''"
| "action_name ADMIN = ''Action.ADMIN''"
| "action_name ROUTE = ''Action.ROUTE''"
| "action_name CACHE_READ = ''Action.CACHE_READ''"

datatype effect = ALLOW | DENY

datatype memory_tier = WORKING | SHORT_TERM | LONG_TERM | EPISODIC | SEMANTIC

fun tier_value :: "memory_tier \<Rightarrow> string" where
  "tier_value WORKING = ''working''"
| "tier_value SHORT_TERM = ''short_term''"
| "tier_value LONG_TERM = ''long_term''"
| "tier_value EPISODIC = ''episodic''"
| "tier_value SEMANTIC = ''semantic''"

datatype visibility = PRIVATE | SHARED_ORG

datatype block_source = BS_SYSTEM | BS_MEMORY | BS_DOCUMENT | BS_HISTORY | BS_USER

section \<open>Schemas\<close>

record provenance =
  pv_source :: string
  pv_source_id :: "string option"
  pv_ingested_at :: int

record access_scope =
  as_tenant_id :: string
  as_namespace :: string
  as_visibility :: visibility

record embedding_ref =
  er_store :: string
  er_collection :: string
  er_vector_id :: string
  er_dim :: int
  er_dek_id :: "string option"

record memory_object =
  mo_id :: string
  mo_tenant_id :: string
  mo_namespace :: string
  mo_tier :: memory_tier
  mo_content :: string
  mo_embedding_ref :: "embedding_ref option"
  mo_importance :: flt
  mo_created_at :: int
  mo_last_accessed_at :: int
  mo_provenance :: provenance
  mo_metadata :: "(string, string) dict"

text \<open>The validator of \<^verbatim>\<open>importance: float = Field(0.5, ge=0.0, le=1.0)\<close>.\<close>

definition validate_memory :: "memory_object \<Rightarrow> memory_object result" where
  "validate_memory m =
     (if 0 \<le> mo_importance m \<and> mo_importance m \<le> 1 then Inr m
      else Inl (ValidationError ''importance''))"

record memory_candidate =
  mc_memory_id :: string
  mc_tenant_id :: string
  mc_namespace :: string
  mc_tier :: memory_tier
  mc_content :: string
  mc_vector_score :: "flt option"
  mc_bm25_score :: "flt option"
  mc_rrf_score :: flt
  mc_recency_factor :: flt
  mc_importance :: flt
  mc_rank_in_dense :: "nat option"
  mc_rank_in_sparse :: "nat option"
  mc_age_seconds :: flt
  mc_source_ref :: "string option"

record context_block =
  cb_id :: string
  cb_source :: block_source
  cb_content :: string
  cb_score :: flt
  cb_token_count :: int
  cb_access_scope :: access_scope
  cb_position :: int
  cb_provenance_ref :: "string option"

definition validate_block :: "context_block \<Rightarrow> context_block result" where
  "validate_block b =
     (if cb_token_count b < 0 then Inl (ValidationError ''token_count'')
      else if cb_position b < 0 then Inl (ValidationError ''position'')
      else Inr b)"

record policy_rule =
  pr_principal_match :: "(string, string) dict"
  pr_resource_match :: "(string, string) dict"
  pr_actions :: "action list"
  pr_effect :: effect

record rbac_policy =
  rp_id :: string
  rp_tenant_id :: string
  rp_description :: string
  rp_rules :: "policy_rule list"
  rp_default_effect :: effect

record cache_entry =
  ce_key :: string
  ce_tenant_id :: string
  ce_fingerprint :: string
  ce_response_ref :: string
  ce_model_id :: string
  ce_ttl_seconds :: int
  ce_created_at :: int
  ce_hit_count :: int
  ce_non_cacheable :: bool

record decision_record =
  dr_stage :: string
  dr_summary :: string
  dr_pointers :: "(string, string) dict"

datatype attr_value = AStr string | AInt int | AFloat flt | ABool bool

record trace_span =
  ts_trace_id :: string
  ts_span_id :: string
  ts_parent_span_id :: "string option"
  ts_tenant_id :: string
  ts_stage :: string
  ts_name :: string
  ts_start :: int
  ts_end :: "int option"
  ts_attributes :: "(string, attr_value) dict"
  ts_decision :: "decision_record option"

text \<open>\<^verbatim>\<open>timedelta.total_seconds()\<close>: microseconds over a million, correctly rounded.\<close>

definition total_seconds :: "int \<Rightarrow> flt" where
  "total_seconds us = int_truediv us 1000000"

definition duration_ms :: "trace_span \<Rightarrow> flt option" where
  "duration_ms s = (case ts_end s of None \<Rightarrow> None
     | Some e \<Rightarrow> Some (fmul (total_seconds (e - ts_start s)) 1000))"

lemma total_seconds_mono: "a \<le> b \<Longrightarrow> total_seconds a \<le> total_seconds b"
  by (simp add: total_seconds_def int_truediv_def rnd64_mono divide_right_mono)

lemma total_seconds_nonneg: "0 \<le> a \<Longrightarrow> 0 \<le> total_seconds a"
  by (simp add: total_seconds_def int_truediv_def rnd64_nonneg)

end
