(* ===== verification/Security.thy ===== *)
theory Security
  imports Models
begin

text \<open>
  \<^verbatim>\<open>security/context.py\<close> and \<^verbatim>\<open>security/rbac.py\<close>: the security context that every
  operation of the program takes, and the policy engine. \<open>evaluate\<close> follows the source: the tenant
  boundary first, then the default floor when no rules are loaded, then the loop over the rules
  that returns at the first matching deny. The reference definition \<open>permits\<close> states what
  deny-overrides means without an order, and \<open>evaluate_allowed_iff\<close> relates the two.
\<close>

section \<open>The security context\<close>

record principal =
  pc_id :: string
  pc_tenant_id :: string
  pc_roles :: "string list"
  pc_attributes :: "(string, string) dict"

record security_context =
  ctx_tenant_id :: string
  ctx_principal :: principal
  ctx_namespace :: string
  ctx_request_id :: string

record scope =
  sc_tenant_id :: string
  sc_namespace :: string

text \<open>The truth value of a \<^verbatim>\<open>str | None\<close>, and \<^verbatim>\<open>a or b\<close> on such values.\<close>

definition truthy :: "string option \<Rightarrow> bool" where
  "truthy x = (case x of None \<Rightarrow> False | Some s \<Rightarrow> s \<noteq> [])"

definition or_else :: "string option \<Rightarrow> string \<Rightarrow> string" where
  "or_else x d = (case x of None \<Rightarrow> d | Some s \<Rightarrow> if s = [] then d else s)"

definition resolve ::
  "string option \<Rightarrow> string option \<Rightarrow> string option \<Rightarrow> string list option \<Rightarrow> string \<Rightarrow>
   security_context result" where
  "resolve tenant_id user_id namespace roles request_id =
     (if \<not> truthy tenant_id then Inl (MissingTenant ''no tenant on request'')
      else
        let ns = (if truthy namespace then namespace
                  else if truthy user_id then Some (''user:'' @ the user_id) else None)
        in if \<not> truthy ns then Inl (MissingNamespace ''no namespace and no user to derive one from'')
           else Inr \<lparr>ctx_tenant_id = the tenant_id,
             ctx_principal = \<lparr>pc_id = or_else user_id ''anonymous'',
               pc_tenant_id = the tenant_id,
               pc_roles = (case roles of None \<Rightarrow> [] | Some rs \<Rightarrow> rs),
               pc_attributes = [(''namespace'', the ns)]\<rparr>,
             ctx_namespace = the ns, ctx_request_id = request_id\<rparr>)"

definition ctx_scope :: "security_context \<Rightarrow> scope" where
  "ctx_scope ctx = \<lparr>sc_tenant_id = ctx_tenant_id ctx, sc_namespace = ctx_namespace ctx\<rparr>"

lemma truthy_simps [simp]: "\<not> truthy None" "truthy (Some s) \<longleftrightarrow> s \<noteq> []"
  by (simp_all add: truthy_def)

lemma resolve_Inr_iff:
  "resolve t u n r q = Inr ctx \<longleftrightarrow>
     truthy t \<and> (truthy n \<or> truthy u) \<and>
     ctx = \<lparr>ctx_tenant_id = the t,
       ctx_principal = \<lparr>pc_id = or_else u ''anonymous'', pc_tenant_id = the t,
         pc_roles = (case r of None \<Rightarrow> [] | Some rs \<Rightarrow> rs),
         pc_attributes = [(''namespace'', if truthy n then the n else ''user:'' @ the u)]\<rparr>,
       ctx_namespace = (if truthy n then the n else ''user:'' @ the u), ctx_request_id = q\<rparr>"
  by (auto simp: resolve_def Let_def)

section \<open>The policy engine\<close>

record decision =
  dec_effect :: effect
  dec_reason :: string

definition allowed :: "decision \<Rightarrow> bool" where
  "allowed d = (dec_effect d = ALLOW)"

text \<open>\<^verbatim>\<open>_matches\<close>: the loop over \<^verbatim>\<open>match.items()\<close>.\<close>

fun rule_matches :: "(string, string) dict \<Rightarrow> (string, string) dict \<Rightarrow> bool" where
  "rule_matches [] attrs = True"
| "rule_matches ((key, want) # rest) attrs =
     (if want = ''*'' then rule_matches rest attrs
      else if dget attrs key \<noteq> Some want then False
      else rule_matches rest attrs)"

text \<open>The loop over \<^verbatim>\<open>policy.rules\<close>; \<open>allow_hit\<close> is its local variable.\<close>

fun eval_rules ::
  "action \<Rightarrow> (string, string) dict \<Rightarrow> (string, string) dict \<Rightarrow> effect \<Rightarrow> bool \<Rightarrow>
   policy_rule list \<Rightarrow> decision" where
  "eval_rules act pattrs rattrs dflt allow_hit [] =
     (if allow_hit then \<lparr>dec_effect = ALLOW, dec_reason = ''matched allow rule, no deny override''\<rparr>
      else \<lparr>dec_effect = dflt, dec_reason = ''no matching rule; default effect applied''\<rparr>)"
| "eval_rules act pattrs rattrs dflt allow_hit (rule # rest) =
     (if act \<notin> set (pr_actions rule) then eval_rules act pattrs rattrs dflt allow_hit rest
      else if \<not> rule_matches (pr_principal_match rule) pattrs
        then eval_rules act pattrs rattrs dflt allow_hit rest
      else if \<not> rule_matches (pr_resource_match rule) rattrs
        then eval_rules act pattrs rattrs dflt allow_hit rest
      else if pr_effect rule = DENY
        then \<lparr>dec_effect = DENY, dec_reason = ''explicit deny rule (deny-overrides)''\<rparr>
      else eval_rules act pattrs rattrs dflt True rest)"

definition principal_attrs :: "security_context \<Rightarrow> (string, string) dict" where
  "principal_attrs ctx =
     dset ''namespace'' (ctx_namespace ctx)
       (dset ''tenant_id'' (ctx_tenant_id ctx) (pc_attributes (ctx_principal ctx)))"

definition resource_attrs ::
  "security_context \<Rightarrow> (string, string) dict \<Rightarrow> (string, string) dict" where
  "resource_attrs ctx resource =
     dset ''namespace'' (or_else (dget resource ''namespace'') (ctx_namespace ctx)) resource"

text \<open>The branch without a tenant policy: the default-deny floor.\<close>

definition default_floor ::
  "security_context \<Rightarrow> (string, string) dict \<Rightarrow> action \<Rightarrow> decision" where
  "default_floor ctx resource act =
     (if (case dget resource ''namespace'' of None \<Rightarrow> False | Some ns \<Rightarrow> ns \<noteq> ctx_namespace ctx)
      then \<lparr>dec_effect = DENY, dec_reason = ''namespace mismatch under default-deny floor''\<rparr>
      else if act \<in> {READ, WRITE, CACHE_READ, ROUTE}
      then \<lparr>dec_effect = ALLOW, dec_reason = ''default floor: owner, same tenant+namespace''\<rparr>
      else \<lparr>dec_effect = DENY, dec_reason =
        ''default-deny: '' @ action_name act @ '' requires an explicit policy''\<rparr>)"

definition evaluate ::
  "rbac_policy option \<Rightarrow> security_context \<Rightarrow> (string, string) dict \<Rightarrow> action \<Rightarrow> decision" where
  "evaluate policy ctx resource act =
     (if (case dget resource ''tenant_id'' of None \<Rightarrow> False | Some rt \<Rightarrow> rt \<noteq> ctx_tenant_id ctx)
      then \<lparr>dec_effect = DENY, dec_reason =
        ''cross-tenant access denied ('' @ the (dget resource ''tenant_id'') @ '' != '' @
          ctx_tenant_id ctx @ '')''\<rparr>
      else case policy of
        None \<Rightarrow> default_floor ctx resource act
      | Some p \<Rightarrow>
          if rp_rules p = [] then default_floor ctx resource act
          else eval_rules act (principal_attrs ctx) (resource_attrs ctx resource)
                 (rp_default_effect p) False (rp_rules p))"

definition check ::
  "rbac_policy option \<Rightarrow> security_context \<Rightarrow> (string, string) dict \<Rightarrow> action \<Rightarrow> unit result" where
  "check policy ctx resource act =
     (let d = evaluate policy ctx resource act
      in if allowed d then Inr () else Inl (AccessDenied (dec_reason d)))"

lemma check_Inr_iff [simp]:
  "check policy ctx resource act = Inr u \<longleftrightarrow> allowed (evaluate policy ctx resource act)"
  by (simp add: check_def Let_def)

lemma check_Inl_iff:
  "check policy ctx resource act = Inl e \<longleftrightarrow>
     \<not> allowed (evaluate policy ctx resource act) \<and>
     e = AccessDenied (dec_reason (evaluate policy ctx resource act))"
  by (auto simp: check_def Let_def)

section \<open>What deny-overrides means\<close>

text \<open>A rule applies when its action and both its match maps do; a match map holds when every
  key is a wildcard or has exactly the wanted value.\<close>

definition match_holds :: "(string, string) dict \<Rightarrow> (string, string) dict \<Rightarrow> bool" where
  "match_holds m attrs = (\<forall>(k, w) \<in> set m. w = ''*'' \<or> dget attrs k = Some w)"

definition rule_applies ::
  "security_context \<Rightarrow> (string, string) dict \<Rightarrow> action \<Rightarrow> policy_rule \<Rightarrow> bool" where
  "rule_applies ctx resource act r =
     (act \<in> set (pr_actions r) \<and>
      match_holds (pr_principal_match r) (principal_attrs ctx) \<and>
      match_holds (pr_resource_match r) (resource_attrs ctx resource))"

definition same_tenant :: "security_context \<Rightarrow> (string, string) dict \<Rightarrow> bool" where
  "same_tenant ctx resource = (dget resource ''tenant_id'' \<in> {None, Some (ctx_tenant_id ctx)})"

text \<open>The reference: access is permitted within the tenant if some applicable rule allows it (or
  none applies and the default does) and no applicable rule denies it; without rules, if the
  resource is in the principal's namespace and the action is one of the four of the floor.\<close>

definition permits ::
  "rbac_policy option \<Rightarrow> security_context \<Rightarrow> (string, string) dict \<Rightarrow> action \<Rightarrow> bool" where
  "permits policy ctx resource act =
     (same_tenant ctx resource \<and>
      (let rules = (case policy of None \<Rightarrow> {} | Some p \<Rightarrow> set (rp_rules p));
           applicable = {r \<in> rules. rule_applies ctx resource act r}
       in if rules = {}
          then dget resource ''namespace'' \<in> {None, Some (ctx_namespace ctx)} \<and>
               act \<in> {READ, WRITE, CACHE_READ, ROUTE}
          else (\<forall>r \<in> applicable. pr_effect r = ALLOW) \<and>
               (applicable = {} \<longrightarrow> rp_default_effect (the policy) = ALLOW)))"

lemma rule_matches_iff: "rule_matches m attrs = match_holds m attrs"
  by (induction m attrs rule: rule_matches.induct) (auto simp: match_holds_def)

lemma effect_not_DENY: "e \<noteq> DENY \<longleftrightarrow> e = ALLOW"
  by (cases e) auto

lemma eval_rules_allowed:
  "allowed (eval_rules act (principal_attrs ctx) (resource_attrs ctx res) dflt hit rules) \<longleftrightarrow>
     (\<forall>r \<in> set rules. rule_applies ctx res act r \<longrightarrow> pr_effect r = ALLOW) \<and>
     (hit \<or> (\<exists>r \<in> set rules. rule_applies ctx res act r) \<or> dflt = ALLOW)"
proof (induction rules arbitrary: hit)
  case (Cons r rules)
  have e: "pr_effect r = DENY \<or> pr_effect r = ALLOW" by (cases "pr_effect r") auto
  show ?case
  proof (cases "rule_applies ctx res act r")
    case True
    then show ?thesis using e Cons
      by (auto simp: rule_applies_def rule_matches_iff allowed_def)
  next
    case False
    then show ?thesis using Cons
      by (auto simp: rule_applies_def rule_matches_iff)
  qed
qed (simp add: allowed_def)

lemma same_tenant_iff:
  "(case dget resource ''tenant_id'' of None \<Rightarrow> False | Some rt \<Rightarrow> rt \<noteq> ctx_tenant_id ctx) \<longleftrightarrow>
   \<not> same_tenant ctx resource"
  by (auto simp: same_tenant_def split: option.splits)

lemma default_floor_allowed:
  "allowed (default_floor ctx resource act) \<longleftrightarrow>
     dget resource ''namespace'' \<in> {None, Some (ctx_namespace ctx)} \<and>
     act \<in> {READ, WRITE, CACHE_READ, ROUTE}"
  by (auto simp: default_floor_def allowed_def split: option.splits if_splits)

lemma evaluate_cross_tenant:
  "\<not> same_tenant ctx resource \<Longrightarrow> \<not> allowed (evaluate policy ctx resource act)"
  by (simp add: evaluate_def same_tenant_iff allowed_def)

lemma evaluate_allowed_iff: "allowed (evaluate policy ctx resource act) = permits policy ctx resource act"
proof (cases "same_tenant ctx resource")
  case True
  show ?thesis
  proof (cases "\<exists>p. policy = Some p \<and> rp_rules p \<noteq> []")
    case True
    then obtain p where p: "policy = Some p" "rp_rules p \<noteq> []" by blast
    then show ?thesis using \<open>same_tenant ctx resource\<close>
      by (auto simp: evaluate_def same_tenant_iff permits_def Let_def eval_rules_allowed)
  next
    case False
    then have "evaluate policy ctx resource act = default_floor ctx resource act"
      using \<open>same_tenant ctx resource\<close> by (auto simp: evaluate_def same_tenant_iff split: option.splits)
    moreover have "(case policy of None \<Rightarrow> {} | Some p \<Rightarrow> set (rp_rules p)) = {}"
      using False by (auto split: option.splits)
    ultimately show ?thesis using \<open>same_tenant ctx resource\<close>
      by (simp add: permits_def Let_def default_floor_allowed)
  qed
qed (simp add: evaluate_cross_tenant permits_def)

section \<open>Properties\<close>

text \<open>A security context is resolved only from a tenant and a namespace, never defaulted: the
  outcome is a context carrying exactly the given tenant, on the context as on its principal, and
  a non-empty namespace, the given one or the user's; otherwise the call fails closed, naming
  what is missing.\<close>

theorem resolve_fails_closed:
  "case resolve t u n r q of
     Inr ctx \<Rightarrow> t = Some (ctx_tenant_id ctx) \<and> ctx_tenant_id ctx \<noteq> [] \<and> ctx_namespace ctx \<noteq> [] \<and>
       (if truthy n then n = Some (ctx_namespace ctx)
        else truthy u \<and> ctx_namespace ctx = ''user:'' @ the u) \<and>
       pc_tenant_id (ctx_principal ctx) = ctx_tenant_id ctx \<and>
       dget (pc_attributes (ctx_principal ctx)) ''namespace'' = Some (ctx_namespace ctx)
   | Inl (MissingTenant m) \<Rightarrow> \<not> truthy t
   | Inl (MissingNamespace m) \<Rightarrow> truthy t \<and> \<not> truthy n \<and> \<not> truthy u
   | Inl e \<Rightarrow> False"
  by (auto simp: resolve_def truthy_def Let_def split: option.splits)

text \<open>C8: The policy check is deny-overrides with a tenant wall in front: it passes exactly when
  the reference relation permits the access, and otherwise raises an access error.\<close>

theorem check_permits:
  "check policy ctx resource act =
     (if permits policy ctx resource act then Inr ()
      else Inl (AccessDenied (dec_reason (evaluate policy ctx resource act))))"
  by (simp add: check_def Let_def evaluate_allowed_iff)

text \<open>A policy is a set of rules: their order and repetition never change who is let in, and
  no policy whatever lets a request touch a resource of another tenant.\<close>

theorem policy_order_irrelevant:
  assumes "set (rp_rules p) = set (rp_rules p')" and "rp_default_effect p = rp_default_effect p'"
    and "dget resource ''tenant_id'' = Some owner"
  shows "allowed (evaluate (Some p) ctx resource act) = allowed (evaluate (Some p') ctx resource act) \<and>
    (owner \<noteq> ctx_tenant_id ctx \<longrightarrow> \<not> allowed (evaluate (Some p) ctx resource act))"
  using assms by (simp add: evaluate_allowed_iff permits_def same_tenant_def)

definition fx_rule :: "effect \<Rightarrow> policy_rule" where
  "fx_rule e = \<lparr>pr_principal_match = [], pr_resource_match = [(''namespace'', ''*'')],
     pr_actions = [READ], pr_effect = e\<rparr>"

definition fx_policy :: "effect list \<Rightarrow> rbac_policy" where
  "fx_policy es = \<lparr>rp_id = ''p'', rp_tenant_id = ''acme'', rp_description = [],
     rp_rules = map fx_rule es, rp_default_effect = DENY\<rparr>"

lemma policy_order_irrelevant_witness:
  "case resolve (Some ''acme'') (Some ''u'') None None ''r'' of Inl e \<Rightarrow> False | Inr ctx \<Rightarrow>
     allowed (evaluate (Some (fx_policy [ALLOW, DENY])) ctx [(''tenant_id'', ''acme'')] READ) =
     allowed (evaluate (Some (fx_policy [DENY, ALLOW, DENY])) ctx [(''tenant_id'', ''acme'')] READ)"
  using policy_order_irrelevant [of "fx_policy [ALLOW, DENY]" "fx_policy [DENY, ALLOW, DENY]"
      "[(''tenant_id'', ''acme'')]" "''acme''" _ READ]
  by (auto simp: resolve_def fx_policy_def)

end
