(* ===== verification/Isolation.thy ===== *)
theory Isolation
  imports Security
begin

text \<open>
  The interface that makes a component multi-tenant: what a tenant can observe of the state, and
  the operations, each performed on behalf of one tenant. The two laws are the unwinding
  conditions of noninterference: an operation of another tenant does not change the view, and a
  tenant's own operation depends on nothing but the view. Their consequence, proved once here, is
  that a tenant's view after any interleaving of operations is its view after its own operations
  alone. Every tenant-partitioned store of the program interprets \<open>tenant_scoped\<close>; the gateway under
  interleaved requests interprets the weaker \<open>tenant_scoped_under\<close>.
\<close>

section \<open>Purging a run\<close>

definition run_ops :: "('op \<Rightarrow> 's \<Rightarrow> 's) \<Rightarrow> 'op list \<Rightarrow> 's \<Rightarrow> 's" where
  "run_ops step ops s = fold step ops s"

definition purge :: "('op \<Rightarrow> string) \<Rightarrow> string \<Rightarrow> 'op list \<Rightarrow> 'op list" where
  "purge owner t ops = filter (\<lambda>op. owner op = t) ops"

lemma run_ops_simps [simp]:
  "run_ops step [] s = s"
  "run_ops step (op # ops) s = run_ops step ops (step op s)"
  by (simp_all add: run_ops_def)

lemma purge_simps [simp]:
  "purge owner t [] = []"
  "purge owner t (op # ops) = (if owner op = t then op # purge owner t ops else purge owner t ops)"
  by (simp_all add: purge_def)

section \<open>Tenant-scoped state\<close>

text \<open>The laws may need an invariant of the state and hold of well-formed operations only.\<close>

locale tenant_scoped_under =
  fixes view :: "string \<Rightarrow> 's \<Rightarrow> 'v"
    and step :: "'op \<Rightarrow> 's \<Rightarrow> 's"
    and owner :: "'op \<Rightarrow> string"
    and inv :: "'s \<Rightarrow> bool"
    and admitted :: "'op \<Rightarrow> bool"
  assumes keeps_inv: "admitted op \<Longrightarrow> inv s \<Longrightarrow> inv (step op s)"
    and respects: "admitted op \<Longrightarrow> inv s \<Longrightarrow> owner op \<noteq> t \<Longrightarrow> view t (step op s) = view t s"
    and consistent: "admitted op \<Longrightarrow> inv s \<Longrightarrow> inv s' \<Longrightarrow> owner op = t \<Longrightarrow> view t s = view t s' \<Longrightarrow>
      view t (step op s) = view t (step op s')"
begin

lemma run_under:
  "\<forall>op \<in> set ops. admitted op \<Longrightarrow> inv s \<Longrightarrow> inv s' \<Longrightarrow> view t s = view t s' \<Longrightarrow>
   view t (run_ops step ops s) = view t (run_ops step (purge owner t ops) s')"
proof (induction ops arbitrary: s s')
  case (Cons op ops)
  have op: "admitted op" "\<forall>op \<in> set ops. admitted op" using Cons.prems(1) by simp_all
  show ?case
  proof (cases "owner op = t")
    case True
    then show ?thesis
      using Cons.IH [OF op(2) keeps_inv [OF op(1) Cons.prems(2)] keeps_inv [OF op(1) Cons.prems(3)]
          consistent [OF op(1) Cons.prems(2,3) True Cons.prems(4)]] by simp
  next
    case False
    then have "view t (step op s) = view t s'" using respects op(1) Cons.prems by simp
    then show ?thesis using Cons.IH [OF op(2) keeps_inv [OF op(1) Cons.prems(2)] Cons.prems(3)] False by simp
  qed
qed simp

lemma noninterference_under:
  "\<forall>op \<in> set ops. admitted op \<Longrightarrow> inv s \<Longrightarrow> view t (run_ops step ops s) = view t (run_ops step (purge owner t ops) s)"
  by (rule run_under) simp_all

end

locale tenant_scoped =
  fixes view :: "string \<Rightarrow> 's \<Rightarrow> 'v"
    and step :: "'op \<Rightarrow> 's \<Rightarrow> 's"
    and owner :: "'op \<Rightarrow> string"
  assumes local_respect: "owner op \<noteq> t \<Longrightarrow> view t (step op s) = view t s"
    and step_consistent: "owner op = t \<Longrightarrow> view t s = view t s' \<Longrightarrow> view t (step op s) = view t (step op s')"

text \<open>Without them it is the case of every state and every operation.\<close>

sublocale tenant_scoped \<subseteq> scoped: tenant_scoped_under view step owner "\<lambda>_. True" "\<lambda>_. True"
  by unfold_locales (rule TrueI local_respect step_consistent, assumption?)+

context tenant_scoped begin

lemma noninterference: "view t (run_ops step ops s) = view t (run_ops step (purge owner t ops) s)"
  by (rule scoped.noninterference_under) simp_all

lemma invisible_run: "\<forall>op \<in> set ops. owner op \<noteq> t \<Longrightarrow> view t (run_ops step ops s) = view t s"
proof -
  assume "\<forall>op \<in> set ops. owner op \<noteq> t"
  then have "purge owner t ops = []" by (simp add: purge_def)
  then show ?thesis using noninterference [of t ops s] by simp
qed

end

end
