(* ===== verification/Store.thy ===== *)
theory Store
  imports Isolation
begin

text \<open>
  \<^verbatim>\<open>store/base.py\<close> and \<^verbatim>\<open>store/memory_store.py\<close>. The protocol \<^verbatim>\<open>StorageBackend\<close> is the
  record \<open>storage_backend\<close> of its operations and the locale \<open>storage\<close> of the laws its clients (the
  memory engine, versioning, consolidation) rely on; \<open>inmem\<close> is the reference implementation
  \<^verbatim>\<open>InMemoryStore\<close>, a dictionary of dictionaries, and interprets the locale under the
  invariant \<open>store_inv\<close>.
\<close>

section \<open>The protocol\<close>

record 's storage_backend =
  sb_add_memory :: "security_context \<Rightarrow> memory_object \<Rightarrow> 's \<Rightarrow> memory_object result \<times> 's"
  sb_get_memory :: "security_context \<Rightarrow> string \<Rightarrow> 's \<Rightarrow> memory_object option"
  sb_list_memories :: "security_context \<Rightarrow> nat \<Rightarrow> 's \<Rightarrow> memory_object list"
  sb_health_check :: "'s \<Rightarrow> bool"

definition in_scope :: "security_context \<Rightarrow> memory_object \<Rightarrow> bool" where
  "in_scope ctx m = (mo_tenant_id m = ctx_tenant_id ctx \<and> mo_namespace m = ctx_namespace ctx)"

locale storage =
  fixes B :: "'s storage_backend"
    and inv :: "'s \<Rightarrow> bool"
  assumes add_out_of_scope:
      "\<not> in_scope ctx m \<Longrightarrow> \<exists>msg. sb_add_memory B ctx m s = (Inl (AccessDenied msg), s)"
    and add_in_scope: "in_scope ctx m \<Longrightarrow> fst (sb_add_memory B ctx m s) = Inr m"
    and add_inv: "inv s \<Longrightarrow> inv (snd (sb_add_memory B ctx m s))"
    and get_after_add:
      "in_scope ctx m \<Longrightarrow> sb_get_memory B ctx (mo_id m) (snd (sb_add_memory B ctx m s)) = Some m"
    and get_after_add_other:
      "i \<noteq> mo_id m \<Longrightarrow> sb_get_memory B ctx i (snd (sb_add_memory B ctx' m s)) = sb_get_memory B ctx i s"
    and get_scoped: "inv s \<Longrightarrow> sb_get_memory B ctx i s = Some m \<Longrightarrow> in_scope ctx m \<and> mo_id m = i"
    and list_get: "inv s \<Longrightarrow> m \<in> set (sb_list_memories B ctx n s) \<Longrightarrow> sb_get_memory B ctx (mo_id m) s = Some m"
    and list_distinct: "inv s \<Longrightarrow> distinct (map mo_id (sb_list_memories B ctx n s))"
    and list_limit: "length (sb_list_memories B ctx n s) \<le> n"
    and list_complete: "inv s \<Longrightarrow> sb_get_memory B ctx i s = Some m \<Longrightarrow>
      length (sb_list_memories B ctx n s) < n \<Longrightarrow> m \<in> set (sb_list_memories B ctx n s)"
begin

lemma list_scoped: "inv s \<Longrightarrow> m \<in> set (sb_list_memories B ctx n s) \<Longrightarrow> in_scope ctx m"
  using list_get get_scoped by blast

lemma add_cases:
  obtains (denied) msg where "\<not> in_scope ctx m" "sb_add_memory B ctx m s = (Inl (AccessDenied msg), s)"
  | (added) s' where "in_scope ctx m" "sb_add_memory B ctx m s = (Inr m, s')"
proof (cases "in_scope ctx m")
  case True
  show thesis
    by (rule added [OF True, of "snd (sb_add_memory B ctx m s)"])
      (simp add: prod_eq_iff add_in_scope [OF True])
next
  case False
  then show thesis using denied add_out_of_scope by blast
qed

lemma list_full_or_complete:
  assumes "inv s" and "sb_get_memory B ctx i s = Some m" and "m \<notin> set (sb_list_memories B ctx n s)"
  shows "length (sb_list_memories B ctx n s) = n"
  using assms list_complete [of s ctx i m n] list_limit [of ctx n s] by force

end

section \<open>InMemoryStore\<close>

type_synonym mem_store = "memory_object tdict"

definition empty_store :: mem_store where
  "empty_store = []"

definition add_memory ::
  "security_context \<Rightarrow> memory_object \<Rightarrow> mem_store \<Rightarrow> memory_object result \<times> mem_store" where
  "add_memory ctx memory s =
     (if mo_tenant_id memory \<noteq> ctx_tenant_id ctx
      then (Inl (AccessDenied ''write tenant != context tenant''), s)
      else if mo_namespace memory \<noteq> ctx_namespace ctx
      then (Inl (AccessDenied ''write namespace != context namespace''), s)
      else (Inr memory, tput (ctx_tenant_id ctx) (mo_id memory) memory s))"

definition get_memory :: "security_context \<Rightarrow> string \<Rightarrow> mem_store \<Rightarrow> memory_object option" where
  "get_memory ctx memory_id s =
     (case dget (part s (ctx_tenant_id ctx)) memory_id of
        None \<Rightarrow> None
      | Some row \<Rightarrow> if mo_namespace row \<noteq> ctx_namespace ctx then None else Some row)"

definition list_memories :: "security_context \<Rightarrow> nat \<Rightarrow> mem_store \<Rightarrow> memory_object list" where
  "list_memories ctx limit s =
     take limit (filter (\<lambda>r. mo_namespace r = ctx_namespace ctx)
       (dvalues (part s (ctx_tenant_id ctx))))"

definition store_health_check :: "mem_store \<Rightarrow> bool" where
  "store_health_check s = True"

definition inmem :: "mem_store storage_backend" where
  "inmem = \<lparr>sb_add_memory = add_memory, sb_get_memory = get_memory,
     sb_list_memories = list_memories, sb_health_check = store_health_check\<rparr>"

text \<open>The invariant: every row is filed under its own tenant and id, once.\<close>

definition store_inv :: "mem_store \<Rightarrow> bool" where
  "store_inv s = (\<forall>t. distinct (dkeys (part s t)) \<and>
     (\<forall>(k, m) \<in> set (part s t). mo_id m = k \<and> mo_tenant_id m = t))"

lemma store_inv_empty: "store_inv empty_store"
  by (simp add: store_inv_def empty_store_def)

lemma store_inv_tput:
  "store_inv s \<Longrightarrow> mo_tenant_id m = t \<Longrightarrow> store_inv (tput t (mo_id m) m s)"
  using set_dset_subset [of "mo_id m" m "part s t"]
  by (auto simp: store_inv_def distinct_dkeys_dset)

lemma store_inv_add: "store_inv s \<Longrightarrow> store_inv (snd (add_memory ctx m s))"
  by (auto simp: add_memory_def intro: store_inv_tput)

lemma store_inv_dget:
  "store_inv s \<Longrightarrow> dget (part s t) i = Some m \<Longrightarrow> mo_id m = i \<and> mo_tenant_id m = t"
  by (force simp: store_inv_def dest: map_of_SomeD)

lemma store_inv_values:
  "store_inv s \<Longrightarrow> (k, m) \<in> set (part s t) \<Longrightarrow> dget (part s t) (mo_id m) = Some m"
  by (force simp: store_inv_def intro: map_of_is_SomeI)

lemma store_inv_distinct_ids: "store_inv s \<Longrightarrow> distinct (map mo_id (dvalues (part s t)))"
proof -
  assume inv: "store_inv s"
  then have "map mo_id (dvalues (part s t)) = dkeys (part s t)"
    by (fastforce simp: store_inv_def)
  then show ?thesis using inv by (simp only: store_inv_def)
qed

lemma distinct_map_filter_take:
  "distinct (map f xs) \<Longrightarrow> distinct (map f (take n (filter P xs)))"
  by (metis distinct_map_filter distinct_take take_map)

interpretation inmem: storage inmem store_inv
proof
  fix ctx :: security_context and m :: memory_object and s :: mem_store and i n
  show "\<not> in_scope ctx m \<Longrightarrow> \<exists>msg. sb_add_memory inmem ctx m s = (Inl (AccessDenied msg), s)"
    by (auto simp: inmem_def add_memory_def in_scope_def)
  show "in_scope ctx m \<Longrightarrow> fst (sb_add_memory inmem ctx m s) = Inr m"
    by (simp add: inmem_def add_memory_def in_scope_def)
  show "store_inv s \<Longrightarrow> store_inv (snd (sb_add_memory inmem ctx m s))"
    by (simp add: inmem_def store_inv_add)
  show "in_scope ctx m \<Longrightarrow>
    sb_get_memory inmem ctx (mo_id m) (snd (sb_add_memory inmem ctx m s)) = Some m"
    by (simp add: inmem_def add_memory_def get_memory_def in_scope_def)
  show "i \<noteq> mo_id m \<Longrightarrow>
    sb_get_memory inmem ctx i (snd (sb_add_memory inmem ctx' m s)) = sb_get_memory inmem ctx i s" for ctx'
    by (simp add: inmem_def add_memory_def get_memory_def)
  show "store_inv s \<Longrightarrow> sb_get_memory inmem ctx i s = Some m \<Longrightarrow> in_scope ctx m \<and> mo_id m = i"
    by (auto simp: inmem_def get_memory_def in_scope_def split: option.splits if_splits
        dest: store_inv_dget)
  show "store_inv s \<Longrightarrow> m \<in> set (sb_list_memories inmem ctx n s) \<Longrightarrow>
    sb_get_memory inmem ctx (mo_id m) s = Some m"
    by (auto simp: inmem_def get_memory_def list_memories_def dest!: in_set_takeD
        simp: store_inv_values)
  show "store_inv s \<Longrightarrow> distinct (map mo_id (sb_list_memories inmem ctx n s))"
    unfolding inmem_def list_memories_def
    by (simp only: storage_backend.simps) (intro distinct_map_filter_take store_inv_distinct_ids)
  show "length (sb_list_memories inmem ctx n s) \<le> n"
    by (simp add: inmem_def list_memories_def)
  show "store_inv s \<Longrightarrow> sb_get_memory inmem ctx i s = Some m \<Longrightarrow>
    length (sb_list_memories inmem ctx n s) < n \<Longrightarrow> m \<in> set (sb_list_memories inmem ctx n s)"
    by (auto simp: inmem_def get_memory_def list_memories_def split: option.splits if_splits
        dest!: map_of_SomeD intro!: rev_image_eqI)
qed

section \<open>Isolation\<close>

text \<open>What a tenant can observe of the store is its own partition.\<close>

definition store_step :: "security_context \<times> memory_object \<Rightarrow> mem_store \<Rightarrow> mem_store" where
  "store_step op s = snd (add_memory (fst op) (snd op) s)"

definition store_owner :: "security_context \<times> memory_object \<Rightarrow> string" where
  "store_owner op = ctx_tenant_id (fst op)"

interpretation store_iso: tenant_scoped "\<lambda>t s. part s t" store_step store_owner
  by unfold_locales (auto simp: store_step_def store_owner_def add_memory_def)

lemma get_memory_part: "part s (ctx_tenant_id ctx) = part s' (ctx_tenant_id ctx) \<Longrightarrow>
  get_memory ctx i s = get_memory ctx i s'"
  by (simp add: get_memory_def)

lemma list_memories_part: "part s (ctx_tenant_id ctx) = part s' (ctx_tenant_id ctx) \<Longrightarrow>
  list_memories ctx n s = list_memories ctx n s'"
  by (simp add: list_memories_def)

section \<open>Properties\<close>

text \<open>A read after a write. A row added in scope is read back as it was written; a write out of
  scope changes nothing; another tenant's write is invisible, whatever its id; and a write of
  another namespace of the same tenant is invisible too, except that it takes over the row of the
  same id.\<close>

theorem get_after_write:
  "get_memory ctx i (snd (add_memory ctx' m s)) =
     (if in_scope ctx' m \<and> i = mo_id m \<and> ctx_tenant_id ctx = ctx_tenant_id ctx'
      then (if ctx_namespace ctx = ctx_namespace ctx' then Some m else None)
      else get_memory ctx i s)"
  by (auto simp: get_memory_def add_memory_def in_scope_def)

lemma store_inv_run: "store_inv s \<Longrightarrow> store_inv (run_ops store_step ops s)"
  by (induction ops arbitrary: s) (simp_all add: store_step_def store_inv_add)

text \<open>Listing is scoped, bounded and complete, after any sequence of writes by any tenants:
  every listed row belongs to the caller's tenant and namespace and is the one a read of its id
  returns, none is listed twice, at most \<open>n\<close> are, and when fewer are no readable row is left
  out.\<close>

theorem list_memories_scoped:
  fixes ops ctx n
  defines "s \<equiv> run_ops store_step ops empty_store"
  defines "rows \<equiv> list_memories ctx n s"
  shows "(\<forall>m \<in> set rows. in_scope ctx m \<and> get_memory ctx (mo_id m) s = Some m) \<and>
    distinct (map mo_id rows) \<and> length rows \<le> n \<and>
    (n \<le> length rows \<or> (\<forall>i. get_memory ctx i s = None \<or> the (get_memory ctx i s) \<in> set rows))"
proof -
  have inv: "store_inv s" unfolding s_def by (intro store_inv_run store_inv_empty)
  note simps = inmem_def storage_backend.simps
  have complete: "m \<in> set rows" if "length rows < n" "get_memory ctx i s = Some m" for i m
    using inmem.list_complete [OF inv, of ctx i m n] that by (simp add: simps rows_def)
  have "\<forall>m \<in> set rows. in_scope ctx m \<and> get_memory ctx (mo_id m) s = Some m"
    using inmem.list_scoped [OF inv, of _ ctx n] inmem.list_get [OF inv, of _ ctx n]
    by (simp add: simps rows_def)
  moreover have "distinct (map mo_id rows)" "length rows \<le> n"
    using inmem.list_distinct [OF inv, of ctx n] inmem.list_limit [of ctx n s]
    by (simp_all add: simps rows_def)
  moreover have "n \<le> length rows \<or> (\<forall>i. get_memory ctx i s = None \<or> the (get_memory ctx i s) \<in> set rows)"
  proof (cases "length rows < n")
    case True
    have "get_memory ctx i s = None \<or> the (get_memory ctx i s) \<in> set rows" for i
      using complete [OF True, of i] by (cases "get_memory ctx i s") simp_all
    then show ?thesis by simp
  qed simp
  ultimately show ?thesis by blast
qed

lemma list_memories_scoped_witness:
  "length (list_memories \<lparr>ctx_tenant_id = ''acme'', ctx_principal = \<lparr>pc_id = ''u'',
     pc_tenant_id = ''acme'', pc_roles = [], pc_attributes = []\<rparr>, ctx_namespace = ''n'',
     ctx_request_id = ''r''\<rparr> 3 (run_ops store_step [] empty_store)) \<le> 3"
  using list_memories_scoped by blast

text \<open>C10: Tenants do not interfere. What a tenant reads or lists after any interleaving of the
  writes of all tenants is what it would read had it been alone.\<close>

theorem store_noninterference:
  "get_memory ctx i (run_ops store_step ops s) =
     get_memory ctx i (run_ops store_step (purge store_owner (ctx_tenant_id ctx) ops) s) \<and>
   list_memories ctx n (run_ops store_step ops s) =
     list_memories ctx n (run_ops store_step (purge store_owner (ctx_tenant_id ctx) ops) s)"
  using store_iso.noninterference [where t = "ctx_tenant_id ctx" and ops = ops and s = s]
  by (auto intro: get_memory_part list_memories_part)

end
