(* ===== verification/Embedding.thy ===== *)
theory Embedding
  imports Models
begin

text \<open>
  \<^verbatim>\<open>embedding/base.py\<close> and \<^verbatim>\<open>embedding/hashing.py\<close>. The protocol
  \<^verbatim>\<open>EmbeddingProvider\<close> is the record \<open>embedder\<close>, whose calls may raise; the locale
  \<open>embedding_provider\<close> is its contract (vectors of the advertised dimension, one per text, the same
  in a batch as alone). The feature-hashing provider is modelled whole; its digest
  \<^verbatim>\<open>hashlib.blake2b(tok, digest_size=8)\<close>, read as a 64-bit big-endian integer, is the
  parameter \<open>blake\<close>. It interprets the contract for every digest and every positive dimension.
\<close>

record embedder =
  em_dim :: nat
  em_embed :: "string \<Rightarrow> flt list result"
  em_embed_many :: "string list \<Rightarrow> flt list list result"

locale embedding_provider =
  fixes E :: embedder
  assumes embed_total: "\<exists>v. em_embed E text = Inr v"
    and embed_dim: "em_embed E text = Inr v \<Longrightarrow> length v = em_dim E"
    and embed_many_map: "em_embed_many E texts = map_result (em_embed E) texts"
begin

definition emb :: "string \<Rightarrow> flt list" where
  "emb text = (case em_embed E text of Inr v \<Rightarrow> v | Inl _ \<Rightarrow> [])"

lemma embed_emb: "em_embed E text = Inr (emb text)"
  using embed_total [of "text"] by (auto simp: emb_def)

lemma embed_many_emb: "em_embed_many E texts = Inr (map emb texts)"
  by (simp add: embed_many_map map_result_Inr embed_emb)

lemma length_emb [simp]: "length (emb text) = em_dim E"
  using embed_dim embed_emb by blast

end

section \<open>Tokens\<close>

definition is_word :: "char \<Rightarrow> bool" where
  "is_word c = (is_lower c \<or> is_digit c)"

text \<open>\<^verbatim>\<open>re.compile(r"[a-z0-9]+").findall(text.lower())\<close>.\<close>

definition tokenize :: "string \<Rightarrow> string list" where
  "tokenize text = runs is_word (lower text)"

section \<open>Feature hashing\<close>

text \<open>One token: \<^verbatim>\<open>idx = h % dim\<close>, the sign from the top bit, \<^verbatim>\<open>vec[idx] += sign\<close>.\<close>

definition hash_token :: "(string \<Rightarrow> 64 word) \<Rightarrow> nat \<Rightarrow> flt list \<Rightarrow> string \<Rightarrow> flt list" where
  "hash_token blake d vec tok =
     (let h = blake tok;
          idx = unat h mod d;
          sign = (if bit h 63 then 1 else -1)
      in vec[idx := fadd (vec ! idx) sign])"

definition l2_norm :: "flt list \<Rightarrow> flt" where
  "l2_norm vec = fsqrt (fsum (map (\<lambda>v. fmul v v) vec))"

definition hash_text :: "(string \<Rightarrow> 64 word) \<Rightarrow> nat \<Rightarrow> string \<Rightarrow> flt list result" where
  "hash_text blake d text =
     (if d = 0 \<and> tokenize text \<noteq> [] then Inl ZeroDivisionError
      else let vec = foldl (hash_token blake d) (replicate d 0) (tokenize text);
               norm = l2_norm vec
           in Inr (if norm = 0 then vec else map (\<lambda>v. fdiv v norm) vec))"

definition hashing_provider :: "(string \<Rightarrow> 64 word) \<Rightarrow> nat \<Rightarrow> embedder" where
  "hashing_provider blake d = \<lparr>em_dim = d, em_embed = hash_text blake d,
     em_embed_many = map_result (hash_text blake d)\<rparr>"

definition DEFAULT_DIM :: nat where
  "DEFAULT_DIM = 384"

lemma length_hash_tokens: "length (foldl (hash_token blake d) vec toks) = length vec"
  by (induction toks arbitrary: vec) (simp_all add: hash_token_def Let_def)

lemma length_hash_text: "hash_text blake d text = Inr v \<Longrightarrow> length v = d"
  by (auto simp: hash_text_def Let_def length_hash_tokens split: if_splits)

interpretation hashing: embedding_provider "hashing_provider blake DEFAULT_DIM" for blake
  by unfold_locales
    (auto simp: hashing_provider_def hash_text_def DEFAULT_DIM_def Let_def length_hash_tokens split: if_splits)

section \<open>Properties\<close>

text \<open>Bucket \<open>i\<close> of the accumulated vector is the integer sum of its tokens' signs: below \<open>2 ^ 53\<close>
  tokens every partial sum is exact.\<close>

definition bucket_sum :: "(string \<Rightarrow> 64 word) \<Rightarrow> nat \<Rightarrow> nat \<Rightarrow> string list \<Rightarrow> int" where
  "bucket_sum blake d i toks =
     sum_list (map (\<lambda>t. if unat (blake t) mod d = i then (if bit (blake t) 63 then 1 else -1) else 0) toks)"

lemma bucket_sum_bound: "\<bar>bucket_sum blake d i toks\<bar> \<le> int (length toks)"
  by (induction toks) (auto simp: bucket_sum_def)

lemma hash_token_nth:
  "length v = d \<Longrightarrow> i < d \<Longrightarrow> hash_token blake d v t ! i =
     (if unat (blake t) mod d = i then fadd (v ! i) (if bit (blake t) 63 then 1 else -1) else v ! i)"
  by (auto simp: hash_token_def Let_def)

lemma hash_tokens_exact:
  assumes "length toks \<le> 2 ^ 53" and "i < d"
  shows "foldl (hash_token blake d) (replicate d 0) toks ! i = of_int (bucket_sum blake d i toks)"
  using assms(1)
proof (induction toks rule: rev_induct)
  case Nil
  then show ?case using assms(2) by (simp add: bucket_sum_def)
next
  case (snoc t toks)
  let ?v = "foldl (hash_token blake d) (replicate d 0) toks"
  have v: "?v ! i = of_int (bucket_sum blake d i toks)" using snoc by simp
  have len: "length ?v = d" by (simp add: length_hash_tokens)
  have "\<bar>bucket_sum blake d i (toks @ [t])\<bar> \<le> 2 ^ 53"
    using bucket_sum_bound [of blake d i "toks @ [t]"] snoc.prems by simp
  then have "fadd (of_int (bucket_sum blake d i toks)) (if bit (blake t) 63 then 1 else -1)
      = of_int (bucket_sum blake d i (toks @ [t]))" if "unat (blake t) mod d = i"
    using that rnd64_of_int [of "bucket_sum blake d i (toks @ [t])"] by (auto simp: fadd_def bucket_sum_def split: if_splits)
  moreover have "bucket_sum blake d i (toks @ [t]) = bucket_sum blake d i toks" if "unat (blake t) mod d \<noteq> i"
    using that by (simp add: bucket_sum_def)
  ultimately show ?case unfolding foldl_append foldl.simps
    by (simp only: hash_token_nth [OF len assms(2)] v split: if_split) auto
qed

lemma bucket_sum_mset: "mset xs = mset ys \<Longrightarrow> bucket_sum blake d i xs = bucket_sum blake d i ys"
  by (simp only: bucket_sum_def sum_mset_sum_list [symmetric] mset_map)

lemma hash_tokens_mset:
  assumes "mset xs = mset ys" and "length xs \<le> 2 ^ 53"
  shows "foldl (hash_token blake d) (replicate d 0) xs = foldl (hash_token blake d) (replicate d 0) ys"
proof -
  let ?v = "\<lambda>ts. foldl (hash_token blake d) (replicate d 0) ts"
  have len: "length ys \<le> 2 ^ 53" using assms(2) by (simp only: mset_eq_length [OF assms(1)])
  have "?v xs ! i = ?v ys ! i" if "i < d" for i
    by (simp only: hash_tokens_exact [OF assms(2) that] hash_tokens_exact [OF len that]
        bucket_sum_mset [OF assms(1)])
  moreover have "length (?v xs) = d" "length (?v ys) = d" by (simp_all only: length_hash_tokens length_replicate)
  ultimately show ?thesis by (intro nth_equalityI) (simp_all only:)
qed

text \<open>The offline embedding never fails, has the advertised dimension, and depends on nothing
  but the bag of words: texts with the same words, in whatever order, case and punctuation, have
  bit-identical vectors, as the floating-point accumulation is exact.\<close>

theorem embedding_bag_of_words:
  assumes "mset (tokenize a) = mset (tokenize b)" and "length (tokenize a) \<le> 2 ^ 53"
  shows "\<exists>v. hash_text blake DEFAULT_DIM a = Inr v \<and> length v = DEFAULT_DIM \<and>
    hash_text blake DEFAULT_DIM b = Inr v"
proof -
  have "hash_text blake DEFAULT_DIM a = hash_text blake DEFAULT_DIM b"
    using hash_tokens_mset [OF assms] assms(1) by (auto simp: hash_text_def DEFAULT_DIM_def)
  moreover obtain v where "hash_text blake DEFAULT_DIM a = Inr v"
    using hashing.embed_total [of blake a] by (auto simp: hashing_provider_def)
  ultimately show ?thesis using length_hash_text by fastforce
qed

lemma embedding_bag_of_words_witness:
  "\<exists>v. hash_text (\<lambda>t. of_nat (length t)) DEFAULT_DIM ''Rome, tea!'' = Inr v \<and>
    hash_text (\<lambda>t. of_nat (length t)) DEFAULT_DIM ''tea rome'' = Inr v"
proof -
  have "mset (tokenize ''Rome, tea!'') = mset (tokenize ''tea rome'')" by code_simp
  moreover have "length (tokenize ''Rome, tea!'') = 2" by code_simp
  ultimately show ?thesis using embedding_bag_of_words [of "''Rome, tea!''" "''tea rome''"] by auto
qed

end
