(* ===== verification/Scoring.thy ===== *)
theory Scoring
  imports Embedding
begin

text \<open>
  \<^verbatim>\<open>memory/scoring.py\<close>: cosine similarity, recency decay, reciprocal-rank fusion, min-max
  normalisation and BM25, all in rounded float arithmetic. The C library's \<^verbatim>\<open>pow\<close> and
  \<^verbatim>\<open>log\<close>, whose last bits are platform-defined, are the record \<open>libm\<close> of parameters:
  \<open>pow_half y\<close> is \<^verbatim>\<open>0.5 ** y\<close>. BM25 iterates a Python \<^verbatim>\<open>set\<close> of query terms, whose
  order is not determined by the language: the enumeration is the argument \<open>q_unique\<close>.
\<close>

record libm =
  pow_half :: "flt \<Rightarrow> flt"
  log_nat :: "flt \<Rightarrow> flt"

section \<open>Cosine\<close>

definition dot :: "flt list \<Rightarrow> flt list \<Rightarrow> flt" where
  "dot a b = fsum (map2 fmul a b)"

definition cosine :: "flt list \<Rightarrow> flt list \<Rightarrow> flt result" where
  "cosine a b =
     (if length a \<noteq> length b then Inl (ValueError ''zip'')
      else let na = fsqrt (fsum (map (\<lambda>x. fmul x x) a));
               nb = fsqrt (fsum (map (\<lambda>y. fmul y y) b))
           in if na = 0 \<or> nb = 0 then Inr 0 else Inr (fdiv (dot a b) (fmul na nb)))"

lemma cosine_total: "length a = length b \<Longrightarrow> \<exists>c. cosine a b = Inr c"
  by (simp add: cosine_def Let_def)

lemma cosine_Inr_length: "cosine a b = Inr c \<Longrightarrow> length a = length b"
  by (simp add: cosine_def split: if_splits)

lemma dot_commute: "dot a b = dot b a"
proof -
  have "map2 fmul a b = map2 fmul b a"
    by (induction a b rule: list_induct2') (simp_all add: fmul_commute)
  then show ?thesis by (simp add: dot_def)
qed

lemma cosine_commute: "length a = length b \<Longrightarrow> cosine a b = cosine b a"
  by (auto simp: cosine_def Let_def dot_commute [of a b] fmul_commute)

section \<open>Recency\<close>

fun half_life_seconds :: "memory_tier \<Rightarrow> flt" where
  "half_life_seconds WORKING = 30 * 60"
| "half_life_seconds SHORT_TERM = 12 * 3600"
| "half_life_seconds LONG_TERM = 30 * 86400"
| "half_life_seconds EPISODIC = 7 * 86400"
| "half_life_seconds SEMANTIC = 90 * 86400"

definition recency_factor :: "libm \<Rightarrow> flt \<Rightarrow> flt \<Rightarrow> flt" where
  "recency_factor L age half_life =
     (if half_life \<le> 0 then 1 else pow_half L (fdiv (max 0 age) half_life))"

lemma half_life_pos: "0 < half_life_seconds t"
  by (cases t) simp_all

lemma recency_factor_antimono:
  assumes "antimono (pow_half L)" and "a \<le> a'"
  shows "recency_factor L a' h \<le> recency_factor L a h"
  using assms by (auto simp: recency_factor_def intro!: antimonoD [OF assms(1)] fdiv_mono)

section \<open>Reciprocal-rank fusion\<close>

definition RRF_K :: int where
  "RRF_K = 60"

definition rrf_contrib :: "int \<Rightarrow> nat \<Rightarrow> flt" where
  "rrf_contrib k rank = fdiv 1 (flt_of_int (k + int rank))"

definition rrf_add :: "int \<Rightarrow> (string, flt) dict \<Rightarrow> nat \<times> string \<Rightarrow> (string, flt) dict" where
  "rrf_add k scores rm =
     (case rm of (rank, mid) \<Rightarrow>
        dset mid (fadd (case dget scores mid of None \<Rightarrow> 0 | Some v \<Rightarrow> v) (rrf_contrib k rank)) scores)"

definition rrf_fuse :: "string list \<Rightarrow> string list \<Rightarrow> int \<Rightarrow> (string, flt) dict" where
  "rrf_fuse dense_order sparse_order k =
     foldl (\<lambda>scores order. foldl (rrf_add k) scores (enumerate 1 order)) [] [dense_order, sparse_order]"

text \<open>\<^verbatim>\<open>{mid: r for r, mid in enumerate(order, start=1)}\<close>.\<close>

definition rank_map :: "string list \<Rightarrow> (string, nat) dict" where
  "rank_map order = foldl (\<lambda>d (r, mid). dset mid r d) [] (enumerate 1 order)"

lemma rank_map_from:
  "distinct order \<Longrightarrow>
   dget (foldl (\<lambda>d (r, mid). dset mid r d) d (enumerate n order)) mid =
     (if mid \<in> set order then Some (n + (LEAST i. i < length order \<and> order ! i = mid)) else dget d mid)"
proof (induction order arbitrary: d n)
  case (Cons x xs)
  show ?case
  proof (cases "mid = x")
    case True
    have "(LEAST i. i < length (x # xs) \<and> (x # xs) ! i = mid) = 0"
      by (rule Least_equality) (simp_all add: True)
    then show ?thesis using Cons True by simp
  next
    case False
    have "(LEAST i. i < length (x # xs) \<and> (x # xs) ! i = mid)
        = Suc (LEAST i. i < length xs \<and> xs ! i = mid)" if "mid \<in> set xs"
    proof -
      from that obtain j where "j < length xs" "xs ! j = mid" by (meson in_set_conv_nth)
      then have "(x # xs) ! Suc j = mid \<and> Suc j < length (x # xs)" by simp
      then have "(LEAST i. i < length (x # xs) \<and> (x # xs) ! i = mid)
        = Suc (LEAST i. Suc i < length (x # xs) \<and> (x # xs) ! Suc i = mid)"
        by (intro Least_Suc [of _ "Suc j"]) (use False in auto)
      then show ?thesis by simp
    qed
    then show ?thesis using Cons False by auto
  qed
qed simp

definition rank_in :: "string list \<Rightarrow> string \<Rightarrow> nat option" where
  "rank_in order mid =
     (if mid \<in> set order then Some (Suc (LEAST i. i < length order \<and> order ! i = mid)) else None)"

lemma rank_map_eq: "distinct order \<Longrightarrow> dget (rank_map order) mid = rank_in order mid"
  by (simp add: rank_map_def rank_map_from rank_in_def)

lemma rank_in_Some:
  assumes "distinct order" and "i < length order"
  shows "rank_in order (order ! i) = Some (Suc i)"
proof -
  have "(LEAST j. j < length order \<and> order ! j = order ! i) = i"
    by (rule Least_equality) (use assms in \<open>auto simp: nth_eq_iff_index_eq\<close>)
  then show ?thesis using assms by (simp add: rank_in_def)
qed

lemma rank_in_None [simp]: "rank_in order mid = None \<longleftrightarrow> mid \<notin> set order"
  by (simp add: rank_in_def)

text \<open>One list, one contribution per member: the members' scores grow by their contribution.\<close>

lemma rrf_list:
  "distinct order \<Longrightarrow>
   dget (foldl (rrf_add k) scores (enumerate n order)) mid =
     (case rank_in order mid of None \<Rightarrow> dget scores mid
      | Some r \<Rightarrow> Some (fadd (case dget scores mid of None \<Rightarrow> 0 | Some v \<Rightarrow> v) (rrf_contrib k (n + r - 1))))"
proof (induction order rule: rev_induct)
  case (snoc x xs)
  let ?s = "foldl (rrf_add k) scores (enumerate n xs)"
  have step: "foldl (rrf_add k) scores (enumerate n (xs @ [x])) = rrf_add k ?s (n + length xs, x)"
    by (simp add: enumerate_append_eq)
  have rx: "rank_in (xs @ [x]) x = Some (Suc (length xs))"
    using rank_in_Some [of "xs @ [x]" "length xs"] snoc.prems by simp
  have ro: "rank_in (xs @ [x]) mid = rank_in xs mid" if "mid \<noteq> x"
  proof (cases "mid \<in> set xs")
    case True
    then obtain i where i: "i < length xs" "xs ! i = mid" by (meson in_set_conv_nth)
    then show ?thesis
      using rank_in_Some [of "xs @ [x]" i] rank_in_Some [of xs i] snoc.prems by (simp add: nth_append)
  qed (use that in \<open>simp add: rank_in_def\<close>)
  have IH: "dget ?s mid = (case rank_in xs mid of None \<Rightarrow> dget scores mid
      | Some r \<Rightarrow> Some (fadd (case dget scores mid of None \<Rightarrow> 0 | Some v \<Rightarrow> v) (rrf_contrib k (n + r - 1))))"
    using snoc by simp
  show ?case
  proof (cases "mid = x")
    case True
    then have "rank_in xs mid = None" using snoc.prems by simp
    then have "dget ?s x = dget scores x" using IH True by (simp del: rank_in_None)
    then show ?thesis using True unfolding step by (simp add: rrf_add_def rx)
  next
    case False
    then show ?thesis using IH unfolding step by (simp add: rrf_add_def ro)
  qed
qed (simp add: rank_in_def)

lemma fadd_0_contrib [simp]: "fadd 0 (rrf_contrib k r) = rrf_contrib k r"
  by (simp add: fadd_def rrf_contrib_def fdiv_def)

text \<open>The fused score, in closed form.\<close>

lemma rrf_fuse_eq:
  assumes "distinct ds" and "distinct ss"
  shows "dget (rrf_fuse ds ss k) mid =
    (case (rank_in ds mid, rank_in ss mid) of
       (None, None) \<Rightarrow> None
     | (Some r, None) \<Rightarrow> Some (rrf_contrib k r)
     | (None, Some r) \<Rightarrow> Some (rrf_contrib k r)
     | (Some r, Some r') \<Rightarrow> Some (fadd (rrf_contrib k r) (rrf_contrib k r')))"
  using assms by (cases "rank_in ds mid"; cases "rank_in ss mid")
    (simp_all add: rrf_fuse_def rrf_list del: rank_in_None)

lemma rrf_contrib_antimono:
  assumes "0 < k" and "r \<le> r'"
  shows "rrf_contrib k r' \<le> rrf_contrib k r"
proof -
  have pos: "0 < flt_of_int (k + int r)" using assms by (simp add: flt_of_int_def rnd64_pos)
  have "flt_of_int (k + int r) \<le> flt_of_int (k + int r')" using assms by (intro flt_of_int_mono) simp
  then have "1 / flt_of_int (k + int r') \<le> 1 / flt_of_int (k + int r)"
    using pos by (simp add: frac_le)
  then show ?thesis by (simp add: rrf_contrib_def fdiv_def rnd64_mono)
qed

lemma rrf_contrib_pos: "0 < k \<Longrightarrow> 0 < rrf_contrib k r"
  by (simp add: rrf_contrib_def fdiv_def flt_of_int_def rnd64_pos)

section \<open>Min-max normalisation\<close>

definition minmax_normalize :: "(string, flt) dict \<Rightarrow> (string, flt) dict" where
  "minmax_normalize values =
     (if values = [] then []
      else let lo = Min (set (dvalues values)); hi = Max (set (dvalues values))
           in if hi = lo then map (\<lambda>(key, v). (key, 1)) values
              else let span = fsub hi lo
                   in map (\<lambda>(key, v). (key, fdiv (fsub v lo) span)) values)"

lemma dkeys_minmax [simp]: "dkeys (minmax_normalize d) = dkeys d"
  by (simp add: minmax_normalize_def Let_def split_def comp_def)

lemma minmax_cases:
  assumes "d \<noteq> []"
  obtains (flat) "minmax_normalize d = map (\<lambda>(k, v). (k, 1)) d"
  | (spread) lo hi where "lo < hi" "\<forall>v \<in> set (dvalues d). lo \<le> v \<and> v \<le> hi"
      "minmax_normalize d = map (\<lambda>(k, v). (k, fdiv (fsub v lo) (fsub hi lo))) d"
proof -
  let ?V = "set (dvalues d)"
  have ne: "?V \<noteq> {}" "finite ?V" using assms by simp_all
  have b: "\<forall>v \<in> ?V. Min ?V \<le> v \<and> v \<le> Max ?V" using ne by simp
  show thesis
  proof (cases "Max ?V = Min ?V")
    case True
    then show thesis using flat assms by (simp add: minmax_normalize_def Let_def)
  next
    case False
    moreover have "Min ?V \<le> Max ?V" using ne by simp
    ultimately have "Min ?V < Max ?V" by simp
    then show thesis using spread [of "Min ?V" "Max ?V"] b False assms
      by (simp add: minmax_normalize_def Let_def)
  qed
qed

lemma minmax_range:
  assumes "v \<in> set (dvalues (minmax_normalize d))"
  shows "0 \<le> v \<and> v \<le> 1"
proof (cases "d = []")
  case False
  then show ?thesis
  proof (cases rule: minmax_cases)
    case flat
    then show ?thesis using assms by auto
  next
    case (spread lo hi)
    then obtain w where w: "lo \<le> w" "w \<le> hi" "v = fdiv (fsub w lo) (fsub hi lo)"
      using assms by fastforce
    have "0 < fsub hi lo" using spread by (simp add: fsub_pos)
    moreover have "fsub w lo \<le> fsub hi lo" using w by (intro fsub_mono) simp_all
    ultimately show ?thesis using w by (simp add: fdiv_nonneg fdiv_le_1 fsub_nonneg)
  qed
qed (use assms in \<open>simp add: minmax_normalize_def\<close>)

section \<open>BM25\<close>

definition doc_freq :: "string list list \<Rightarrow> string \<Rightarrow> nat" where
  "doc_freq docs_tokens term = length (filter (\<lambda>d. term \<in> set d) docs_tokens)"

definition bm25_idf :: "libm \<Rightarrow> nat \<Rightarrow> nat \<Rightarrow> flt" where
  "bm25_idf L n df = log_nat L (fadd 1 (fdiv (fadd (flt_of_int (int n - int df)) (1 / 2))
     (fadd (flt_of_nat df) (1 / 2))))"

definition bm25_denom :: "flt \<Rightarrow> flt \<Rightarrow> nat \<Rightarrow> nat \<Rightarrow> flt \<Rightarrow> flt" where
  "bm25_denom k1 b f dl avgdl = fadd (flt_of_nat f) (fmul k1 (fadd (fsub 1 b)
     (fmul b (if avgdl \<noteq> 0 then fdiv (flt_of_nat dl) avgdl else 0))))"

definition bm25_doc ::
  "libm \<Rightarrow> string list \<Rightarrow> string list list \<Rightarrow> flt \<Rightarrow> flt \<Rightarrow> string list \<Rightarrow> flt" where
  "bm25_doc L q_unique docs_tokens k1 b d =
     (let n = length docs_tokens;
          avgdl = int_truediv (int (sum_list (map length docs_tokens))) (int n)
      in foldl (\<lambda>score term.
           let f = count_list d term
           in if f = 0 then score
              else fadd score (fdiv (fmul (bm25_idf L n (doc_freq docs_tokens term))
                     (fmul (flt_of_nat f) (fadd k1 1))) (bm25_denom k1 b f (length d) avgdl)))
         0 q_unique)"

definition bm25_scores ::
  "libm \<Rightarrow> string list \<Rightarrow> string list list \<Rightarrow> flt \<Rightarrow> flt \<Rightarrow> flt list" where
  "bm25_scores L q_unique docs_tokens k1 b =
     map (bm25_doc L q_unique docs_tokens k1 b) docs_tokens"

definition BM25_K1 :: flt where "BM25_K1 = 3 / 2"

definition BM25_B :: flt where "BM25_B = 3 / 4"

lemma length_bm25_scores [simp]: "length (bm25_scores L q docs k1 b) = length docs"
  by (simp add: bm25_scores_def)

text \<open>The inverse document frequency's argument exceeds 1, so its logarithm is positive.\<close>

lemma idf_argument_gt_1:
  assumes "df \<le> n" and "n < 2 ^ 50"
  shows "1 < fadd 1 (fdiv (fadd (flt_of_int (int n - int df)) (1 / 2)) (fadd (flt_of_nat df) (1 / 2)))"
proof -
  have num: "1 / 2 \<le> fadd (flt_of_int (int n - int df)) (1 / 2)"
  proof -
    have "0 \<le> flt_of_int (int n - int df)" using assms by (simp add: flt_of_int_def rnd64_nonneg)
    then have "rnd64 (1 / 2) \<le> fadd (flt_of_int (int n - int df)) (1 / 2)"
      by (simp add: fadd_def rnd64_mono)
    moreover have "rnd64 (1 / 2) = 1 / 2" using rnd64_exact [of 1 "- 1"] by (simp add: power_int_minus)
    ultimately show ?thesis by simp
  qed
  have "df \<le> 2 ^ 50" using assms by (meson le_trans less_imp_le)
  then have "int df \<le> 2 ^ 50" by simp
  then have dle: "flt_of_nat df \<le> 2 ^ 50" "0 \<le> flt_of_nat df"
    by (simp_all add: flt_of_int_exact)
  have "rnd64 (flt_of_nat df + 1 / 2) \<le> rnd64 (of_int (2 ^ 51))" using dle by (intro rnd64_mono) simp
  also have "\<dots> = 2 ^ 51" using rnd64_of_int [of "2 ^ 51"] by simp
  finally have den: "fadd (flt_of_nat df) (1 / 2) \<le> 2 ^ 51" by (simp add: fadd_def)
  have den_pos: "0 < fadd (flt_of_nat df) (1 / 2)" using dle by (simp add: fadd_def rnd64_pos)
  let ?N = "fadd (flt_of_int (int n - int df)) (1 / 2)" and ?D = "fadd (flt_of_nat df) (1 / 2)"
  have "(1 / 2) / 2 ^ 51 \<le> ?N / ?D" using num den den_pos by (intro frac_le) simp_all
  then have "rnd64 (1 * 2 powi (- 52)) \<le> fdiv ?N ?D" by (simp add: fdiv_def rnd64_mono power_int_minus)
  then have "1 / 2 ^ 52 \<le> fdiv ?N ?D" using rnd64_exact [of 1 "- 52"] by (simp add: power_int_minus inverse_eq_divide)
  then have "rnd64 (1 + 1 / 2 ^ 52) \<le> fadd 1 (fdiv ?N ?D)" by (simp add: fadd_def rnd64_mono)
  moreover have "rnd64 (1 + 1 / 2 ^ 52) = 1 + 1 / 2 ^ 52"
    using rnd64_exact [of "2 ^ 52 + 1" "- 52"] by (simp add: power_int_minus inverse_eq_divide)
  ultimately show ?thesis by simp
qed

lemma foldl_fadd_ge:
  "\<forall>t \<in> set ts. 0 \<le> g t \<Longrightarrow> rnd64 acc = acc \<Longrightarrow>
   acc \<le> foldl (\<lambda>s t. if c t then s else fadd s (g t)) acc ts"
proof (induction ts arbitrary: acc)
  case (Cons t ts)
  have "rnd64 acc \<le> fadd acc (g t)" using Cons.prems rnd64_mono [of acc "acc + g t"] by (simp add: fadd_def)
  moreover have "rnd64 (fadd acc (g t)) = fadd acc (g t)" by (simp add: fadd_def)
  ultimately show ?case using Cons.IH [of acc] Cons.IH [of "fadd acc (g t)"] Cons.prems by auto
qed simp

lemma foldl_fadd_pos:
  "\<forall>t \<in> set ts. 0 \<le> g t \<Longrightarrow> 0 \<le> acc \<Longrightarrow> rnd64 acc = acc \<Longrightarrow>
   \<exists>t \<in> set ts. \<not> c t \<and> 0 < g t \<Longrightarrow>
   0 < foldl (\<lambda>s t. if c t then s else fadd s (g t)) acc ts"
proof (induction ts arbitrary: acc)
  case (Cons t ts)
  have f: "0 \<le> fadd acc (g t)" "rnd64 (fadd acc (g t)) = fadd acc (g t)"
    using Cons.prems fadd_nonneg [of acc "g t"] by (simp_all add: fadd_def)
  show ?case
  proof (cases "\<not> c t \<and> 0 < g t")
    case True
    then have "0 < fadd acc (g t)" using Cons.prems by (simp add: fadd_def rnd64_pos)
    also have "\<dots> \<le> foldl (\<lambda>s t. if c t then s else fadd s (g t)) (fadd acc (g t)) ts"
      using Cons.prems f by (intro foldl_fadd_ge) auto
    finally show ?thesis using True by simp
  next
    case False
    then have "\<exists>t \<in> set ts. \<not> c t \<and> 0 < g t" using Cons.prems by auto
    then show ?thesis using Cons f by auto
  qed
qed simp

text \<open>A document's score is positive exactly when it contains a query term.\<close>

lemma bm25_denom_pos:
  assumes "0 < f"
  shows "0 < bm25_denom BM25_K1 BM25_B f dl avgdl \<or> avgdl < 0"
proof (cases "avgdl < 0")
  case False
  have "0 \<le> fdiv (flt_of_nat dl) avgdl" using False by (simp add: fdiv_nonneg flt_of_int_def rnd64_nonneg)
  then have "0 \<le> fmul BM25_K1 (fadd (fsub 1 BM25_B) (fmul BM25_B (if avgdl \<noteq> 0 then fdiv (flt_of_nat dl) avgdl else 0)))"
    by (auto simp: BM25_K1_def BM25_B_def intro!: fmul_nonneg fadd_nonneg fsub_nonneg)
  moreover have "0 < flt_of_nat f" using assms by (simp add: flt_of_int_def rnd64_pos)
  ultimately show ?thesis by (simp add: bm25_denom_def fadd_def rnd64_pos)
qed simp

lemma bm25_doc_nonneg_pos:
  assumes log: "\<And>x. 1 < x \<Longrightarrow> 0 < log_nat L x"
    and small: "length docs < 2 ^ 50" and d: "d \<in> set docs"
  shows "0 \<le> bm25_doc L q docs BM25_K1 BM25_B d" (is "0 \<le> ?s")
    and "0 < bm25_doc L q docs BM25_K1 BM25_B d \<longleftrightarrow> set q \<inter> set d \<noteq> {}"
proof -
  let ?avg = "int_truediv (int (sum_list (map length docs))) (int (length docs))"
  let ?g = "\<lambda>t. fdiv (fmul (bm25_idf L (length docs) (doc_freq docs t))
      (fmul (flt_of_nat (count_list d t)) (fadd BM25_K1 1)))
      (bm25_denom BM25_K1 BM25_B (count_list d t) (length d) ?avg)"
  have avg: "\<not> ?avg < 0" by (simp add: int_truediv_def rnd64_nonneg not_less)
  have idf: "0 < bm25_idf L (length docs) (doc_freq docs t)" for t
    unfolding bm25_idf_def using small by (intro log idf_argument_gt_1) (simp_all add: doc_freq_def)
  have k1: "0 < fadd BM25_K1 1" by (simp add: BM25_K1_def fadd_def rnd64_pos)
  have gpos: "0 < ?g t" if "count_list d t \<noteq> 0" for t
    using that idf [of t] k1 bm25_denom_pos [of "count_list d t" "length d" ?avg] avg
    by (simp add: fdiv_def fmul_def rnd64_pos flt_of_int_def)
  have gnn: "0 \<le> ?g t" for t
    using gpos [of t] by (cases "count_list d t = 0") (simp_all add: flt_of_int_def)
  have eq: "?s = foldl (\<lambda>s t. if count_list d t = 0 then s else fadd s (?g t)) 0 q"
    unfolding bm25_doc_def Let_def by (rule refl)
  show "0 \<le> ?s" unfolding eq by (rule foldl_fadd_ge) (use gnn in simp_all)
  show "0 < ?s \<longleftrightarrow> set q \<inter> set d \<noteq> {}"
  proof
    assume "0 < ?s"
    have "foldl (\<lambda>s t. if count_list d t = 0 then s else fadd s (?g t)) 0 q = 0" if "set q \<inter> set d = {}"
      using that by (induction q) (auto simp: count_list_0_iff)
    then show "set q \<inter> set d \<noteq> {}" using \<open>0 < ?s\<close> unfolding eq by fastforce
  next
    assume "set q \<inter> set d \<noteq> {}"
    then obtain t where "t \<in> set q" "count_list d t \<noteq> 0" by (auto simp: count_list_0_iff)
    then show "0 < ?s" unfolding eq
      by (intro foldl_fadd_pos) (use gnn gpos in \<open>auto\<close>)
  qed
qed

section \<open>Properties\<close>

text \<open>Reciprocal-rank fusion in closed form. An id's fused score is the sum of one contribution
  per list it is ranked in, and absent ids have none; the contribution is positive and falls with
  the rank, so being ranked higher in a list never hurts.\<close>

theorem rrf_fuse_closed:
  assumes "distinct ds" and "distinct ss"
  shows "dget (rrf_fuse ds ss RRF_K) mid =
      (case (rank_in ds mid, rank_in ss mid) of
         (None, None) \<Rightarrow> None
       | (Some r, None) \<Rightarrow> Some (rrf_contrib RRF_K r)
       | (None, Some r) \<Rightarrow> Some (rrf_contrib RRF_K r)
       | (Some r, Some r') \<Rightarrow> Some (fadd (rrf_contrib RRF_K r) (rrf_contrib RRF_K r'))) \<and>
    0 < rrf_contrib RRF_K r \<and> rrf_contrib RRF_K (Suc r) \<le> rrf_contrib RRF_K r"
proof -
  have "0 < RRF_K" by (simp add: RRF_K_def)
  then show ?thesis
    by (intro conjI rrf_fuse_eq [OF assms] rrf_contrib_pos rrf_contrib_antimono) simp_all
qed

lemma rrf_fuse_closed_witness:
  "dget (rrf_fuse [''a'', ''b''] [''b''] RRF_K) ''b'' = Some (fadd (rrf_contrib RRF_K 2) (rrf_contrib RRF_K 1))"
proof -
  have "rank_in [''a'', ''b''] ''b'' = Some 2" "rank_in [''b''] ''b'' = Some 1"
    using rank_in_Some [of "[''a'', ''b'']" 1] rank_in_Some [of "[''b'']" 0] by simp_all
  then show ?thesis using rrf_fuse_closed [of "[''a'', ''b'']" "[''b'']" "''b''"] by simp
qed

text \<open>Min-max normalisation keeps the keys and lands in the unit interval, in floating point
  too.\<close>

theorem minmax_unit_interval:
  "dkeys (minmax_normalize d) = dkeys d \<and> (\<forall>v \<in> set (dvalues (minmax_normalize d)). 0 \<le> v \<and> v \<le> 1)"
  using minmax_range by auto

lemma minmax_unit_interval_witness:
  "snd (last (minmax_normalize [(''a'', 3), (''b'', 7), (''c'', 4)])) \<le> 1"
proof -
  let ?d = "minmax_normalize [(''a'', 3), (''b'', 7), (''c'', 4)]"
  have "dkeys ?d = [''a'', ''b'', ''c'']" "\<forall>v \<in> set (dvalues ?d). v \<le> 1"
    using minmax_unit_interval [of "[(''a'', 3), (''b'', 7), (''c'', 4)]"] by simp_all
  then show ?thesis by (cases ?d rule: rev_cases) auto
qed

text \<open>A lexical match is a positive score and nothing else is: over any corpus, given a
  logarithm that is positive above one, a document's BM25 score is never negative, and positive
  exactly when it contains a term of the query. The engine's sparse list, which keeps the
  documents with a positive score, is the list of those that match.\<close>

theorem bm25_positive_iff_match:
  assumes "\<And>x. 1 < x \<Longrightarrow> 0 < log_nat L x" and "length docs < 2 ^ 50" and "i < length docs"
  shows "0 \<le> bm25_scores L q docs BM25_K1 BM25_B ! i \<and>
    (0 < bm25_scores L q docs BM25_K1 BM25_B ! i \<longleftrightarrow> set q \<inter> set (docs ! i) \<noteq> {})"
  using bm25_doc_nonneg_pos [OF assms(1,2) nth_mem [OF assms(3)]] assms(3)
  by (simp add: bm25_scores_def)

lemma bm25_positive_iff_match_witness:
  "0 < bm25_scores \<lparr>pow_half = (\<lambda>y. 1), log_nat = (\<lambda>x. x - 1)\<rparr> [''tea'']
     [[''likes'', ''tea''], [''rome'']] BM25_K1 BM25_B ! 0"
  using bm25_positive_iff_match [of "\<lparr>pow_half = (\<lambda>y. 1), log_nat = (\<lambda>x. x - 1)\<rparr>"
      "[[''likes'', ''tea''], [''rome'']]" 0 "[''tea'']"]
  by simp

end
