(* ===== verification/Memory.thy ===== *)
theory Memory
  imports Store Scoring
begin

text \<open>
  \<^verbatim>\<open>memory/engine.py\<close>: writing a memory and hybrid retrieval. \<open>retrieve\<close> scans the store
  through its protocol, ranks the rows by cosine and by BM25, fuses the two rankings, builds one
  candidate per fused row and thins the candidates by maximal marginal relevance (\<open>mmr_loop\<close>,
  whose inner scan is \<open>mmr_scan\<close>). Exceptions of the embedding provider, of \<^verbatim>\<open>zip(strict=True)\<close>
  and of missing dictionary keys are kept as results. The locale \<open>memory_service\<close> joins the
  contracts of the store and of the embedder; in it \<open>retrieve\<close> is shown never to raise and its
  result to be scoped, bounded, free of repetitions and of near duplicates.
\<close>

definition N_DENSE :: nat where "N_DENSE = 200"

definition N_SPARSE :: nat where "N_SPARSE = 200"

definition MAX_CANDIDATES :: nat where "MAX_CANDIDATES = 512"

definition SCAN_LIMIT :: nat where "SCAN_LIMIT = 4096"

definition MMR_LAMBDA :: flt where "MMR_LAMBDA = lit (70 / 100)"

definition COS_DUP :: flt where "COS_DUP = lit (95 / 100)"

definition W_RRF :: flt where "W_RRF = lit (60 / 100)"

definition W_RECENCY :: flt where "W_RECENCY = lit (25 / 100)"

definition W_IMPORTANCE :: flt where "W_IMPORTANCE = lit (15 / 100)"

section \<open>Writing\<close>

text \<open>The fresh id and the three clock readings (ingestion, creation, last access) are arguments.\<close>

definition new_memory ::
  "security_context \<Rightarrow> string \<Rightarrow> memory_tier \<Rightarrow> flt \<Rightarrow> string \<Rightarrow> string option \<Rightarrow>
   (string, string) dict option \<Rightarrow> string \<Rightarrow> int \<times> int \<times> int \<Rightarrow> memory_object" where
  "new_memory ctx content tier importance source source_id metadata ulid clk =
     (case clk of (t_ingested, t_created, t_accessed) \<Rightarrow>
       \<lparr>mo_id = ulid, mo_tenant_id = ctx_tenant_id ctx, mo_namespace = ctx_namespace ctx,
        mo_tier = tier, mo_content = content, mo_embedding_ref = None, mo_importance = importance,
        mo_created_at = t_created, mo_last_accessed_at = t_accessed,
        mo_provenance = \<lparr>pv_source = source, pv_source_id = source_id, pv_ingested_at = t_ingested\<rparr>,
        mo_metadata = (case metadata of None \<Rightarrow> [] | Some d \<Rightarrow> d)\<rparr>)"

definition mem_write ::
  "'s storage_backend \<Rightarrow> security_context \<Rightarrow> string \<Rightarrow> memory_tier \<Rightarrow> flt \<Rightarrow> string \<Rightarrow>
   string option \<Rightarrow> (string, string) dict option \<Rightarrow> string \<Rightarrow> int \<times> int \<times> int \<Rightarrow> 's \<Rightarrow>
   memory_object result \<times> 's" where
  "mem_write B ctx content tier importance source source_id metadata ulid clk s =
     (case validate_memory (new_memory ctx content tier importance source source_id metadata ulid clk) of
        Inl e \<Rightarrow> (Inl e, s)
      | Inr m \<Rightarrow> sb_add_memory B ctx m s)"

definition mem_put ::
  "'s storage_backend \<Rightarrow> security_context \<Rightarrow> memory_object \<Rightarrow> 's \<Rightarrow> memory_object result \<times> 's" where
  "mem_put B ctx memory s = sb_add_memory B ctx memory s"

definition all_memories ::
  "'s storage_backend \<Rightarrow> security_context \<Rightarrow> nat \<Rightarrow> 's \<Rightarrow> memory_object list" where
  "all_memories B ctx limit s = sb_list_memories B ctx limit s"

lemma new_memory_in_scope [simp]: "in_scope ctx (new_memory ctx c t i src sid md ulid clk)"
  by (simp add: in_scope_def new_memory_def split: prod.splits)

lemma new_memory_fields [simp]:
  "mo_id (new_memory ctx c t i src sid md ulid clk) = ulid"
  "mo_importance (new_memory ctx c t i src sid md ulid clk) = i"
  "mo_content (new_memory ctx c t i src sid md ulid clk) = c"
  by (simp_all add: new_memory_def split: prod.splits)

section \<open>Maximal marginal relevance\<close>

definition selection_score :: "(string, flt) dict \<Rightarrow> memory_candidate \<Rightarrow> flt" where
  "selection_score rrf_norm c =
     fadd (fadd (fmul W_RRF (case dget rrf_norm (mc_memory_id c) of None \<Rightarrow> 0 | Some v \<Rightarrow> v))
                (fmul W_RECENCY (mc_recency_factor c)))
          (fmul W_IMPORTANCE (mc_importance c))"

definition cand_sim ::
  "(string, flt list) dict \<Rightarrow> memory_candidate \<Rightarrow> memory_candidate \<Rightarrow> flt result" where
  "cand_sim vecs c s =
     bnd (dlookup vecs (mc_memory_id c)) (\<lambda>vc.
     bnd (dlookup vecs (mc_memory_id s)) (\<lambda>vs. cosine vc vs))"

text \<open>\<^verbatim>\<open>max((...), default=0.0)\<close>.\<close>

definition max_sim ::
  "(string, flt list) dict \<Rightarrow> memory_candidate list \<Rightarrow> memory_candidate \<Rightarrow> flt result" where
  "max_sim vecs selected c =
     bnd (map_result (cand_sim vecs c) selected) (\<lambda>sims. Inr (if sims = [] then 0 else Max (set sims)))"

type_synonym best = "(flt \<times> memory_candidate \<times> nat) option"

definition best_val :: "best \<Rightarrow> flt" where
  "best_val b = (case b of None \<Rightarrow> - (10 ^ 18) | Some (v, c, p) \<Rightarrow> v)"

text \<open>The inner loop \<^verbatim>\<open>for pos, c in enumerate(pool)\<close>.\<close>

fun mmr_scan ::
  "(memory_candidate \<Rightarrow> flt result) \<Rightarrow> (memory_candidate \<Rightarrow> flt) \<Rightarrow> nat \<Rightarrow> best \<Rightarrow>
   memory_candidate list \<Rightarrow> best result" where
  "mmr_scan msim score pos best [] = Inr best"
| "mmr_scan msim score pos best (c # cs) =
     bnd (msim c) (\<lambda>ms.
       mmr_scan msim score (Suc pos)
         (if COS_DUP \<le> ms then best
          else let val = fsub (fmul MMR_LAMBDA (score c)) (fmul (fsub 1 MMR_LAMBDA) ms)
               in if best_val best < val then Some (val, c, pos) else best) cs)"

lemma mmr_scan_found:
  "mmr_scan msim score pos best cs = Inr (Some (v, c, p)) \<Longrightarrow>
   best = Some (v, c, p) \<or>
   (pos \<le> p \<and> p < pos + length cs \<and> c = cs ! (p - pos) \<and> (\<exists>ms. msim c = Inr ms \<and> ms < COS_DUP))"
proof (induction msim score pos best cs rule: mmr_scan.induct)
  case (2 msim score pos best d ds)
  then obtain ms where ms: "msim d = Inr ms" by auto
  let ?b = "if COS_DUP \<le> ms then best
    else let val = fsub (fmul MMR_LAMBDA (score d)) (fmul (fsub 1 MMR_LAMBDA) ms)
         in if best_val best < val then Some (val, d, pos) else best"
  have "mmr_scan msim score (Suc pos) ?b ds = Inr (Some (v, c, p))" using 2(2) ms by simp
  then consider "?b = Some (v, c, p)"
    | "Suc pos \<le> p" "p < Suc pos + length ds" "c = ds ! (p - Suc pos)" "\<exists>ms. msim c = Inr ms \<and> ms < COS_DUP"
    using "2.IH" [of ms] ms by auto
  then show ?case
  proof cases
    case 1
    then show ?thesis using ms by (auto simp: Let_def split: if_splits)
  next
    case 2
    moreover from 2 have "p - pos = Suc (p - Suc pos)" by simp
    then have "(d # ds) ! (p - pos) = ds ! (p - Suc pos)" by simp
    ultimately show ?thesis by auto
  qed
qed simp

lemma bnd_cong [fundef_cong]:
  "m = m' \<Longrightarrow> (\<And>x. m' = Inr x \<Longrightarrow> f x = f' x) \<Longrightarrow> bnd m f = bnd m' f'"
  by (cases m') auto

text \<open>The outer loop \<^verbatim>\<open>while pool and len(selected) < MAX_CANDIDATES\<close>.\<close>

function mmr_loop ::
  "(string, flt list) dict \<Rightarrow> (memory_candidate \<Rightarrow> flt) \<Rightarrow> memory_candidate list \<Rightarrow>
   memory_candidate list \<Rightarrow> memory_candidate list result" where
  "mmr_loop vecs score pool selected =
     (if pool = [] \<or> MAX_CANDIDATES \<le> length selected then Inr selected
      else bnd (mmr_scan (max_sim vecs selected) score 0 None pool) (\<lambda>best.
        case best of
          None \<Rightarrow> Inr selected
        | Some (v, c, pos) \<Rightarrow> mmr_loop vecs score (pop_at pos pool) (selected @ [c])))"
  by pat_completeness auto
termination
proof (relation "measure (\<lambda>(vecs, score, pool, selected). length pool)")
  fix vecs score pool selected best x2 v y c pos
  assume a: "\<not> (pool = [] \<or> MAX_CANDIDATES \<le> length selected)"
    "mmr_scan (max_sim vecs selected) score 0 None pool = Inr best"
    "best = Some x2" "(v, y) = x2" "(c, pos) = y"
  then have "pos < length pool" using mmr_scan_found [of _ score 0 None pool v c pos] by auto
  then show "((vecs, score, pop_at pos pool, selected @ [c]), vecs, score, pool, selected)
      \<in> measure (\<lambda>(vecs, score, pool, selected). length pool)"
    using a by simp
qed simp

declare mmr_loop.simps [simp del]

definition mem_mmr ::
  "memory_candidate list \<Rightarrow> (string, flt) dict \<Rightarrow> (string, flt list) dict \<Rightarrow>
   memory_candidate list result" where
  "mem_mmr cands rrf_norm vecs =
     mmr_loop vecs (selection_score rrf_norm) (sorted_desc (selection_score rrf_norm) cands) []"

section \<open>Retrieval\<close>

text \<open>\<^verbatim>\<open>sorted(range(n), key=..., reverse=True)\<close> and the two capped rankings.\<close>

definition dense_index :: "flt list \<Rightarrow> nat list" where
  "dense_index vector_scores =
     take N_DENSE (sorted_desc (\<lambda>i. vector_scores ! i) [0..<length vector_scores])"

definition sparse_index :: "flt list \<Rightarrow> nat list" where
  "sparse_index bm25 =
     take N_SPARSE (filter (\<lambda>i. 0 < bm25 ! i) (sorted_desc (\<lambda>i. bm25 ! i) [0..<length bm25]))"

definition mk_candidate ::
  "libm \<Rightarrow> int \<Rightarrow> (string, nat) dict \<Rightarrow> (string, nat) dict \<Rightarrow> flt list \<Rightarrow> flt list \<Rightarrow> flt \<Rightarrow>
   nat \<Rightarrow> memory_object \<Rightarrow> memory_candidate" where
  "mk_candidate L now rank_in_dense rank_in_sparse vector_scores bm25 rrf i row =
     (let mid = mo_id row; age = max 0 (total_seconds (now - mo_last_accessed_at row))
      in \<lparr>mc_memory_id = mid, mc_tenant_id = mo_tenant_id row, mc_namespace = mo_namespace row,
          mc_tier = mo_tier row, mc_content = mo_content row,
          mc_vector_score = (if dget rank_in_dense mid \<noteq> None then Some (vector_scores ! i) else None),
          mc_bm25_score = (if dget rank_in_sparse mid \<noteq> None then Some (bm25 ! i) else None),
          mc_rrf_score = rrf,
          mc_recency_factor = recency_factor L age (half_life_seconds (mo_tier row)),
          mc_importance = mo_importance row,
          mc_rank_in_dense = dget rank_in_dense mid, mc_rank_in_sparse = dget rank_in_sparse mid,
          mc_age_seconds = age, mc_source_ref = pv_source_id (mo_provenance row)\<rparr>)"

text \<open>The loop over \<^verbatim>\<open>enumerate(rows)\<close>: the candidates and, per candidate id, its vector.\<close>

fun build_candidates ::
  "(nat \<Rightarrow> flt \<Rightarrow> memory_object \<Rightarrow> memory_candidate) \<Rightarrow> (string, flt) dict \<Rightarrow> flt list list \<Rightarrow>
   (nat \<times> memory_object) list \<Rightarrow> (string, flt list) dict \<Rightarrow> memory_candidate list \<Rightarrow>
   memory_candidate list \<times> (string, flt list) dict" where
  "build_candidates mk rrf cvecs [] vecs cands = (cands, vecs)"
| "build_candidates mk rrf cvecs ((i, row) # rest) vecs cands =
     (case dget rrf (mo_id row) of
        None \<Rightarrow> build_candidates mk rrf cvecs rest vecs cands
      | Some r \<Rightarrow> build_candidates mk rrf cvecs rest (dset (mo_id row) (cvecs ! i) vecs)
                    (cands @ [mk i r row]))"

definition retrieve ::
  "'s storage_backend \<Rightarrow> embedder \<Rightarrow> libm \<Rightarrow> (string list \<Rightarrow> string list) \<Rightarrow>
   security_context \<Rightarrow> string \<Rightarrow> nat \<Rightarrow> int \<Rightarrow> 's \<Rightarrow> memory_candidate list result" where
  "retrieve B E L set_order ctx query k now s =
     (let k = min k MAX_CANDIDATES; rows = sb_list_memories B ctx SCAN_LIMIT s
      in if rows = [] then Inr []
      else
        bnd (em_embed E query) (\<lambda>qvec.
        bnd (em_embed_many E (map mo_content rows)) (\<lambda>cvecs.
        bnd (map_result (cosine qvec) cvecs) (\<lambda>vector_scores.
        if length vector_scores < length rows then Inl IndexError
        else
          let doc_tokens = map (\<lambda>r. tokenize (mo_content r)) rows;
              bm25 = bm25_scores L (set_order (tokenize query)) doc_tokens BM25_K1 BM25_B;
              vector_scores = take (length rows) vector_scores;
              dense_order = map (\<lambda>i. mo_id (rows ! i)) (dense_index vector_scores);
              sparse_order = map (\<lambda>i. mo_id (rows ! i)) (sparse_index bm25);
              rrf = rrf_fuse dense_order sparse_order RRF_K;
              mk = mk_candidate L now (rank_map dense_order) (rank_map sparse_order)
                     vector_scores bm25;
              (cands, vecs) = build_candidates (\<lambda>i r. mk r i) rrf cvecs (enumerate 0 rows) [] []
          in bnd (mem_mmr cands (minmax_normalize rrf) vecs) (\<lambda>deduped.
             Inr (take k deduped))))))"

section \<open>Correctness of the selection\<close>

lemma max_sim_bound:
  assumes "max_sim vecs selected c = Inr ms" and "t \<in> set selected"
  shows "\<exists>x. cand_sim vecs c t = Inr x \<and> x \<le> ms"
proof -
  obtain sims where sims: "map_result (cand_sim vecs c) selected = Inr sims"
    "ms = (if sims = [] then 0 else Max (set sims))"
    using assms(1) by (auto simp: max_sim_def)
  have l2: "list_all2 (\<lambda>t x. cand_sim vecs c t = Inr x) selected sims"
    using sims(1) by (rule map_result_eq_InrD)
  obtain i where i: "i < length selected" "selected ! i = t"
    using assms(2) by (meson in_set_conv_nth)
  then have "cand_sim vecs c t = Inr (sims ! i)" "sims ! i \<in> set sims"
    using l2 by (auto simp: list_all2_conv_all_nth)
  then show ?thesis using sims(2) by fastforce
qed

text \<open>No later candidate is a near duplicate of an earlier one.\<close>

definition no_near_duplicates :: "(string, flt list) dict \<Rightarrow> memory_candidate list \<Rightarrow> bool" where
  "no_near_duplicates vecs cs =
     sorted_wrt (\<lambda>s c. \<exists>x. cand_sim vecs c s = Inr x \<and> x < COS_DUP) cs"

lemma mmr_loop_step:
  assumes "pool \<noteq> []" and "\<not> MAX_CANDIDATES \<le> length selected"
    and "mmr_scan (max_sim vecs selected) score 0 None pool = Inr (Some (v, c, pos))"
  shows "pos < length pool" and "c = pool ! pos"
    and "\<forall>t \<in> set selected. \<exists>x. cand_sim vecs c t = Inr x \<and> x < COS_DUP"
  using assms mmr_scan_found [OF assms(3)] max_sim_bound [of vecs selected c] by fastforce+

lemma mmr_loop_result:
  "mmr_loop vecs score pool selected = Inr out \<Longrightarrow> no_near_duplicates vecs selected \<Longrightarrow>
   length selected \<le> MAX_CANDIDATES \<Longrightarrow>
   no_near_duplicates vecs out \<and> length out \<le> MAX_CANDIDATES \<and>
   mset out \<subseteq># mset pool + mset selected \<and> prefix selected out"
proof (induction vecs score pool selected rule: mmr_loop.induct)
  case (1 vecs score pool selected)
  show ?case
  proof (cases "pool = [] \<or> MAX_CANDIDATES \<le> length selected")
    case True
    then have "out = selected" using "1.prems"(1) by (simp add: mmr_loop.simps [of vecs score pool])
    then show ?thesis using "1.prems" by simp
  next
    case False
    then obtain best where best: "mmr_scan (max_sim vecs selected) score 0 None pool = Inr best"
      and rest: "(case best of None \<Rightarrow> Inr selected
        | Some (v, c, pos) \<Rightarrow> mmr_loop vecs score (pop_at pos pool) (selected @ [c])) = Inr out"
      using "1.prems"(1) by (auto simp: mmr_loop.simps [of vecs score pool])
    show ?thesis
    proof (cases best)
      case None
      then show ?thesis using rest "1.prems" by simp
    next
      case (Some b)
      then obtain v c pos where b: "best = Some (v, c, pos)" by (cases b) auto
      note step = mmr_loop_step [OF _ _ best [unfolded b]]
      have pos: "pos < length pool" "c = pool ! pos"
        and dup: "\<forall>t \<in> set selected. \<exists>x. cand_sim vecs c t = Inr x \<and> x < COS_DUP"
        using step False by auto
      have "no_near_duplicates vecs (selected @ [c])"
        using "1.prems"(2) dup by (simp add: no_near_duplicates_def sorted_wrt_append)
      moreover have "length (selected @ [c]) \<le> MAX_CANDIDATES" using False by simp
      moreover have "mmr_loop vecs score (pop_at pos pool) (selected @ [c]) = Inr out"
        using rest b by simp
      ultimately have IH: "no_near_duplicates vecs out \<and> length out \<le> MAX_CANDIDATES \<and>
          mset out \<subseteq># mset (pop_at pos pool) + mset (selected @ [c]) \<and> prefix (selected @ [c]) out"
        using "1.IH" [OF False best b refl refl] by blast
      have "mset (pop_at pos pool) + mset (selected @ [c]) = mset pool + mset selected"
        using mset_pop_at [OF pos(1)] pos(2) by (simp flip: add_mset_add_single)
      then show ?thesis using IH append_prefixD by metis
    qed
  qed
qed

lemma mmr_loop_keeps: "mmr_loop vecs score pool selected = Inr out \<Longrightarrow> set selected \<subseteq> set out"
proof (induction vecs score pool selected rule: mmr_loop.induct)
  case (1 vecs score pool selected)
  show ?case
  proof (cases "pool = [] \<or> MAX_CANDIDATES \<le> length selected")
    case True
    then show ?thesis using "1.prems" by (simp add: mmr_loop.simps [of vecs score pool])
  next
    case False
    then obtain best where best: "mmr_scan (max_sim vecs selected) score 0 None pool = Inr best"
      and rest: "(case best of None \<Rightarrow> Inr selected
        | Some (v, c, pos) \<Rightarrow> mmr_loop vecs score (pop_at pos pool) (selected @ [c])) = Inr out"
      using "1.prems" by (auto simp: mmr_loop.simps [of vecs score pool])
    show ?thesis
    proof (cases best)
      case (Some b)
      then obtain v c pos where b: "best = Some (v, c, pos)" by (cases b) auto
      then show ?thesis using "1.IH" [OF False best b refl refl] rest by simp
    qed (use rest in simp)
  qed
qed

text \<open>With every vector present and of one dimension, the selection does not raise.\<close>

lemma cand_sim_total:
  assumes "dget vecs (mc_memory_id c) = Some vc" and "dget vecs (mc_memory_id t) = Some vt"
    and "length vc = length vt"
  shows "\<exists>x. cand_sim vecs c t = Inr x"
  using assms cosine_total [of vc vt] by (simp add: cand_sim_def dlookup_def)

definition vecs_ok :: "(string, flt list) dict \<Rightarrow> nat \<Rightarrow> memory_candidate list \<Rightarrow> bool" where
  "vecs_ok vecs n cs = (\<forall>c \<in> set cs. \<exists>v. dget vecs (mc_memory_id c) = Some v \<and> length v = n)"

lemma max_sim_total:
  assumes "vecs_ok vecs n (c # selected)"
  shows "\<exists>ms. max_sim vecs selected c = Inr ms"
proof -
  have "\<forall>t \<in> set selected. \<exists>x. cand_sim vecs c t = Inr x"
    using assms cand_sim_total by (fastforce simp: vecs_ok_def)
  then have "map_result (cand_sim vecs c) selected = Inr (map (\<lambda>t. projr (cand_sim vecs c t)) selected)"
    by (intro map_result_Inr) force
  then show ?thesis by (simp add: max_sim_def)
qed

lemma mmr_scan_total:
  "\<forall>c \<in> set cs. \<exists>ms. msim c = Inr ms \<Longrightarrow> \<exists>b. mmr_scan msim score pos best cs = Inr b"
proof (induction msim score pos best cs rule: mmr_scan.induct)
  case (2 msim score pos best c cs)
  then obtain ms where "msim c = Inr ms" by auto
  then show ?case using 2 by simp
qed simp

lemma mmr_loop_total:
  "vecs_ok vecs n pool \<Longrightarrow> vecs_ok vecs n selected \<Longrightarrow> \<exists>out. mmr_loop vecs score pool selected = Inr out"
proof (induction vecs score pool selected rule: mmr_loop.induct)
  case (1 vecs score pool selected)
  show ?case
  proof (cases "pool = [] \<or> MAX_CANDIDATES \<le> length selected")
    case False
    have "\<forall>c \<in> set pool. \<exists>ms. max_sim vecs selected c = Inr ms"
      using "1.prems" max_sim_total [of vecs n _ selected] by (simp add: vecs_ok_def)
    then obtain best where best: "mmr_scan (max_sim vecs selected) score 0 None pool = Inr best"
      using mmr_scan_total by blast
    show ?thesis
    proof (cases best)
      case (Some b)
      then obtain v c pos where b: "best = Some (v, c, pos)" by (cases b) auto
      have pos: "pos < length pool" "c = pool ! pos"
        using mmr_loop_step [OF _ _ best [unfolded b]] False by auto
      have "vecs_ok vecs n (pop_at pos pool)"
        using "1.prems"(1) set_pop_at_subset [of pos pool] by (auto simp: vecs_ok_def)
      moreover have "vecs_ok vecs n (selected @ [c])"
        using "1.prems" pos by (auto simp: vecs_ok_def)
      ultimately show ?thesis
        using "1.IH" [OF False best b refl refl] False best b by (simp add: mmr_loop.simps [of vecs score pool])
    qed (use best False in \<open>simp add: mmr_loop.simps [of vecs score pool]\<close>)
  qed (simp add: mmr_loop.simps)
qed

section \<open>The selection leaves out duplicates only\<close>

lemma mmr_value_large:
  assumes "0 \<le> s" and "ms < COS_DUP"
  shows "- (10 ^ 18) < fsub (fmul MMR_LAMBDA s) (fmul (fsub 1 MMR_LAMBDA) ms)"
proof -
  have lam: "0 \<le> MMR_LAMBDA" "0 \<le> fsub 1 MMR_LAMBDA" "fsub 1 MMR_LAMBDA \<le> 1" "COS_DUP \<le> 1"
    by code_simp+
  have "fmul (fsub 1 MMR_LAMBDA) ms \<le> fmul (fsub 1 MMR_LAMBDA) 1" using lam(2,4) assms(2) by (intro fmul_mono) simp_all
  also have "\<dots> \<le> 1" using rnd64_mono [OF lam(3)] by (simp add: fmul_def)
  finally have "fmul (fsub 1 MMR_LAMBDA) ms \<le> 1" .
  then have "fsub 0 1 \<le> fsub (fmul MMR_LAMBDA s) (fmul (fsub 1 MMR_LAMBDA) ms)"
    using fmul_nonneg [OF lam(1) assms(1)] by (intro fsub_mono)
  moreover have "- (10 ^ 18) < fsub 0 (1 :: flt)" by code_simp
  ultimately show ?thesis by linarith
qed

lemma mmr_scan_finds:
  "mmr_scan msim score pos best cs = Inr None \<Longrightarrow> \<forall>c \<in> set cs. 0 \<le> score c \<Longrightarrow>
   best = None \<and> (\<forall>c \<in> set cs. \<exists>ms. msim c = Inr ms \<and> COS_DUP \<le> ms)"
proof (induction msim score pos best cs rule: mmr_scan.induct)
  case (2 msim score pos best c cs)
  then obtain ms where ms: "msim c = Inr ms" by auto
  let ?b = "if COS_DUP \<le> ms then best
    else let val = fsub (fmul MMR_LAMBDA (score c)) (fmul (fsub 1 MMR_LAMBDA) ms)
         in if best_val best < val then Some (val, c, pos) else best"
  have IH: "?b = None \<and> (\<forall>c \<in> set cs. \<exists>ms. msim c = Inr ms \<and> COS_DUP \<le> ms)"
    using "2.IH" [of ms] "2.prems" ms by simp
  then have "best = None" by (auto simp: Let_def split: if_splits)
  moreover have "COS_DUP \<le> ms"
  proof (rule ccontr)
    assume "\<not> COS_DUP \<le> ms"
    then show False
      using IH \<open>best = None\<close> mmr_value_large [of "score c" ms] "2.prems"(2) by (simp add: best_val_def Let_def)
  qed
  ultimately show ?case using IH ms by simp
qed simp

definition near_duplicate :: "(string, flt list) dict \<Rightarrow> memory_candidate list \<Rightarrow> memory_candidate \<Rightarrow> bool" where
  "near_duplicate vecs cs c = (\<exists>t \<in> set cs. \<exists>x. cand_sim vecs c t = Inr x \<and> COS_DUP \<le> x)"

lemma max_sim_attained:
  assumes "max_sim vecs selected c = Inr ms" and "COS_DUP \<le> ms"
  shows "near_duplicate vecs selected c"
proof -
  obtain sims where sims: "map_result (cand_sim vecs c) selected = Inr sims"
    "ms = (if sims = [] then 0 else Max (set sims))"
    using assms(1) by (auto simp: max_sim_def)
  have "0 < COS_DUP" by code_simp
  then have "sims \<noteq> []" "ms \<in> set sims" using sims(2) assms(2) by (auto split: if_splits)
  then obtain i where i: "i < length sims" "sims ! i = ms" by (auto simp: in_set_conv_nth)
  have "list_all2 (\<lambda>t x. cand_sim vecs c t = Inr x) selected sims" using sims(1) by (rule map_result_eq_InrD)
  then have "i < length selected" "cand_sim vecs c (selected ! i) = Inr ms" using i by (auto simp: list_all2_conv_all_nth)
  then show ?thesis using assms(2) nth_mem unfolding near_duplicate_def by blast
qed

lemma mmr_loop_complete:
  "mmr_loop vecs score pool selected = Inr out \<Longrightarrow> \<forall>c \<in> set pool. 0 \<le> score c \<Longrightarrow>
   MAX_CANDIDATES \<le> length out \<or> (\<forall>c \<in> set pool. c \<in> set out \<or> near_duplicate vecs out c)"
proof (induction vecs score pool selected rule: mmr_loop.induct)
  case (1 vecs score pool selected)
  show ?case
  proof (cases "pool = [] \<or> MAX_CANDIDATES \<le> length selected")
    case True
    then show ?thesis using "1.prems"(1) by (auto simp: mmr_loop.simps [of vecs score pool])
  next
    case False
    then obtain best where best: "mmr_scan (max_sim vecs selected) score 0 None pool = Inr best"
      and rest: "(case best of None \<Rightarrow> Inr selected
        | Some (v, c, pos) \<Rightarrow> mmr_loop vecs score (pop_at pos pool) (selected @ [c])) = Inr out"
      using "1.prems"(1) by (auto simp: mmr_loop.simps [of vecs score pool])
    show ?thesis
    proof (cases best)
      case None
      then have "\<forall>c \<in> set pool. near_duplicate vecs selected c"
        using mmr_scan_finds [OF best [unfolded None] "1.prems"(2)] max_sim_attained by blast
      then show ?thesis using rest None by simp
    next
      case (Some b)
      then obtain v c pos where b: "best = Some (v, c, pos)" by (cases b) auto
      have pos: "pos < length pool" "c = pool ! pos" using mmr_loop_step [OF _ _ best [unfolded b]] False by auto
      have out: "mmr_loop vecs score (pop_at pos pool) (selected @ [c]) = Inr out" using rest b by simp
      have "\<forall>c \<in> set (pop_at pos pool). 0 \<le> score c" using "1.prems"(2) set_pop_at_subset [of pos pool] by blast
      then have IH: "MAX_CANDIDATES \<le> length out \<or> (\<forall>c \<in> set (pop_at pos pool). c \<in> set out \<or> near_duplicate vecs out c)"
        using "1.IH" [OF False best b refl refl out] by blast
      have "c \<in> set out" using mmr_loop_keeps [OF out] by simp
      moreover have "set pool = insert c (set (pop_at pos pool))"
        using arg_cong [OF mset_pop_at [OF pos(1)], of set_mset] pos(2) by simp
      ultimately show ?thesis using IH by auto
    qed
  qed
qed

section \<open>The candidates of a scan\<close>

text \<open>A candidate carries the stored row it was built from.\<close>

definition derived_from :: "memory_candidate \<Rightarrow> memory_object \<Rightarrow> bool" where
  "derived_from c m = (mc_memory_id c = mo_id m \<and> mc_tenant_id c = mo_tenant_id m \<and>
     mc_namespace c = mo_namespace m \<and> mc_tier c = mo_tier m \<and> mc_content c = mo_content m \<and>
     mc_importance c = mo_importance m \<and> mc_source_ref c = pv_source_id (mo_provenance m))"

lemma derived_mk_candidate [simp]: "derived_from (mk_candidate L now rd rs vs bm r i row) row"
  by (simp add: derived_from_def mk_candidate_def Let_def)

lemma build_candidates_fst:
  "fst (build_candidates mk rrf cvecs irows vecs cands) =
     cands @ map (\<lambda>(i, row). mk i (the (dget rrf (mo_id row))) row)
       (filter (\<lambda>(i, row). dget rrf (mo_id row) \<noteq> None) irows)"
  by (induction mk rrf cvecs irows vecs cands rule: build_candidates.induct)
    (auto split: option.splits)

lemma build_candidates_frame:
  "mid \<notin> mo_id ` snd ` set irows \<Longrightarrow>
   dget (snd (build_candidates mk rrf cvecs irows vecs cands)) mid = dget vecs mid"
  by (induction mk rrf cvecs irows vecs cands rule: build_candidates.induct)
    (auto split: option.splits)

lemma build_candidates_vecs:
  "(i, row) \<in> set irows \<Longrightarrow> dget rrf (mo_id row) \<noteq> None \<Longrightarrow> distinct (map (mo_id \<circ> snd) irows) \<Longrightarrow>
   dget (snd (build_candidates mk rrf cvecs irows vecs cands)) (mo_id row) = Some (cvecs ! i)"
proof (induction mk rrf cvecs irows vecs cands rule: build_candidates.induct)
  case (2 mk rrf cvecs j r rest vecs cands)
  show ?case
  proof (cases "(i, row) = (j, r)")
    case True
    then have "mo_id row \<notin> mo_id ` snd ` set rest" using 2(5) by (auto simp: image_image comp_def)
    then show ?thesis using True 2(4)
      by (auto simp: build_candidates_frame split: option.splits)
  next
    case False
    then show ?thesis using 2 by (auto split: option.splits)
  qed
qed simp

lemma distinct_enumerate_ids:
  "distinct (map mo_id rows) \<Longrightarrow> distinct (map (mo_id \<circ> snd) (enumerate n rows))"
  by (simp flip: map_map)

section \<open>The memory engine over a lawful store and embedder\<close>

locale memory_service = storage B inv + embedding_provider E
  for B :: "'s storage_backend" and inv and E
begin

lemma built_candidates:
  assumes rows: "distinct (map mo_id rows)"
    and built: "build_candidates (\<lambda>i r. mk_candidate L now rd rs vs bm r i) rrf
      (map (\<lambda>r. emb (mo_content r)) rows) (enumerate 0 rows) [] [] = (cands, vecs)"
  shows "\<forall>c \<in> set cands. \<exists>m \<in> set rows. derived_from c m"
    and "\<forall>c \<in> set cands. dget vecs (mc_memory_id c) = Some (emb (mc_content c))"
    and "distinct (map mc_memory_id cands)"
proof -
  let ?mk = "\<lambda>i r. mk_candidate L now rd rs vs bm r i"
  let ?keep = "filter (\<lambda>(i, row). dget rrf (mo_id row) \<noteq> None) (enumerate 0 rows)"
  have cands: "cands = map (\<lambda>(i, row). ?mk i (the (dget rrf (mo_id row))) row) ?keep"
    using build_candidates_fst [of ?mk rrf "map (\<lambda>r. emb (mo_content r)) rows" "enumerate 0 rows" "[]" "[]"] built by simp
  have mem: "i < length rows \<and> rows ! i = row" if "(i, row) \<in> set (enumerate 0 rows)" for i row
    using that by (auto simp: in_set_enumerate_eq)
  show "\<forall>c \<in> set cands. \<exists>m \<in> set rows. derived_from c m"
  proof
    fix c assume "c \<in> set cands"
    then obtain i row where "(i, row) \<in> set (enumerate 0 rows)" "derived_from c row"
      unfolding cands by auto
    then show "\<exists>m \<in> set rows. derived_from c m" using mem nth_mem by blast
  qed
  show "\<forall>c \<in> set cands. dget vecs (mc_memory_id c) = Some (emb (mc_content c))"
  proof
    fix c assume "c \<in> set cands"
    then obtain i row where ir: "(i, row) \<in> set (enumerate 0 rows)" "dget rrf (mo_id row) \<noteq> None"
      and c: "derived_from c row"
      unfolding cands by auto
    have "dget vecs (mo_id row) = Some (map (\<lambda>r. emb (mo_content r)) rows ! i)"
      using build_candidates_vecs [OF ir distinct_enumerate_ids [OF rows], of ?mk "map (\<lambda>r. emb (mo_content r)) rows" "[]" "[]"] built by simp
    then show "dget vecs (mc_memory_id c) = Some (emb (mc_content c))"
      using c mem [OF ir(1)] by (auto simp: derived_from_def)
  qed
  have "map mc_memory_id cands = map (mo_id \<circ> snd) ?keep"
    unfolding cands by (auto simp: mk_candidate_def Let_def)
  then show "distinct (map mc_memory_id cands)"
    using distinct_map_filter [OF distinct_enumerate_ids [OF rows]] by metis
qed

lemma cand_sim_emb:
  assumes "dget vecs (mc_memory_id c) = Some (emb (mc_content c))"
    and "dget vecs (mc_memory_id t) = Some (emb (mc_content t))"
  shows "cand_sim vecs c t = cosine (emb (mc_content c)) (emb (mc_content t))"
  using assms by (simp add: cand_sim_def dlookup_def)

definition diverse :: "memory_candidate list \<Rightarrow> bool" where
  "diverse cs = sorted_wrt (\<lambda>s c. \<exists>x. cosine (emb (mc_content c)) (emb (mc_content s)) = Inr x \<and> x < COS_DUP) cs"

lemma mem_mmr_ok:
  assumes vecs: "\<forall>c \<in> set cands. dget vecs (mc_memory_id c) = Some (emb (mc_content c))"
    and ids: "distinct (map mc_memory_id cands)"
  obtains out where "mem_mmr cands rrf_norm vecs = Inr out" and "length out \<le> MAX_CANDIDATES"
    and "set out \<subseteq> set cands" and "distinct (map mc_memory_id out)" and "diverse out"
proof -
  let ?pool = "sorted_desc (selection_score rrf_norm) cands"
  have "vecs_ok vecs (em_dim E) ?pool" "vecs_ok vecs (em_dim E) []"
    using vecs by (simp_all add: vecs_ok_def)
  then obtain out where out: "mem_mmr cands rrf_norm vecs = Inr out"
    using mmr_loop_total [of vecs "em_dim E" ?pool "[]" "selection_score rrf_norm"] by (auto simp: mem_mmr_def)
  have "no_near_duplicates vecs out \<and> length out \<le> MAX_CANDIDATES \<and> mset out \<subseteq># mset ?pool + mset [] \<and> prefix [] out"
    by (rule mmr_loop_result [OF out [unfolded mem_mmr_def]]) (simp_all add: no_near_duplicates_def MAX_CANDIDATES_def)
  then have nd: "no_near_duplicates vecs out" and len: "length out \<le> MAX_CANDIDATES"
    and ms: "mset out \<subseteq># mset cands" by simp_all
  have sub: "set out \<subseteq> set cands" using set_mset_mono [OF ms] by simp
  have "mset (map mc_memory_id out) \<subseteq># mset (map mc_memory_id cands)"
    using image_mset_subseteq_mono [OF ms, of mc_memory_id] by simp
  then have "distinct (map mc_memory_id out)"
    using ids by (rule distinct_submset)
  moreover have "diverse out"
    unfolding diverse_def using nd [unfolded no_near_duplicates_def]
    by (rule sorted_wrt_mono_rel [rotated]) (use sub vecs cand_sim_emb in \<open>metis subsetD\<close>)
  ultimately show thesis using that out len sub by blast
qed

lemma retrieve_parts:
  assumes "inv s" and "sb_list_memories B ctx SCAN_LIMIT s \<noteq> []"
  obtains vs bm ds ss cands vecs out where
    "build_candidates (\<lambda>i r. mk_candidate L now (rank_map ds) (rank_map ss) vs bm r i) (rrf_fuse ds ss RRF_K)
       (map (\<lambda>r. emb (mo_content r)) (sb_list_memories B ctx SCAN_LIMIT s))
       (enumerate 0 (sb_list_memories B ctx SCAN_LIMIT s)) [] [] = (cands, vecs)"
    and "mem_mmr cands (minmax_normalize (rrf_fuse ds ss RRF_K)) vecs = Inr out"
    and "retrieve B E L set_order ctx query k now s = Inr (take (min k MAX_CANDIDATES) out)"
    and "length vs = length (sb_list_memories B ctx SCAN_LIMIT s)"
    and "ds = map (\<lambda>i. mo_id (sb_list_memories B ctx SCAN_LIMIT s ! i)) (dense_index vs)"
    and "ss = map (\<lambda>i. mo_id (sb_list_memories B ctx SCAN_LIMIT s ! i)) (sparse_index bm)"
    and "length bm = length vs"
proof -
  let ?rows = "sb_list_memories B ctx SCAN_LIMIT s"
  let ?cv = "map (\<lambda>r. emb (mo_content r)) ?rows"
  define vs where "vs = map (\<lambda>v. projr (cosine (emb query) v)) ?cv"
  have scores: "map_result (cosine (emb query)) ?cv = Inr vs"
    unfolding vs_def by (rule map_result_Inr) (auto simp: cosine_def Let_def)
  have vs_len: "length vs = length ?rows" by (simp add: vs_def)
  define bm where "bm = bm25_scores L (set_order (tokenize query)) (map (\<lambda>r. tokenize (mo_content r)) ?rows) BM25_K1 BM25_B"
  define ds where "ds = map (\<lambda>i. mo_id (?rows ! i)) (dense_index vs)"
  define ss where "ss = map (\<lambda>i. mo_id (?rows ! i)) (sparse_index bm)"
  obtain cands vecs where built: "build_candidates (\<lambda>i r. mk_candidate L now (rank_map ds) (rank_map ss) vs bm r i)
      (rrf_fuse ds ss RRF_K) ?cv (enumerate 0 ?rows) [] [] = (cands, vecs)"
    by (meson surj_pair)
  note bc = built_candidates [OF list_distinct [OF assms(1)] built]
  obtain out where out: "mem_mmr cands (minmax_normalize (rrf_fuse ds ss RRF_K)) vecs = Inr out"
    by (rule mem_mmr_ok [OF bc(2,3)])
  have "retrieve B E L set_order ctx query k now s = Inr (take (min k MAX_CANDIDATES) out)"
    using assms(2) scores out built
    by (simp add: retrieve_def Let_def embed_emb embed_many_emb comp_def vs_len
        flip: bm_def ds_def ss_def)
  then show thesis
    by (rule that [OF built out]) (simp_all add: vs_len ds_def ss_def bm_def length_bm25_scores)
qed

theorem retrieve_ok:
  assumes "inv s"
  obtains cs where "retrieve B E L set_order ctx query k now s = Inr cs"
    and "length cs \<le> min k MAX_CANDIDATES"
    and "distinct (map mc_memory_id cs)"
    and "\<forall>c \<in> set cs. \<exists>m. sb_get_memory B ctx (mc_memory_id c) s = Some m \<and> in_scope ctx m \<and> derived_from c m"
    and "diverse cs"
proof (cases "sb_list_memories B ctx SCAN_LIMIT s = []")
  case True
  then show thesis using that [of "[]"] by (simp add: retrieve_def diverse_def)
next
  case False
  let ?rows = "sb_list_memories B ctx SCAN_LIMIT s"
  obtain vs bm ds ss cands vecs out where
    built: "build_candidates (\<lambda>i r. mk_candidate L now (rank_map ds) (rank_map ss) vs bm r i) (rrf_fuse ds ss RRF_K)
       (map (\<lambda>r. emb (mo_content r)) ?rows) (enumerate 0 ?rows) [] [] = (cands, vecs)"
    and mmr: "mem_mmr cands (minmax_normalize (rrf_fuse ds ss RRF_K)) vecs = Inr out"
    and ret: "retrieve B E L set_order ctx query k now s = Inr (take (min k MAX_CANDIDATES) out)"
    by (rule retrieve_parts [OF assms False])
  note bc = built_candidates [OF list_distinct [OF assms] built]
  obtain out' where out': "mem_mmr cands (minmax_normalize (rrf_fuse ds ss RRF_K)) vecs = Inr out'"
    "length out' \<le> MAX_CANDIDATES" "set out' \<subseteq> set cands" "distinct (map mc_memory_id out')" "diverse out'"
    by (rule mem_mmr_ok [OF bc(2,3)])
  have out: "set out \<subseteq> set cands" "distinct (map mc_memory_id out)" "diverse out" using out' mmr by simp_all
  show thesis
  proof (rule that [OF ret])
    show "distinct (map mc_memory_id (take (min k MAX_CANDIDATES) out))"
      using out(2) by (simp add: distinct_take flip: take_map)
    show "diverse (take (min k MAX_CANDIDATES) out)"
      using out(3) by (simp add: diverse_def sorted_wrt_take)
    show "\<forall>c \<in> set (take (min k MAX_CANDIDATES) out). \<exists>m. sb_get_memory B ctx (mc_memory_id c) s = Some m \<and>
        in_scope ctx m \<and> derived_from c m"
    proof
      fix c assume "c \<in> set (take (min k MAX_CANDIDATES) out)"
      then obtain m where m: "m \<in> set ?rows" "derived_from c m"
        using out(1) bc(1) by (meson in_set_takeD subsetD)
      then show "\<exists>m. sb_get_memory B ctx (mc_memory_id c) s = Some m \<and> in_scope ctx m \<and> derived_from c m"
        using list_get [OF assms m(1)] list_scoped [OF assms m(1)] by (auto simp: derived_from_def)
    qed
  qed (simp add: min_le_iff_disj)
qed

text \<open>What a retrieval with room left does not return is a near duplicate of something it returns.\<close>

definition covered :: "memory_candidate list \<Rightarrow> memory_object \<Rightarrow> bool" where
  "covered cs m = ((\<exists>c \<in> set cs. mc_memory_id c = mo_id m) \<or>
     (\<exists>c \<in> set cs. \<exists>x. cosine (emb (mo_content m)) (emb (mc_content c)) = Inr x \<and> COS_DUP \<le> x))"

theorem retrieve_covers:
  assumes "inv s" and "length (sb_list_memories B ctx SCAN_LIMIT s) \<le> N_DENSE" and "\<And>x. 0 \<le> pow_half L x"
    and "\<forall>m \<in> set (sb_list_memories B ctx SCAN_LIMIT s). 0 \<le> mo_importance m"
    and "retrieve B E L set_order ctx query k now s = Inr cs" and "length cs < min k MAX_CANDIDATES"
    and "m \<in> set (sb_list_memories B ctx SCAN_LIMIT s)"
  shows "covered cs m"
proof -
  let ?rows = "sb_list_memories B ctx SCAN_LIMIT s"
  have rows: "?rows \<noteq> []" using assms(7) by auto
  obtain vs bm ds ss cands vecs out where
    built: "build_candidates (\<lambda>i r. mk_candidate L now (rank_map ds) (rank_map ss) vs bm r i) (rrf_fuse ds ss RRF_K)
       (map (\<lambda>r. emb (mo_content r)) ?rows) (enumerate 0 ?rows) [] [] = (cands, vecs)"
    and mmr: "mem_mmr cands (minmax_normalize (rrf_fuse ds ss RRF_K)) vecs = Inr out"
    and ret: "retrieve B E L set_order ctx query k now s = Inr (take (min k MAX_CANDIDATES) out)"
    and vs: "length vs = length ?rows" and ds: "ds = map (\<lambda>i. mo_id (?rows ! i)) (dense_index vs)"
    and ss: "ss = map (\<lambda>i. mo_id (?rows ! i)) (sparse_index bm)" and bm: "length bm = length vs"
    by (rule retrieve_parts [OF assms(1) rows])
  note bc = built_candidates [OF list_distinct [OF assms(1)] built]
  have cs: "cs = out" "length out < MAX_CANDIDATES" using ret assms(5,6) by auto
  let ?rrf = "rrf_fuse ds ss RRF_K"
  have ids: "distinct (map (\<lambda>i. mo_id (?rows ! i)) [0..<length ?rows])"
  proof -
    have "map (\<lambda>i. mo_id (?rows ! i)) [0..<length ?rows] = map mo_id ?rows" by (rule nth_equalityI) simp_all
    then show ?thesis using list_distinct [OF assms(1)] by simp
  qed
  have dense: "set (dense_index vs) = {0..<length ?rows}" "distinct (dense_index vs)"
    using assms(2) vs by (simp_all add: dense_index_def)
  have "distinct ds" unfolding ds using ids dense by (simp add: distinct_map)
  moreover have "distinct ss"
  proof -
    have "set (sparse_index bm) \<subseteq> {0..<length ?rows}" "distinct (sparse_index bm)"
      using bm vs by (auto simp: sparse_index_def dest!: in_set_takeD)
    then show ?thesis unfolding ss using ids by (auto simp: distinct_map intro: inj_on_subset)
  qed
  moreover have "mo_id m \<in> set ds" using assms(7) dense(1) by (auto simp: ds in_set_conv_nth)
  ultimately have ranked: "dget ?rrf (mo_id m) \<noteq> None" by (auto simp: rrf_fuse_eq split: option.split)
  have cands: "cands = map (\<lambda>(i, row). mk_candidate L now (rank_map ds) (rank_map ss) vs bm (the (dget ?rrf (mo_id row))) i row)
      (filter (\<lambda>(i, row). dget ?rrf (mo_id row) \<noteq> None) (enumerate 0 ?rows))"
    using build_candidates_fst [of "\<lambda>i r. mk_candidate L now (rank_map ds) (rank_map ss) vs bm r i" ?rrf
        "map (\<lambda>r. emb (mo_content r)) ?rows" "enumerate 0 ?rows" "[]" "[]"] built by simp
  obtain c where c: "c \<in> set cands" "derived_from c m"
  proof -
    obtain i where i: "i < length ?rows" "?rows ! i = m" using assms(7) by (auto simp: in_set_conv_nth)
    then have "(i, m) \<in> set (filter (\<lambda>(i, row). dget ?rrf (mo_id row) \<noteq> None) (enumerate 0 ?rows))"
      using ranked by (auto simp: in_set_enumerate_eq)
    then show thesis
      using that [of "mk_candidate L now (rank_map ds) (rank_map ss) vs bm (the (dget ?rrf (mo_id m))) i m"]
      unfolding cands by (force simp: image_iff)
  qed
  have score: "0 \<le> selection_score (minmax_normalize ?rrf) d" if d: "d \<in> set cands" for d
  proof -
    obtain i row where row: "(i, row) \<in> set (enumerate 0 ?rows)"
      and dr: "d = mk_candidate L now (rank_map ds) (rank_map ss) vs bm (the (dget ?rrf (mo_id row))) i row"
      using d unfolding cands by auto
    then have "row \<in> set ?rows" by (auto simp: in_set_enumerate_eq)
    then have "0 \<le> mc_recency_factor d" "0 \<le> mc_importance d"
      using assms(3,4) by (simp_all add: dr mk_candidate_def Let_def recency_factor_def)
    moreover have "0 \<le> (case dget (minmax_normalize ?rrf) i of None \<Rightarrow> 0 | Some v \<Rightarrow> v)" for i
      using minmax_range [of _ ?rrf] by (force split: option.split dest: map_of_SomeD)
    moreover have "0 \<le> W_RRF" "0 \<le> W_RECENCY" "0 \<le> W_IMPORTANCE" by code_simp+
    ultimately show ?thesis by (simp add: selection_score_def fadd_nonneg fmul_nonneg)
  qed
  have "c \<in> set out \<or> near_duplicate vecs out c"
    using mmr_loop_complete [OF mmr [unfolded mem_mmr_def]] score c(1) cs(2) by auto
  moreover have "set out \<subseteq> set cands"
  proof -
    obtain out' where "mem_mmr cands (minmax_normalize (rrf_fuse ds ss RRF_K)) vecs = Inr out'" "set out' \<subseteq> set cands"
      by (rule mem_mmr_ok [OF bc(2,3)])
    then show ?thesis using mmr by simp
  qed
  ultimately show ?thesis
    using c bc(2) cand_sim_emb unfolding cs(1) covered_def near_duplicate_def derived_from_def by (metis subsetD)
qed

end

interpretation engine: memory_service inmem store_inv "hashing_provider blake DEFAULT_DIM" for blake
  by unfold_locales

section \<open>Properties\<close>

text \<open>C9: Retrieval never fails and never leaks. Over the in-memory store after any writes by any
  tenants, and over the shipped embedder, a retrieval returns at most \<open>k\<close> candidates (and never
  more than 512), none twice; each is a memory the caller may read, of its own tenant and
  namespace, with that memory's content; and no candidate is a near-duplicate of an earlier one.\<close>

theorem retrieve_scoped_diverse:
  fixes ops ctx k and blake :: "string \<Rightarrow> 64 word"
  defines "s \<equiv> run_ops store_step ops empty_store" and "E \<equiv> hashing_provider blake DEFAULT_DIM"
  shows "\<exists>cs. retrieve inmem E L set_order ctx query k now s = Inr cs \<and>
    length cs \<le> min k MAX_CANDIDATES \<and> distinct (map mc_memory_id cs) \<and>
    (\<forall>c \<in> set cs. \<exists>m. get_memory ctx (mc_memory_id c) s = Some m \<and> in_scope ctx m \<and> derived_from c m) \<and>
    sorted_wrt (\<lambda>c d. \<exists>u v x. em_embed E (mc_content c) = Inr u \<and> em_embed E (mc_content d) = Inr v \<and>
      cosine v u = Inr x \<and> x < COS_DUP) cs"
proof -
  have inv: "store_inv s" unfolding s_def by (intro store_inv_run store_inv_empty)
  obtain cs where cs: "retrieve inmem E L set_order ctx query k now s = Inr cs"
    "length cs \<le> min k MAX_CANDIDATES" "distinct (map mc_memory_id cs)"
    "\<forall>c \<in> set cs. \<exists>m. sb_get_memory inmem ctx (mc_memory_id c) s = Some m \<and> in_scope ctx m \<and> derived_from c m"
    "engine.diverse blake cs"
    unfolding E_def by (rule engine.retrieve_ok [OF inv])
  have "sorted_wrt (\<lambda>c d. \<exists>u v x. em_embed E (mc_content c) = Inr u \<and> em_embed E (mc_content d) = Inr v \<and>
      cosine v u = Inr x \<and> x < COS_DUP) cs"
    using cs(5) unfolding engine.diverse_def E_def hashing.embed_emb by simp
  then show ?thesis using cs(1-4) by (auto simp: inmem_def)
qed

definition fx_reader :: security_context where
  "fx_reader = \<lparr>ctx_tenant_id = ''acme'', ctx_principal = \<lparr>pc_id = ''u'', pc_tenant_id = ''acme'',
     pc_roles = [], pc_attributes = []\<rparr>, ctx_namespace = ''n'', ctx_request_id = ''r''\<rparr>"

lemma retrieve_scoped_diverse_witness:
  "\<exists>cs. retrieve inmem (hashing_provider (\<lambda>_. 0) DEFAULT_DIM) \<lparr>pow_half = (\<lambda>_. 1), log_nat = (\<lambda>x. x - 1)\<rparr>
     id fx_reader ''tea'' 5 0 (run_ops store_step [] empty_store) = Inr cs \<and> length cs \<le> 5"
proof -
  obtain cs where "retrieve inmem (hashing_provider (\<lambda>_. 0) DEFAULT_DIM) \<lparr>pow_half = (\<lambda>_. 1), log_nat = (\<lambda>x. x - 1)\<rparr>
     id fx_reader ''tea'' 5 0 (run_ops store_step [] empty_store) = Inr cs" "length cs \<le> min 5 MAX_CANDIDATES"
    using retrieve_scoped_diverse [where blake = "\<lambda>_. 0" and k = 5 and ops = "[]" and ctx = fx_reader
        and query = "''tea''" and L = "\<lparr>pow_half = (\<lambda>_. 1), log_nat = (\<lambda>x. x - 1)\<rparr>"
        and set_order = id and now = 0] by (elim exE conjE)
  then show ?thesis by (intro exI [of _ cs] conjI) simp_all
qed

text \<open>Retrieval forgets nothing while it has room. When a namespace holds at most 200 memories
  (the depth of the dense ranking) and a retrieval returns fewer than it may, every memory the
  caller can read is returned, or is a near duplicate of one that is.\<close>

theorem retrieve_complete:
  fixes ops ctx and blake :: "string \<Rightarrow> 64 word"
  defines "s \<equiv> run_ops store_step ops empty_store" and "E \<equiv> hashing_provider blake DEFAULT_DIM"
  assumes "length (list_memories ctx SCAN_LIMIT s) \<le> N_DENSE"
    and "\<forall>m \<in> set (list_memories ctx SCAN_LIMIT s). 0 \<le> mo_importance m" and "\<And>x. 0 \<le> pow_half L x"
    and "retrieve inmem E L set_order ctx query k now s = Inr cs" and "length cs < min k MAX_CANDIDATES"
    and "get_memory ctx i s = Some m"
  shows "\<exists>c \<in> set cs. mc_memory_id c = i \<or>
    (\<exists>u v x. em_embed E (mo_content m) = Inr u \<and> em_embed E (mc_content c) = Inr v \<and> cosine u v = Inr x \<and> COS_DUP \<le> x)"
proof -
  have inv: "store_inv s" unfolding s_def by (intro store_inv_run store_inv_empty)
  have "N_DENSE < SCAN_LIMIT" by code_simp
  then have "m \<in> set (sb_list_memories inmem ctx SCAN_LIMIT s)"
    using inmem.list_complete [OF inv] assms(3,8) by (simp add: inmem_def)
  then have "engine.covered blake cs m"
    using assms(3-7) unfolding E_def
    by (intro engine.retrieve_covers [OF inv, where k = k and L = L and set_order = set_order and query = query and now = now])
      (simp_all add: inmem_def)
  moreover have "mo_id m = i" using inmem.get_scoped [OF inv] assms(8) by (simp add: inmem_def)
  ultimately show ?thesis unfolding engine.covered_def E_def hashing.embed_emb by auto
qed

definition fx_note :: memory_object where
  "fx_note = \<lparr>mo_id = ''m1'', mo_tenant_id = ''acme'', mo_namespace = ''n'', mo_tier = memory_tier.SEMANTIC,
     mo_content = ''green tea'', mo_embedding_ref = None, mo_importance = 1 / 2, mo_created_at = 0,
     mo_last_accessed_at = 0, mo_provenance = \<lparr>pv_source = ''chat'', pv_source_id = None, pv_ingested_at = 0\<rparr>,
     mo_metadata = []\<rparr>"

lemma retrieve_complete_witness:
  "\<exists>cs. retrieve inmem (hashing_provider (\<lambda>_. 0) DEFAULT_DIM) \<lparr>pow_half = (\<lambda>_. 1), log_nat = (\<lambda>x. x - 1)\<rparr>
     id fx_reader ''tea'' 5 0 (run_ops store_step [(fx_reader, fx_note)] empty_store) = Inr cs \<and> cs \<noteq> []"
proof -
  let ?s = "run_ops store_step [(fx_reader, fx_note)] empty_store"
  let ?L = "\<lparr>pow_half = (\<lambda>_. 1), log_nat = (\<lambda>x. x - 1)\<rparr>"
  have inv: "store_inv ?s" by (intro store_inv_run store_inv_empty)
  have s: "list_memories fx_reader SCAN_LIMIT ?s = [fx_note]" "get_memory fx_reader ''m1'' ?s = Some fx_note"
    by (simp_all add: store_step_def add_memory_def get_memory_def list_memories_def fx_note_def fx_reader_def
        empty_store_def SCAN_LIMIT_def)
  obtain cs where cs: "retrieve inmem (hashing_provider (\<lambda>_. 0) DEFAULT_DIM) ?L id fx_reader ''tea'' 5 0 ?s = Inr cs"
    "distinct (map mc_memory_id cs)"
    "\<forall>c \<in> set cs. \<exists>m. sb_get_memory inmem fx_reader (mc_memory_id c) ?s = Some m \<and> in_scope fx_reader m \<and> derived_from c m"
    by (rule engine.retrieve_ok [OF inv])
  have "mc_memory_id c = ''m1''" if c: "c \<in> set cs" for c
  proof -
    obtain m where "get_memory fx_reader (mc_memory_id c) ?s = Some m" using cs(3) c by (auto simp: inmem_def)
    then show ?thesis
      by (auto simp: store_step_def add_memory_def get_memory_def fx_note_def fx_reader_def empty_store_def
          split: option.splits if_splits)
  qed
  then have "set (map mc_memory_id cs) \<subseteq> {''m1''}" by auto
  then have "length cs \<le> 1"
    using distinct_card [OF cs(2)] card_mono [of "{''m1''}" "set (map mc_memory_id cs)"] by simp
  moreover have importance: "0 \<le> mo_importance fx_note" by (simp add: fx_note_def)
  ultimately have "\<exists>c \<in> set cs. mc_memory_id c = ''m1'' \<or> (\<exists>u v x. em_embed (hashing_provider (\<lambda>_. 0) DEFAULT_DIM) (mo_content fx_note) = Inr u \<and>
      em_embed (hashing_provider (\<lambda>_. 0) DEFAULT_DIM) (mc_content c) = Inr v \<and> cosine u v = Inr x \<and> COS_DUP \<le> x)"
    using cs(1) s by (intro retrieve_complete [where ops = "[(fx_reader, fx_note)]" and ctx = fx_reader and L = ?L and k = 5 and set_order = id and query = "''tea''" and now = 0])
      (simp_all add: importance N_DENSE_def MAX_CANDIDATES_def)
  then show ?thesis using cs(1) by auto
qed

text \<open>Writing a memory. A write whose importance lies in the unit interval is stored under its
  fresh id in the writer's own tenant and namespace and can be read back, every other id reading
  as before; any other write raises and leaves the store as it was.\<close>

theorem mem_write_outcome:
  "if 0 \<le> importance \<and> importance \<le> 1
   then \<exists>m s'. mem_write inmem ctx content tier importance source source_id metadata ulid clk s = (Inr m, s') \<and>
     in_scope ctx m \<and> mo_content m = content \<and> mo_id m = ulid \<and>
     get_memory ctx i s' = (if i = ulid then Some m else get_memory ctx i s)
   else mem_write inmem ctx content tier importance source source_id metadata ulid clk s =
     (Inl (ValidationError ''importance''), s)"
  by (auto simp: mem_write_def validate_memory_def new_memory_def inmem_def add_memory_def in_scope_def
      get_memory_def split: prod.splits)

end
