(* ===== verification/Budget.thy ===== *)
theory Budget
  imports Models
begin

text \<open>
  \<^verbatim>\<open>assembler/tokenizer.py\<close>, \<^verbatim>\<open>assembler/budget.py\<close> and \<^verbatim>\<open>assembler/weights.py\<close>: token
  counting with its conservative margin, the token budget with its hard reserves, and the ranking
  weights with their validation. A \<^verbatim>\<open>Tokenizer\<close> is the function \<open>count\<close> of the protocol.
\<close>

section \<open>Token counting\<close>

type_synonym tokenizer = "string \<Rightarrow> int"

definition TOKENIZER_SAFETY_MARGIN :: flt where
  "TOKENIZER_SAFETY_MARGIN = lit (8 / 100)"

text \<open>\<^verbatim>\<open>HeuristicTokenizer(chars_per_token).count\<close>.\<close>

definition heuristic_count :: "flt \<Rightarrow> string \<Rightarrow> int result" where
  "heuristic_count cpt text =
     (if text = [] then Inr 0
      else if cpt = 0 then Inl ZeroDivisionError
      else Inr (max 1 (py_ceil (fdiv (flt_of_nat (length text)) cpt))))"

text \<open>The tokenizer built by \<^verbatim>\<open>HeuristicTokenizer()\<close>, four characters per token.\<close>

definition default_count :: tokenizer where
  "default_count text = (case heuristic_count 4 text of Inr n \<Rightarrow> n | Inl _ \<Rightarrow> 0)"

definition conservative_count :: "tokenizer option \<Rightarrow> string \<Rightarrow> flt \<Rightarrow> int" where
  "conservative_count tok text margin =
     (let base = (case tok of None \<Rightarrow> default_count | Some c \<Rightarrow> c) text
      in py_ceil (fmul (flt_of_int base) (fadd 1 margin)))"

lemma heuristic_count_default: "heuristic_count 4 text = Inr (default_count text)"
  by (simp add: default_count_def heuristic_count_def)

lemma default_count_Nil [simp]: "default_count [] = 0"
  by (simp add: default_count_def heuristic_count_def)

lemma default_count_eq:
  assumes "length text \<le> 2 ^ 53"
  shows "default_count text = (int (length text) + 3) div 4"
proof (cases "text = []")
  case False
  define n where "n = int (length text)"
  have n: "1 \<le> n" using False by (simp add: n_def Suc_le_eq)
  have nb: "n \<le> 2 ^ 53" using assms by (simp add: n_def)
  have exact: "flt_of_int n = of_int n" using n nb by (intro flt_of_int_exact) simp
  have div4: "rnd64 (of_int n / 4) = of_int n / 4"
    using rnd64_exact [of n "- 2"] n nb by (simp add: power_int_minus)
  define q where "q = (n + 3) div 4"
  have "4 * q \<le> n + 3" and "n \<le> 4 * q" by (simp_all add: q_def)
  then have "(of_int (4 * q) :: rat) \<le> of_int (n + 3)" and "(of_int n :: rat) \<le> of_int (4 * q)"
    by (simp_all only: of_int_le_iff)
  then have ceil: "\<lceil>of_int n / 4 :: rat\<rceil> = (n + 3) div 4"
    unfolding q_def [symmetric] by (intro ceiling_unique) simp_all
  have "1 \<le> (n + 3) div 4" using n by simp
  then show ?thesis
    using False by (simp add: default_count_def heuristic_count_def fdiv_def py_ceil_def
        exact div4 ceil max_def flip: n_def)
qed simp

lemma default_count_nonneg: "0 \<le> default_count text"
  by (simp add: default_count_def heuristic_count_def le_max_iff_disj)

lemma conservative_ge:
  assumes "0 \<le> margin" and "0 \<le> base" and "base \<le> 2 ^ 53"
  shows "base \<le> py_ceil (fmul (flt_of_int base) (fadd 1 margin))"
proof -
  have b: "flt_of_int base = of_int base" using assms by (intro flt_of_int_exact) simp
  have "1 \<le> fadd 1 margin" using rnd64_mono [of 1 "1 + margin"] assms by (simp add: fadd_def)
  then have "fmul (of_int base) 1 \<le> fmul (of_int base) (fadd 1 margin)"
    using assms by (intro fmul_mono) simp_all
  moreover have "fmul (of_int base) 1 = of_int base"
    using rnd64_of_int [of base] assms by (simp add: fmul_def)
  ultimately have "of_int base \<le> fmul (of_int base) (fadd 1 margin)" by simp
  then have "(of_int base :: rat) \<le> of_int \<lceil>fmul (of_int base) (fadd 1 margin)\<rceil>"
    using le_of_int_ceiling order_trans by blast
  then show ?thesis by (simp add: py_ceil_def b)
qed

section \<open>The token budget\<close>

record token_budget =
  tb_window_tokens :: int
  tb_output_reserve :: int
  tb_system_reserve :: int
  tb_latest_user_reserve :: int

definition hard_floor :: "token_budget \<Rightarrow> int" where
  "hard_floor b = tb_output_reserve b + tb_system_reserve b + tb_latest_user_reserve b"

definition soft_budget :: "token_budget \<Rightarrow> int" where
  "soft_budget b = max 0 (tb_window_tokens b - hard_floor b)"

definition check_hard_reserves :: "token_budget \<Rightarrow> unit result" where
  "check_hard_reserves b =
     (if tb_window_tokens b < hard_floor b
      then Inl (ContextOverflow (hard_floor b) (tb_window_tokens b)) else Inr ())"

lemma check_hard_reserves_Inr [simp]:
  "check_hard_reserves b = Inr u \<longleftrightarrow> hard_floor b \<le> tb_window_tokens b"
  by (auto simp: check_hard_reserves_def)

lemma soft_budget_fits:
  "check_hard_reserves b = Inr u \<Longrightarrow> hard_floor b + soft_budget b = tb_window_tokens b"
  by (simp add: soft_budget_def)

section \<open>Ranking weights\<close>

record rank_weights =
  rw_vector :: flt
  rw_lexical :: flt
  rw_recency :: flt
  rw_importance :: flt
  rw_source :: flt

definition default_weights :: rank_weights where
  "default_weights = \<lparr>rw_vector = lit (40 / 100), rw_lexical = lit (20 / 100),
     rw_recency = lit (15 / 100), rw_importance = lit (15 / 100), rw_source = lit (10 / 100)\<rparr>"

definition weights_total :: "rank_weights \<Rightarrow> flt" where
  "weights_total w = fadd (fadd (fadd (fadd (rw_vector w) (rw_lexical w)) (rw_recency w))
     (rw_importance w)) (rw_source w)"

definition validate_weights :: "rank_weights \<Rightarrow> unit result" where
  "validate_weights w =
     (let total = weights_total w
      in if lit (1 / 1000000) < \<bar>fsub total 1\<bar> then Inl (PolicyError total) else Inr ())"

lemma validate_default_weights: "validate_weights default_weights = Inr ()"
  by code_simp

section \<open>Properties\<close>

text \<open>Token counts err upwards. The default tokenizer counts a quarter of the characters,
  rounded up in exact floating-point arithmetic; the conservative count that the assembler packs
  by is never less.\<close>

theorem conservative_count_bounds:
  assumes "length text \<le> 2 ^ 53"
  shows "default_count text = (int (length text) + 3) div 4 \<and>
    default_count text \<le> conservative_count None text TOKENIZER_SAFETY_MARGIN"
proof -
  have "default_count text \<le> 2 ^ 53" using default_count_eq [OF assms] assms by simp
  moreover have "0 \<le> TOKENIZER_SAFETY_MARGIN" by (simp add: TOKENIZER_SAFETY_MARGIN_def lit_def rnd64_nonneg)
  ultimately have "default_count text \<le> py_ceil (fmul (flt_of_int (default_count text)) (fadd 1 TOKENIZER_SAFETY_MARGIN))"
    using default_count_nonneg by (intro conservative_ge)
  then show ?thesis using default_count_eq [OF assms] by (simp add: conservative_count_def)
qed

lemma conservative_count_bounds_witness:
  "default_count ''hello world'' = 3 \<and> 3 \<le> conservative_count None ''hello world'' TOKENIZER_SAFETY_MARGIN"
  using conservative_count_bounds [of "''hello world''"] by simp

end
