(* ===== verification/Adapters.thy ===== *)
theory Adapters
  imports Models
begin

text \<open>
  \<^verbatim>\<open>adapters/base.py\<close> and \<^verbatim>\<open>adapters/fake.py\<close>: the chat vocabulary, the protocol
  \<^verbatim>\<open>BackendAdapter\<close> and its in-process implementation. What an adapter talks to (a model
  server, the network) is not under \<^verbatim>\<open>src/\<close>: it is the type variable \<open>'w\<close>, threaded through
  every call, so a backend may answer differently each time, or raise.
\<close>

datatype role = SYSTEM | USER | ASSISTANT

fun role_value :: "role \<Rightarrow> string" where
  "role_value SYSTEM = ''system''"
| "role_value USER = ''user''"
| "role_value ASSISTANT = ''assistant''"

lemma role_value_inj: "role_value a = role_value b \<longleftrightarrow> a = b"
  by (cases a; cases b) simp_all

record chat_message =
  cm_role :: role
  cm_content :: string

record chat_request =
  rq_model :: string
  rq_messages :: "chat_message list"
  rq_max_tokens :: int
  rq_temperature :: flt
  rq_stream :: bool
  rq_extra :: "(string, string) dict"

text \<open>\<^verbatim>\<open>ChatRequest(model=..., messages=..., max_tokens=...)\<close>: the other fields default.\<close>

definition mk_request :: "string \<Rightarrow> chat_message list \<Rightarrow> int \<Rightarrow> chat_request" where
  "mk_request model messages max_tokens = \<lparr>rq_model = model, rq_messages = messages,
     rq_max_tokens = max_tokens, rq_temperature = lit (7 / 10), rq_stream = False, rq_extra = []\<rparr>"

record usage =
  us_prompt_tokens :: int
  us_completion_tokens :: int
  us_total_tokens :: int
  us_cost_usd :: flt

definition zero_usage :: usage where
  "zero_usage = \<lparr>us_prompt_tokens = 0, us_completion_tokens = 0, us_total_tokens = 0, us_cost_usd = 0\<rparr>"

record chat_response =
  rs_text :: string
  rs_model :: string
  rs_finish_reason :: "string option"
  rs_usage :: usage

datatype stream_event_type = TOKEN | USAGE | DONE | ERROR

record stream_event =
  se_type :: stream_event_type
  se_data :: string
  se_finish_reason :: "string option"

record capabilities =
  cap_streaming :: bool
  cap_max_context_tokens :: int
  cap_supports_system_prompt :: bool
  cap_prefix_cache :: bool

definition default_capabilities :: capabilities where
  "default_capabilities = \<lparr>cap_streaming = True, cap_max_context_tokens = 8192,
     cap_supports_system_prompt = True, cap_prefix_cache = False\<rparr>"

record 'w adapter =
  ad_name :: string
  ad_capabilities :: capabilities
  ad_health_check :: "'w \<Rightarrow> bool \<times> 'w"
  ad_generate :: "chat_request \<Rightarrow> 'w \<Rightarrow> chat_response result \<times> 'w"

section \<open>FakeAdapter\<close>

definition count_words :: "string \<Rightarrow> int" where
  "count_words s = int (length (split_ws s))"

definition fake_generate :: "string \<Rightarrow> chat_request \<Rightarrow> chat_response" where
  "fake_generate reply req =
     (let prompt_tokens = sum_list (map (\<lambda>m. count_words (cm_content m)) (rq_messages req));
          completion_tokens = count_words reply
      in \<lparr>rs_text = reply,
          rs_model = (if rq_model req = [] then ''fake-1'' else rq_model req),
          rs_finish_reason = Some ''stop'',
          rs_usage = \<lparr>us_prompt_tokens = prompt_tokens, us_completion_tokens = completion_tokens,
            us_total_tokens = prompt_tokens + completion_tokens, us_cost_usd = 0\<rparr>\<rparr>)"

definition fake_stream :: "string \<Rightarrow> stream_event list" where
  "fake_stream reply =
     map (\<lambda>tok. \<lparr>se_type = TOKEN, se_data = tok @ '' '', se_finish_reason = None\<rparr>) (split_ws reply)
     @ [\<lparr>se_type = DONE, se_data = '''', se_finish_reason = Some ''stop''\<rparr>]"

definition fake_adapter :: "string \<Rightarrow> 'w adapter" where
  "fake_adapter reply = \<lparr>ad_name = ''fake'',
     ad_capabilities = default_capabilities\<lparr>cap_prefix_cache := True\<rparr>,
     ad_health_check = (\<lambda>w. (True, w)),
     ad_generate = (\<lambda>req w. (Inr (fake_generate reply req), w))\<rparr>"

definition DEFAULT_REPLY :: string where
  "DEFAULT_REPLY = ''This is a deterministic test reply.''"

end
