(* ===== verification/Fixtures.thy ===== *)
theory Fixtures
  imports Memory Budget Adapters
begin

text \<open>
  Small concrete values for the witnesses, in the manner of the repository's unit tests: a context
  resolved for a tenant and a user, a stored memory, a retrieved candidate, a policy, a C library
  whose functions are the simplest with the documented shape.
\<close>

definition fx_ctx :: "string \<Rightarrow> string \<Rightarrow> security_context" where
  "fx_ctx tenant ns = \<lparr>ctx_tenant_id = tenant,
     ctx_principal = \<lparr>pc_id = ''u'', pc_tenant_id = tenant, pc_roles = [],
       pc_attributes = [(''namespace'', ns)]\<rparr>,
     ctx_namespace = ns, ctx_request_id = ''r''\<rparr>"

lemma fx_ctx_simps [simp]:
  "ctx_tenant_id (fx_ctx t n) = t" "ctx_namespace (fx_ctx t n) = n"
  by (simp_all add: fx_ctx_def)

definition fx_memory :: "string \<Rightarrow> string \<Rightarrow> string \<Rightarrow> string \<Rightarrow> memory_object" where
  "fx_memory tenant ns mid content = \<lparr>mo_id = mid, mo_tenant_id = tenant, mo_namespace = ns,
     mo_tier = memory_tier.SEMANTIC, mo_content = content, mo_embedding_ref = None,
     mo_importance = 1 / 2, mo_created_at = 0, mo_last_accessed_at = 0,
     mo_provenance = \<lparr>pv_source = ''chat'', pv_source_id = None, pv_ingested_at = 0\<rparr>,
     mo_metadata = []\<rparr>"

lemma fx_memory_simps [simp]:
  "mo_id (fx_memory t n i c) = i" "mo_tenant_id (fx_memory t n i c) = t"
  "mo_namespace (fx_memory t n i c) = n" "mo_content (fx_memory t n i c) = c"
  by (simp_all add: fx_memory_def)

definition fx_candidate :: "string \<Rightarrow> string \<Rightarrow> flt \<Rightarrow> memory_candidate" where
  "fx_candidate mid content vec = \<lparr>mc_memory_id = mid, mc_tenant_id = ''acme'',
     mc_namespace = ''user:1'', mc_tier = memory_tier.SEMANTIC, mc_content = content,
     mc_vector_score = Some vec, mc_bm25_score = None, mc_rrf_score = 0, mc_recency_factor = 1,
     mc_importance = 1 / 2, mc_rank_in_dense = Some 1, mc_rank_in_sparse = None,
     mc_age_seconds = 0, mc_source_ref = None\<rparr>"

lemma fx_candidate_simps [simp]:
  "mc_memory_id (fx_candidate i c v) = i" "mc_content (fx_candidate i c v) = c"
  "mc_vector_score (fx_candidate i c v) = Some v" "mc_bm25_score (fx_candidate i c v) = None"
  "mc_recency_factor (fx_candidate i c v) = 1" "mc_importance (fx_candidate i c v) = 1 / 2"
  by (simp_all add: fx_candidate_def)

definition fx_budget :: "int \<Rightarrow> int \<Rightarrow> int \<Rightarrow> int \<Rightarrow> token_budget" where
  "fx_budget window output system user = \<lparr>tb_window_tokens = window, tb_output_reserve = output,
     tb_system_reserve = system, tb_latest_user_reserve = user\<rparr>"

lemma fx_budget_simps [simp]:
  "tb_window_tokens (fx_budget w out s u) = w" "tb_output_reserve (fx_budget w out s u) = out"
  "tb_system_reserve (fx_budget w out s u) = s" "tb_latest_user_reserve (fx_budget w out s u) = u"
  "hard_floor (fx_budget w out s u) = out + s + u"
  by (simp_all add: fx_budget_def hard_floor_def)

text \<open>A digest that sends every token to the same bucket, and the exact decimal count of
  characters as tokenizer.\<close>

definition fx_blake :: "string \<Rightarrow> 64 word" where
  "fx_blake tok = 0"

definition fx_libm :: libm where
  "fx_libm = \<lparr>pow_half = (\<lambda>y. if y \<le> 0 then 1 else 1 / 2), log_nat = (\<lambda>x. x - 1)\<rparr>"

definition fx_count :: tokenizer where
  "fx_count text = int (length text)"

end
