(* ===== verification/Compressor.thy ===== *)
theory Compressor
  imports Fixtures
begin

text \<open>
  \<^verbatim>\<open>compressor/engine.py\<close> and \<^verbatim>\<open>compressor/guard.py\<close>. The structural tier collapses blanks,
  the extractive tier keeps whole sentences, the abstractive tier asks a model; the guard compares
  the \<open>facts\<close> (tokens with a digit) of a compressed text with those of the original. The
  lemmas show that the first two tiers only ever select facts, so the guard always lets them
  through, and that a text the guard rejects is never returned.
\<close>

section \<open>The guard\<close>

text \<open>\<^verbatim>\<open>[\w-]\<close> on ASCII text.\<close>

definition is_fact_char :: "char \<Rightarrow> bool" where
  "is_fact_char c = (is_lower c \<or> is_upper c \<or> is_digit c \<or> c = CHR ''_'' \<or> c = CHR ''-'')"

definition facts :: "string \<Rightarrow> string set" where
  "facts text = set (filter (list_ex is_digit) (runs is_fact_char (lower text)))"

definition fact_retention_ok :: "string \<Rightarrow> string \<Rightarrow> bool" where
  "fact_retention_ok original compressed = (facts compressed \<subseteq> facts original)"

section \<open>The structural tier\<close>

definition is_newline :: "char \<Rightarrow> bool" where
  "is_newline c = (code c = 10)"

text \<open>\<^verbatim>\<open>_WS.sub(" ", text)\<close> with \<^verbatim>\<open>_WS = [ \t]+\<close>; the flag says whether the scan is
  inside a run.\<close>

definition is_blank :: "char \<Rightarrow> bool" where
  "is_blank c = (c = CHR '' '' \<or> code c = 9)"

fun sub_ws :: "bool \<Rightarrow> string \<Rightarrow> string" where
  "sub_ws inside [] = []"
| "sub_ws inside (c # cs) =
     (if is_blank c then (if inside then sub_ws True cs else CHR '' '' # sub_ws True cs)
      else c # sub_ws False cs)"

text \<open>\<^verbatim>\<open>_BLANK.sub("\n\n", ...)\<close> with \<^verbatim>\<open>_BLANK = \n{3,}\<close>: a run of line ends keeps its
  first two; the argument counts those already kept.\<close>

fun sub_blank :: "nat \<Rightarrow> string \<Rightarrow> string" where
  "sub_blank n [] = []"
| "sub_blank n (c # cs) =
     (if is_newline c then (if n < 2 then c # sub_blank (Suc n) cs else sub_blank n cs)
      else c # sub_blank 0 cs)"

definition structural :: "string \<Rightarrow> string" where
  "structural text = strip (sub_blank 0 (sub_ws False text))"

section \<open>The extractive tier\<close>

definition is_term :: "char \<Rightarrow> bool" where
  "is_term c = (c = CHR ''.'' \<or> c = CHR ''!'' \<or> c = CHR ''?'')"

text \<open>\<^verbatim>\<open>re.findall(r"[^.!?]+[.!?]?", text)\<close>.\<close>

function sent_findall :: "string \<Rightarrow> string list" where
  "sent_findall s =
     (let r = dropWhile is_term s;
          body = takeWhile (\<lambda>c. \<not> is_term c) r
      in case dropWhile (\<lambda>c. \<not> is_term c) r of
           [] \<Rightarrow> (if body = [] then [] else [body])
         | t # rest \<Rightarrow> (body @ [t]) # sent_findall rest)"
  by pat_completeness auto
termination
proof (relation "measure length")
  fix s r body t rest
  assume r: "r = dropWhile is_term s" and e: "dropWhile (\<lambda>c. \<not> is_term c) r = t # rest"
  have "length (t # rest) \<le> length r" using length_dropWhile_le [of _ r] by (metis e)
  then show "(rest, s) \<in> measure length"
    using length_dropWhile_le [of is_term s] by (simp add: r)
qed simp

declare sent_findall.simps [simp del]

definition sentences :: "string \<Rightarrow> string list" where
  "sentences text = filter (\<lambda>s. s \<noteq> []) (map strip (sent_findall text))"

definition sentence_score :: "string set \<Rightarrow> nat \<Rightarrow> string \<Rightarrow> flt" where
  "sentence_score q i s =
     fadd (if q = {} then 0 else flt_of_nat (card (set (tokenize s) \<inter> q)))
       (fdiv (lit (1 / 10)) (flt_of_int (int i + 1)))"

definition score_sentences :: "string set \<Rightarrow> string list \<Rightarrow> (nat \<times> string \<times> flt) list" where
  "score_sentences q ss = map (\<lambda>(i, s). (i, s, sentence_score q i s)) (enumerate 0 ss)"

text \<open>The greedy loop; \<open>kept\<close> is its set of positions.\<close>

fun keep_loop ::
  "tokenizer \<Rightarrow> int \<Rightarrow> (nat \<times> string \<times> flt) list \<Rightarrow> nat set \<Rightarrow> int \<Rightarrow> nat set" where
  "keep_loop cnt target [] kept used = kept"
| "keep_loop cnt target ((i, s, sc) # rest) kept used =
     (let t = cnt s
      in if target < used + t \<and> kept \<noteq> {} then keep_loop cnt target rest kept used
         else if target \<le> used + t then insert i kept
         else keep_loop cnt target rest (insert i kept) (used + t))"

definition extractive :: "string \<Rightarrow> int \<Rightarrow> tokenizer \<Rightarrow> string option \<Rightarrow> string" where
  "extractive text target cnt query =
     (let ss = sentences text
      in if ss = [] then text
         else let q = (case query of None \<Rightarrow> {} | Some s \<Rightarrow> set (tokenize s));
                  scored = score_sentences q ss;
                  kept = keep_loop cnt target (sorted_desc (\<lambda>x. snd (snd x)) scored) {} 0
              in join '' '' (map (\<lambda>(i, s, _). s) (filter (\<lambda>(i, s, _). i \<in> kept) scored)))"

section \<open>The abstractive tier\<close>

definition SUMMARIZE :: "int \<Rightarrow> string \<Rightarrow> string" where
  "SUMMARIZE target text =
     ''Summarize the context below in at most '' @ str_of_int (max 1 target) @
     '' tokens. Preserve every number, identifier, and named entity verbatim; do not invent facts.''
     @ [CHR 0x0A, CHR 0x0A] @ text"

definition abstractive :: "string \<Rightarrow> int \<Rightarrow> 'w adapter \<Rightarrow> 'w \<Rightarrow> string option \<times> 'w" where
  "abstractive text target llm w =
     (case ad_generate llm (mk_request ''compressor''
         [\<lparr>cm_role = USER, cm_content = SUMMARIZE target text\<rparr>] (max 64 (target * 2))) w of
        (Inl e, w') \<Rightarrow> (None, w')
      | (Inr resp, w') \<Rightarrow> (Some (strip (rs_text resp)), w'))"

section \<open>Compression\<close>

record compressed_block =
  cb_text :: string
  cb_original_tokens :: int
  cb_compressed_tokens :: int
  cb_tier :: string
  cb_guard_passed :: bool

definition cb_ratio :: "compressed_block \<Rightarrow> flt" where
  "cb_ratio b = (if cb_compressed_tokens b \<noteq> 0
     then int_truediv (cb_original_tokens b) (cb_compressed_tokens b) else 1)"

definition mk_block :: "string \<Rightarrow> int \<Rightarrow> int \<Rightarrow> string \<Rightarrow> bool \<Rightarrow> compressed_block" where
  "mk_block text orig toks tier ok = \<lparr>cb_text = text, cb_original_tokens = orig,
     cb_compressed_tokens = toks, cb_tier = tier, cb_guard_passed = ok\<rparr>"

definition compress ::
  "string \<Rightarrow> int \<Rightarrow> tokenizer \<Rightarrow> string option \<Rightarrow> 'w adapter option \<Rightarrow> 'w \<Rightarrow>
   compressed_block \<times> 'w" where
  "compress text target cnt query llm w =
     (let orig = cnt text; st = structural text; s_tok = cnt st
      in if s_tok \<le> target
         then (mk_block st orig s_tok (if st \<noteq> text then ''structural'' else ''none'') True, w)
         else let ex = extractive st target cnt query
              in if \<not> fact_retention_ok text ex then (mk_block st orig s_tok ''structural'' False, w)
                 else let e_tok = cnt ex; fallback = mk_block ex orig e_tok ''extractive'' True
                      in case llm of
                           None \<Rightarrow> (fallback, w)
                         | Some a \<Rightarrow>
                             if e_tok \<le> target then (fallback, w)
                             else (case abstractive st target a w of
                                 (None, w') \<Rightarrow> (fallback, w')
                               | (Some ab, w') \<Rightarrow>
                                   if ab \<noteq> [] \<and> fact_retention_ok text ab \<and> cnt ab \<le> e_tok
                                   then (mk_block ab orig (cnt ab) ''abstractive'' True, w')
                                   else (fallback, w')))"

section \<open>The first two tiers only select facts\<close>

lemma is_fact_char_lower: "is_fact_char (lower_char c) = is_fact_char c"
  by (auto simp: is_fact_char_def is_lower_def is_upper_def is_digit_def code_lower_char)
    (auto simp: lower_char_def is_upper_def code_def split: if_splits)

lemma facts_eq: "facts text = lower ` {r \<in> set (runs is_fact_char text). list_ex is_digit r}"
proof -
  have "is_fact_char \<circ> lower_char = is_fact_char" by (auto simp: is_fact_char_lower)
  then have "runs is_fact_char (lower text) = map lower (runs is_fact_char text)"
    using runs_map [of is_fact_char lower_char "text"] unfolding lower_def by (simp add: lower_def [abs_def])
  moreover have "list_ex is_digit (lower r) = list_ex is_digit r" for r
    by (induction r) simp_all
  ultimately show ?thesis by (auto simp: facts_def)
qed

lemma facts_mono: "set (runs is_fact_char s) \<subseteq> set (runs is_fact_char t) \<Longrightarrow> facts s \<subseteq> facts t"
  by (auto simp: facts_eq)

lemma not_fact_char:
  "is_space c \<Longrightarrow> \<not> is_fact_char c" "is_blank c \<Longrightarrow> \<not> is_fact_char c"
  "is_newline c \<Longrightarrow> \<not> is_fact_char c" "is_term c \<Longrightarrow> \<not> is_fact_char c"
  by (auto simp: is_fact_char_def is_blank_def is_newline_def is_term_def is_space_def is_lower_def
      is_upper_def is_digit_def code_def)

lemma runs_sub_ws:
  "runs is_fact_char (pre @ sub_ws False s) = runs is_fact_char (pre @ s) \<and>
   runs is_fact_char (sub_ws True s) = runs is_fact_char s"
proof (induction s arbitrary: pre)
  case (Cons c s)
  have sp: "\<not> is_fact_char (CHR '' '')" by (intro not_fact_char) (simp add: is_blank_def)
  show ?case
    using Cons [of "pre @ [c]"] Cons [of "[c]"] Cons [of "[]"] sp
    by (cases "is_blank c") (simp_all add: runs_sep not_fact_char)
qed simp

lemma runs_sub_blank:
  "pre = [] \<or> n < 2 \<Longrightarrow> runs is_fact_char (pre @ sub_blank n s) = runs is_fact_char (pre @ s)"
proof (induction s arbitrary: pre n)
  case (Cons c s)
  show ?case
    using Cons.IH [of "pre @ [c]" 0] Cons.IH [of "[]" "Suc n"] Cons.IH [of "[]" n] Cons.prems
    by (cases "is_newline c") (auto simp: runs_sep not_fact_char)
qed simp

lemma runs_structural: "runs is_fact_char (structural text) = runs is_fact_char text"
  using runs_sub_ws [of "[]" "text"] runs_sub_blank [of "[]" 0 "sub_ws False text"]
  by (simp add: structural_def runs_strip not_fact_char)

lemma runs_sent_findall: "concat (map (runs is_fact_char) (sent_findall s)) = runs is_fact_char s"
proof (induction s rule: sent_findall.induct)
  case (1 s)
  let ?r = "dropWhile is_term s"
  let ?body = "takeWhile (\<lambda>c. \<not> is_term c) ?r"
  have s: "runs is_fact_char ?r = runs is_fact_char s"
    by (rule runs_dropWhile) (simp add: not_fact_char)
  show ?case
  proof (cases "dropWhile (\<lambda>c. \<not> is_term c) ?r")
    case Nil
    then have "?body = ?r" by (metis append_Nil2 takeWhile_dropWhile_id)
    then show ?thesis unfolding sent_findall.simps [of s] Let_def Nil list.case using s
      by (cases "?r = []") (simp_all only: runs.simps if_True if_False list.map concat.simps append_Nil2 simp_thms)
  next
    case (Cons t rest)
    have t: "is_term t" using hd_dropWhile [of "\<lambda>c. \<not> is_term c" ?r] Cons by simp
    have "?r = ?body @ t # rest" by (metis Cons takeWhile_dropWhile_id)
    then have "runs is_fact_char s = runs is_fact_char ?body @ runs is_fact_char rest"
      using s runs_sep [of is_fact_char t ?body rest] not_fact_char(4) [OF t] by metis
    moreover have "runs is_fact_char (?body @ [t]) = runs is_fact_char ?body"
      using not_fact_char(4) [OF t] by (simp add: runs_append_none)
    ultimately show ?thesis using "1.IH" [OF refl refl Cons] Cons
      by (simp add: sent_findall.simps [of s] Let_def)
  qed
qed

lemma runs_sentences: "concat (map (runs is_fact_char) (sentences text)) = runs is_fact_char text"
proof -
  have "concat (map (runs is_fact_char) (filter (\<lambda>s. s \<noteq> []) ss)) = concat (map (runs is_fact_char) ss)" for ss
    by (induction ss) auto
  then show ?thesis
    by (simp add: sentences_def comp_def runs_strip not_fact_char runs_sent_findall)
qed

section \<open>The greedy loop stays within the target\<close>

abbreviation sent_tokens :: "tokenizer \<Rightarrow> (nat \<times> string \<times> flt) list \<Rightarrow> int" where
  "sent_tokens cnt zs \<equiv> sum_list (map (\<lambda>x. cnt (fst (snd x))) zs)"

lemma keep_loop_within:
  "kept \<noteq> {} \<Longrightarrow> used \<le> target \<Longrightarrow>
   \<exists>zs. subseq zs xs \<and> keep_loop cnt target xs kept used = kept \<union> fst ` set zs \<and>
     used + sent_tokens cnt zs \<le> target"
proof (induction cnt target xs kept used rule: keep_loop.induct)
  case (1 cnt target kept used)
  then show ?case by (intro exI [of _ "[]"]) simp
next
  case (2 cnt target i s sc rest kept used)
  consider (skip) "target < used + cnt s" | (last) "used + cnt s \<le> target" "target \<le> used + cnt s"
    | (take) "used + cnt s < target" by linarith
  then show ?case
  proof cases
    case skip
    then obtain zs where "subseq zs rest" "keep_loop cnt target rest kept used = kept \<union> fst ` set zs"
      "used + sent_tokens cnt zs \<le> target"
      using 2 by (auto simp: Let_def)
    then show ?thesis using skip "2.prems" by (intro exI [of _ zs]) (simp add: Let_def list_emb_Cons)
  next
    case last
    then show ?thesis using 2 by (intro exI [of _ "[(i, s, sc)]"]) simp
  next
    case take
    then obtain zs where "subseq zs rest"
      "keep_loop cnt target rest (insert i kept) (used + cnt s) = insert i kept \<union> fst ` set zs"
      "used + cnt s + sent_tokens cnt zs \<le> target"
      using 2 by (fastforce simp: Let_def)
    then show ?thesis using take by (intro exI [of _ "(i, s, sc) # zs"]) (auto simp: Let_def)
  qed
qed

lemma keep_loop_start:
  assumes "xs \<noteq> []"
  obtains zs where "subseq zs xs" and "keep_loop cnt target xs {} 0 = fst ` set zs" and "zs \<noteq> []"
    and "sent_tokens cnt zs \<le> target \<or> length zs = 1"
proof -
  obtain i s sc rest where xs: "xs = (i, s, sc) # rest" using assms by (cases xs) auto
  show thesis
  proof (cases "target \<le> cnt s")
    case True
    then show thesis using that [of "[(i, s, sc)]"] by (simp add: xs Let_def)
  next
    case False
    then obtain zs where "subseq zs rest" "keep_loop cnt target rest {i} (cnt s) = {i} \<union> fst ` set zs"
      "cnt s + sent_tokens cnt zs \<le> target"
      using keep_loop_within [of "{i}" "cnt s" target rest cnt] by auto
    then show thesis using that [of "(i, s, sc) # zs"] False by (simp add: xs Let_def)
  qed
qed

lemma filter_keys_mset:
  assumes "distinct (map f xs)" and "mset zs \<subseteq># mset xs"
  shows "mset (filter (\<lambda>x. f x \<in> f ` set zs) xs) = mset zs"
proof -
  have dx: "distinct xs" using assms(1) by (simp add: distinct_map)
  have sub: "set zs \<subseteq> set xs" using set_mset_mono [OF assms(2)] by simp
  have inj: "inj_on f (set xs)" using assms(1) by (simp add: distinct_map)
  have "set (filter (\<lambda>x. f x \<in> f ` set zs) xs) = set zs"
    using sub inj by (auto dest: inj_onD)
  moreover have "distinct zs" by (rule distinct_submset [OF assms(2) dx])
  ultimately show ?thesis using dx by (metis distinct_filter set_eq_iff_mset_eq_distinct)
qed

lemma score_sentences_nth:
  "map (\<lambda>x. fst (snd x)) (score_sentences q ss) = ss"
  "map fst (score_sentences q ss) = [0..<length ss]"
  by (simp_all add: score_sentences_def split_def comp_def flip: enumerate_eq_zip)

lemma fx_count_facts: "facts ''ticket INC-42, 1.5 GB'' = {''inc-42'', ''1'', ''5''}"
  unfolding facts_def by code_simp

section \<open>Properties\<close>

lemma extractive_spec:
  assumes "sentences text \<noteq> []"
  obtains ys where "extractive text target cnt query = join '' '' ys" and "subseq ys (sentences text)"
    and "ys \<noteq> []" and "sum_list (map cnt ys) \<le> target \<or> length ys = 1"
proof -
  define q where "q = (case query of None \<Rightarrow> {} | Some s \<Rightarrow> set (tokenize s))"
  let ?sc = "score_sentences q (sentences text)"
  let ?K = "keep_loop cnt target (sorted_desc (\<lambda>x. snd (snd x)) ?sc) {} 0"
  let ?keep = "filter (\<lambda>x. fst x \<in> ?K) ?sc"
  have "?sc \<noteq> []" using assms score_sentences_nth(1) [of q "sentences text"] by fastforce
  then have ne: "sorted_desc (\<lambda>x. snd (snd x)) ?sc \<noteq> []" by (metis length_0_conv length_sorted_desc)
  obtain zs where zs: "subseq zs (sorted_desc (\<lambda>x. snd (snd x)) ?sc)" "?K = fst ` set zs" "zs \<noteq> []"
    "sent_tokens cnt zs \<le> target \<or> length zs = 1"
    by (rule keep_loop_start [OF ne, of cnt target])
  have "mset zs \<subseteq># mset ?sc" using subseq_submset [OF zs(1)] by simp
  moreover have "distinct (map fst ?sc)" by (simp add: score_sentences_nth)
  ultimately have ms: "mset ?keep = mset zs" unfolding zs(2) by (intro filter_keys_mset)
  define ys where "ys = map (\<lambda>x. fst (snd x)) ?keep"
  have "extractive text target cnt query = join '' '' ys"
    using assms by (simp add: extractive_def Let_def ys_def q_def split_def)
  moreover have "subseq ys (sentences text)"
    unfolding ys_def using subseq_map [OF subseq_filter_left] score_sentences_nth(1) by metis
  moreover have len: "length ys = length zs" unfolding ys_def using mset_eq_length [OF ms] by simp
  moreover have "ys \<noteq> []" using len zs(3) by auto
  moreover have "sum_list (map cnt ys) = sent_tokens cnt zs"
    unfolding ys_def map_map comp_def
    by (simp only: ms mset_map flip: sum_mset_sum_list)
  ultimately show thesis using that zs(4) by metis
qed

lemma extractive_facts: "facts (extractive text target cnt query) \<subseteq> facts text"
proof (cases "sentences text = []")
  case False
  then obtain ys where ys: "extractive text target cnt query = join '' '' ys" "subseq ys (sentences text)"
    by (rule extractive_spec)
  have sp: "\<not> is_fact_char (CHR '' '')" by (intro not_fact_char) (simp add: is_blank_def)
  have "set ys \<subseteq> set (sentences text)" using subseq_submset [OF ys(2)] set_mset_mono by fastforce
  then have "set (runs is_fact_char (join '' '' ys)) \<subseteq> set (concat (map (runs is_fact_char) (sentences text)))"
    unfolding runs_join [of is_fact_char, OF sp] by auto
  then show ?thesis unfolding ys(1) runs_sentences by (rule facts_mono)
qed (simp add: extractive_def)

lemma structural_facts: "facts (structural text) = facts text"
  by (simp add: facts_eq runs_structural)

lemma extractive_guard: "fact_retention_ok text (extractive (structural text) target cnt query)"
  using extractive_facts [of "structural text"] by (simp add: fact_retention_ok_def structural_facts)

lemma compress_guarded:
  "facts (cb_text (fst (compress text target cnt query llm w))) \<subseteq> facts text"
proof -
  have e: "facts (extractive (structural text) target cnt query) \<subseteq> facts text"
    using extractive_guard by (simp add: fact_retention_ok_def)
  show ?thesis
    unfolding compress_def Let_def
    by (auto simp: mk_block_def extractive_guard structural_facts
        fact_retention_ok_def split: option.splits prod.splits if_splits dest: subsetD [OF e])
qed


text \<open>C35: The extractive tier keeps whole sentences in their order, at least one, and together
  within the target unless a single sentence already exceeds it.\<close>

theorem extractive_within_target:
  assumes "sentences text \<noteq> []"
  shows "\<exists>ys. extractive text target cnt query = join '' '' ys \<and> subseq ys (sentences text) \<and>
    ys \<noteq> [] \<and> (sum_list (map cnt ys) \<le> target \<or> length ys = 1)"
  using extractive_spec [OF assms] by metis

lemma extractive_within_target_witness:
  "\<exists>ys. extractive ''Rome is far. Tea is hot!'' 12 fx_count None = join '' '' ys \<and> ys \<noteq> []"
proof -
  have "sentences ''Rome is far. Tea is hot!'' \<noteq> []" by code_simp
  then show ?thesis using extractive_within_target by blast
qed

text \<open>The model can only help. With a model the result is never longer than without one, and a
  model that raises leaves the result of the other tiers.\<close>

theorem compress_fail_safe:
  "cb_compressed_tokens (fst (compress text target cnt query (Some a) w))
      \<le> cb_compressed_tokens (fst (compress text target cnt query None w')) \<and>
   (case ad_generate a (mk_request ''compressor'' [\<lparr>cm_role = USER,
        cm_content = SUMMARIZE target (structural text)\<rparr>] (max 64 (target * 2))) w of
      (Inr resp, _) \<Rightarrow> True
    | (Inl e, _) \<Rightarrow> fst (compress text target cnt query (Some a) w) = fst (compress text target cnt query None w'))"
  by (auto simp: compress_def abstractive_def mk_block_def Let_def split: prod.splits sum.splits option.splits)

end
