(* ===== verification/Cache.thy ===== *)
theory Cache
  imports Fixtures
begin

text \<open>
  \<^verbatim>\<open>cache/keys.py\<close>, \<^verbatim>\<open>cache/backend.py\<close> and \<^verbatim>\<open>cache/engine.py\<close>: the two-tier semantic cache.
  \<open>hashlib.sha256(...).hexdigest()\<close> is the parameter \<open>sha\<close>; the theorems that need it ask only
  that the strings at hand do not collide. The protocol \<^verbatim>\<open>CacheBackend\<close> is a record of
  operations that may raise; the locale \<open>cache_backend_laws\<close> is its contract, which the in-memory
  backend interprets. A clock that is read several times by one call is a sequence of readings.
\<close>

section \<open>Keys\<close>

definition SEP :: char where
  "SEP = CHR 0x1F"

definition normalize_query :: "string \<Rightarrow> string" where
  "normalize_query query = join '' '' (split_ws (lower query))"

definition sha_parts :: "(string \<Rightarrow> string) \<Rightarrow> string list \<Rightarrow> string" where
  "sha_parts sha parts = sha (join [SEP] parts)"

definition prefilter_sig ::
  "(string \<Rightarrow> string) \<Rightarrow> string \<Rightarrow> string \<Rightarrow> string \<Rightarrow> string \<Rightarrow> string \<Rightarrow> string" where
  "prefilter_sig sha tenant_id namespace model_id spv sfv =
     sha_parts sha [tenant_id, namespace, model_id, spv, sfv]"

definition exact_sig ::
  "(string \<Rightarrow> string) \<Rightarrow> string \<Rightarrow> string \<Rightarrow> string \<Rightarrow> string \<Rightarrow> string \<Rightarrow> string \<Rightarrow> string" where
  "exact_sig sha tenant_id namespace model_id spv sfv query =
     sha_parts sha [prefilter_sig sha tenant_id namespace model_id spv sfv, normalize_query query]"

section \<open>The backend\<close>

record stored_entry =
  st_entry :: cache_entry
  st_embedding :: "flt list"
  st_response_text :: string
  st_expires_at :: int

record 'c cache_backend =
  kb_get_exact :: "string \<Rightarrow> string \<Rightarrow> int \<Rightarrow> 'c \<Rightarrow> stored_entry option result"
  kb_search_semantic ::
    "string \<Rightarrow> string \<Rightarrow> flt list \<Rightarrow> flt \<Rightarrow> (nat \<Rightarrow> int) \<Rightarrow> 'c \<Rightarrow> (stored_entry \<times> flt) option result"
  kb_put :: "stored_entry \<Rightarrow> 'c \<Rightarrow> unit result \<times> 'c"

definition live :: "int \<Rightarrow> stored_entry \<Rightarrow> bool" where
  "live now s = (now < st_expires_at s)"

type_synonym cache_store = "stored_entry tdict"

definition get_exact :: "string \<Rightarrow> string \<Rightarrow> int \<Rightarrow> cache_store \<Rightarrow> stored_entry option" where
  "get_exact tenant_id key now c =
     (case dget (part c tenant_id) key of
        None \<Rightarrow> None
      | Some s \<Rightarrow> if live now s then Some s else None)"

fun sem_scan ::
  "(nat \<Rightarrow> int) \<Rightarrow> string \<Rightarrow> flt list \<Rightarrow> flt \<Rightarrow> (nat \<times> stored_entry) list \<Rightarrow>
   stored_entry option \<Rightarrow> flt \<Rightarrow> (stored_entry \<times> flt) option result" where
  "sem_scan clk pre emb thr [] best best_sim =
     Inr (case best of None \<Rightarrow> None | Some b \<Rightarrow> Some (b, best_sim))"
| "sem_scan clk pre emb thr ((i, s) # rest) best best_sim =
     (if \<not> live (clk i) s \<or> ce_fingerprint (st_entry s) \<noteq> pre
      then sem_scan clk pre emb thr rest best best_sim
      else bnd (cosine emb (st_embedding s)) (\<lambda>sim.
        if thr \<le> sim \<and> best_sim < sim then sem_scan clk pre emb thr rest (Some s) sim
        else sem_scan clk pre emb thr rest best best_sim))"

definition search_semantic ::
  "string \<Rightarrow> string \<Rightarrow> flt list \<Rightarrow> flt \<Rightarrow> (nat \<Rightarrow> int) \<Rightarrow> cache_store \<Rightarrow>
   (stored_entry \<times> flt) option result" where
  "search_semantic tenant_id pre emb thr clk c =
     sem_scan clk pre emb thr (enumerate 0 (dvalues (part c tenant_id))) None (- 1)"

definition cache_put :: "stored_entry \<Rightarrow> cache_store \<Rightarrow> cache_store" where
  "cache_put s c = tput (ce_tenant_id (st_entry s)) (ce_key (st_entry s)) s c"

definition mem_cache :: "cache_store cache_backend" where
  "mem_cache = \<lparr>kb_get_exact = (\<lambda>t k now c. Inr (get_exact t k now c)),
     kb_search_semantic = search_semantic, kb_put = (\<lambda>s c. (Inr (), cache_put s c))\<rparr>"

section \<open>The engine\<close>

definition DEFAULT_TAU :: flt where "DEFAULT_TAU = lit (92 / 100)"

definition DEFAULT_TTL_SECONDS :: int where "DEFAULT_TTL_SECONDS = 86400"

record cache_hit =
  ch_response_text :: string
  ch_tier :: string
  ch_similarity :: flt
  ch_key :: string

text \<open>Instants are microseconds since 1970; \<^verbatim>\<open>datetime\<close> ends with the year 9999.\<close>

definition DATETIME_MAX :: int where "DATETIME_MAX = 253402300799999999"

definition DATETIME_MIN :: int where "DATETIME_MIN = - 62135596800000000"

definition add_seconds :: "int \<Rightarrow> int \<Rightarrow> int result" where
  "add_seconds t s =
     (if DATETIME_MIN \<le> t + s * 1000000 \<and> t + s * 1000000 \<le> DATETIME_MAX then Inr (t + s * 1000000)
      else Inl (OverflowError ''date value out of range''))"

definition lookup ::
  "'c cache_backend \<Rightarrow> (string \<Rightarrow> string) \<Rightarrow> embedder \<Rightarrow> flt \<Rightarrow> security_context \<Rightarrow> string \<Rightarrow> string \<Rightarrow>
   string \<Rightarrow> string \<Rightarrow> (nat \<Rightarrow> int) \<Rightarrow> 'c \<Rightarrow> cache_hit option" where
  "lookup K sha E thr ctx query model_id spv sfv clk c =
     (let pre = prefilter_sig sha (ctx_tenant_id ctx) (ctx_namespace ctx) model_id spv sfv;
          ekey = exact_sig sha (ctx_tenant_id ctx) (ctx_namespace ctx) model_id spv sfv query
      in case bnd (kb_get_exact K (ctx_tenant_id ctx) ekey (clk 0) c) (\<lambda>exact.
           case exact of
             Some s \<Rightarrow> Inr (Some \<lparr>ch_response_text = st_response_text s, ch_tier = ''exact'',
                 ch_similarity = 1, ch_key = ekey\<rparr>)
           | None \<Rightarrow>
               bnd (em_embed E (normalize_query query)) (\<lambda>emb.
               bnd (kb_search_semantic K (ctx_tenant_id ctx) pre emb thr (\<lambda>i. clk (Suc i)) c) (\<lambda>sem.
                 Inr (case sem of
                   None \<Rightarrow> None
                 | Some (s, sim) \<Rightarrow> Some \<lparr>ch_response_text = st_response_text s,
                     ch_tier = ''semantic'', ch_similarity = sim, ch_key = ce_key (st_entry s)\<rparr>))))
         of Inl e \<Rightarrow> None | Inr r \<Rightarrow> r)"

text \<open>The arguments of \<^verbatim>\<open>store\<close>; \<open>so_created\<close> and \<open>so_now\<close> are the two clock readings it makes.\<close>

record store_op =
  so_ctx :: security_context
  so_query :: string
  so_response :: string
  so_model :: string
  so_spv :: string
  so_sfv :: string
  so_non_cacheable :: bool
  so_ttl :: "int option"
  so_created :: int
  so_now :: int

definition or_ttl :: "int option \<Rightarrow> int \<Rightarrow> int" where
  "or_ttl ttl d = (case ttl of None \<Rightarrow> d | Some n \<Rightarrow> if n = 0 then d else n)"

definition op_pre :: "(string \<Rightarrow> string) \<Rightarrow> store_op \<Rightarrow> string" where
  "op_pre sha op = prefilter_sig sha (ctx_tenant_id (so_ctx op)) (ctx_namespace (so_ctx op))
     (so_model op) (so_spv op) (so_sfv op)"

definition op_key :: "(string \<Rightarrow> string) \<Rightarrow> store_op \<Rightarrow> string" where
  "op_key sha op = exact_sig sha (ctx_tenant_id (so_ctx op)) (ctx_namespace (so_ctx op))
     (so_model op) (so_spv op) (so_sfv op) (so_query op)"

definition mk_stored :: "(string \<Rightarrow> string) \<Rightarrow> int \<Rightarrow> store_op \<Rightarrow> flt list \<Rightarrow> int \<Rightarrow> stored_entry" where
  "mk_stored sha default_ttl op emb expires =
     \<lparr>st_entry = \<lparr>ce_key = op_key sha op, ce_tenant_id = ctx_tenant_id (so_ctx op),
        ce_fingerprint = op_pre sha op, ce_response_ref = op_key sha op, ce_model_id = so_model op,
        ce_ttl_seconds = or_ttl (so_ttl op) default_ttl, ce_created_at = so_created op,
        ce_hit_count = 0, ce_non_cacheable = False\<rparr>,
      st_embedding = emb, st_response_text = so_response op, st_expires_at = expires\<rparr>"

definition store ::
  "'c cache_backend \<Rightarrow> (string \<Rightarrow> string) \<Rightarrow> embedder \<Rightarrow> int \<Rightarrow> store_op \<Rightarrow> 'c \<Rightarrow> bool \<times> 'c" where
  "store K sha E default_ttl op c =
     (if so_non_cacheable op then (False, c)
      else case bnd (em_embed E (normalize_query (so_query op))) (\<lambda>emb.
             bnd (add_seconds (so_now op) (or_ttl (so_ttl op) default_ttl)) (\<lambda>expires.
               Inr (mk_stored sha default_ttl op emb expires)))
           of Inl e \<Rightarrow> (False, c)
            | Inr s \<Rightarrow> (case kb_put K s c of (Inl e, c') \<Rightarrow> (False, c') | (Inr _, c') \<Rightarrow> (True, c')))"

section \<open>Keys identify their parts\<close>

lemma split_at_first:
  "x \<notin> set a \<Longrightarrow> x \<notin> set a' \<Longrightarrow> a @ x # r = a' @ x # r' \<longleftrightarrow> a = a' \<and> r = r'"
proof (induction a arbitrary: a')
  case Nil
  then show ?case by (cases a') auto
next
  case (Cons y a)
  then show ?case by (cases a') auto
qed

lemma split_at_last:
  assumes "x \<notin> set r" and "x \<notin> set r'"
  shows "a @ x # r = a' @ x # r' \<longleftrightarrow> a = a' \<and> r = r'"
proof -
  have "a @ x # r = a' @ x # r' \<longleftrightarrow> rev r @ x # rev a = rev r' @ x # rev a'"
    using rev_is_rev_conv [of "a @ x # r" "a' @ x # r'"] by simp
  then show ?thesis using split_at_first [of x "rev r" "rev r'"] assms by auto
qed

lemma normalize_no_SEP: "SEP \<notin> set (normalize_query q)"
proof
  assume "SEP \<in> set (normalize_query q)"
  moreover have "SEP \<noteq> CHR '' ''" "is_space SEP" by (simp_all add: SEP_def is_space_def code_def)
  ultimately obtain r where "r \<in> set (split_ws (lower q))" "SEP \<in> set r"
    using set_join [of "'' ''" "split_ws (lower q)"] by (auto simp: normalize_query_def)
  then show False using \<open>is_space SEP\<close> runs_elem by (fastforce simp: split_ws_def)
qed

text \<open>What is digested: the inputs of the two signatures.\<close>

type_synonym partition_id = "string \<times> string \<times> string \<times> string \<times> string"

definition pre_text :: "partition_id \<Rightarrow> string" where
  "pre_text p = (case p of (t, n, m, v, f) \<Rightarrow> join [SEP] [t, n, m, v, f])"

definition pre_sig :: "(string \<Rightarrow> string) \<Rightarrow> partition_id \<Rightarrow> string" where
  "pre_sig sha p = (case p of (t, n, m, v, f) \<Rightarrow> prefilter_sig sha t n m v f)"

definition key_text :: "(string \<Rightarrow> string) \<Rightarrow> partition_id \<Rightarrow> string \<Rightarrow> string" where
  "key_text sha p q = join [SEP] [pre_sig sha p, normalize_query q]"

definition key_sig :: "(string \<Rightarrow> string) \<Rightarrow> partition_id \<Rightarrow> string \<Rightarrow> string" where
  "key_sig sha p q = (case p of (t, n, m, v, f) \<Rightarrow> exact_sig sha t n m v f q)"

definition sep_free :: "partition_id \<Rightarrow> bool" where
  "sep_free p = (case p of (t, n, m, v, f) \<Rightarrow> SEP \<notin> set t \<and> SEP \<notin> set n \<and> SEP \<notin> set m \<and>
     SEP \<notin> set v \<and> SEP \<notin> set f)"

lemma pre_sig_sha: "pre_sig sha p = sha (pre_text p)"
  by (simp add: pre_sig_def pre_text_def prefilter_sig_def sha_parts_def split: prod.splits)

lemma key_sig_sha: "key_sig sha p q = sha (key_text sha p q)"
  by (simp add: key_sig_def key_text_def pre_sig_def exact_sig_def sha_parts_def split: prod.splits)

lemma pre_text_inj: "sep_free p \<Longrightarrow> sep_free p' \<Longrightarrow> pre_text p = pre_text p' \<longleftrightarrow> p = p'"
  by (cases p; cases p') (auto simp: pre_text_def sep_free_def split_at_first)

lemma key_text_inj: "key_text sha p q = key_text sha p' q' \<longleftrightarrow>
    pre_sig sha p = pre_sig sha p' \<and> normalize_query q = normalize_query q'"
  by (simp add: key_text_def split_at_last normalize_no_SEP)

lemma pre_sig_eq:
  assumes "sep_free p" and "sep_free p'" and "inj_on sha {pre_text p, pre_text p'}"
  shows "pre_sig sha p = pre_sig sha p' \<longleftrightarrow> p = p'"
  unfolding pre_sig_sha using inj_on_eq_iff [OF assms(3)] pre_text_inj [OF assms(1,2)] by simp

lemma key_sig_eq:
  assumes "sep_free p" and "sep_free p'"
    and "inj_on sha {pre_text p, pre_text p'}" and "inj_on sha {key_text sha p q, key_text sha p' q'}"
  shows "key_sig sha p q = key_sig sha p' q' \<longleftrightarrow> p = p' \<and> normalize_query q = normalize_query q'"
proof -
  have "key_sig sha p q = key_sig sha p' q' \<longleftrightarrow> key_text sha p q = key_text sha p' q'"
    unfolding key_sig_sha using inj_on_eq_iff [OF assms(4)] by simp
  then show ?thesis using pre_sig_eq [OF assms(1-3)] by (simp add: key_text_inj)
qed

section \<open>The contract of a backend\<close>

locale cache_backend_laws =
  fixes K :: "'c cache_backend"
    and inv :: "'c \<Rightarrow> bool"
    and contains :: "'c \<Rightarrow> string \<Rightarrow> stored_entry \<Rightarrow> bool"
  assumes exact_sound: "inv c \<Longrightarrow> kb_get_exact K t k now c = Inr (Some s) \<Longrightarrow>
      contains c t s \<and> ce_key (st_entry s) = k \<and> now < st_expires_at s"
    and search_sound: "inv c \<Longrightarrow> kb_search_semantic K t pre emb thr clk c = Inr (Some (s, sim)) \<Longrightarrow>
      contains c t s \<and> ce_fingerprint (st_entry s) = pre \<and> cosine emb (st_embedding s) = Inr sim \<and>
      thr \<le> sim \<and> (\<exists>i. clk i < st_expires_at s)"
    and put_inv: "inv c \<Longrightarrow> inv (snd (kb_put K s c))"
    and put_contains: "contains (snd (kb_put K s c)) t x \<Longrightarrow>
      contains c t x \<or> x = s \<and> ce_tenant_id (st_entry s) = t"
    and get_after_put: "kb_put K s c = (Inr (), c') \<Longrightarrow> now < st_expires_at s \<Longrightarrow>
      kb_get_exact K (ce_tenant_id (st_entry s)) (ce_key (st_entry s)) now c' = Inr (Some s)"
begin

lemma lookup_cases:
  assumes "inv c" and "lookup K sha E thr ctx q model spv sfv clk c = Some hit"
  obtains (exact) s where "ch_tier hit = ''exact''" and "contains c (ctx_tenant_id ctx) s"
      and "ce_key (st_entry s) = exact_sig sha (ctx_tenant_id ctx) (ctx_namespace ctx) model spv sfv q"
      and "ch_response_text hit = st_response_text s" and "clk 0 < st_expires_at s"
  | (semantic) s emb where "ch_tier hit = ''semantic''" and "contains c (ctx_tenant_id ctx) s"
      and "ce_fingerprint (st_entry s) = prefilter_sig sha (ctx_tenant_id ctx) (ctx_namespace ctx) model spv sfv"
      and "ch_response_text hit = st_response_text s" and "em_embed E (normalize_query q) = Inr emb"
      and "cosine emb (st_embedding s) = Inr (ch_similarity hit)" and "thr \<le> ch_similarity hit"
      and "\<exists>i. clk i < st_expires_at s"
proof -
  let ?t = "ctx_tenant_id ctx"
  let ?k = "exact_sig sha ?t (ctx_namespace ctx) model spv sfv q"
  let ?p = "prefilter_sig sha ?t (ctx_namespace ctx) model spv sfv"
  obtain r where r: "kb_get_exact K ?t ?k (clk 0) c = Inr r"
    using assms(2) by (auto simp: lookup_def Let_def split: sum.splits)
  show thesis
  proof (cases r)
    case (Some s)
    then have "hit = \<lparr>ch_response_text = st_response_text s, ch_tier = ''exact'', ch_similarity = 1, ch_key = ?k\<rparr>"
      using assms(2) r by (simp add: lookup_def Let_def)
    then show thesis
      by (intro exact [of s]) (use exact_sound [OF assms(1) r [unfolded Some]] in simp_all)
  next
    case None
    obtain emb where emb: "em_embed E (normalize_query q) = Inr emb"
      using assms(2) r None by (auto simp: lookup_def Let_def split: sum.splits)
    obtain s sim where se: "kb_search_semantic K ?t ?p emb thr (\<lambda>i. clk (Suc i)) c = Inr (Some (s, sim))"
      and hit: "hit = \<lparr>ch_response_text = st_response_text s, ch_tier = ''semantic'', ch_similarity = sim,
        ch_key = ce_key (st_entry s)\<rparr>"
      using assms(2) r None emb by (auto simp: lookup_def Let_def split: sum.splits option.splits)
    show thesis
      by (rule semantic [of s emb]) (use search_sound [OF assms(1) se] emb hit in auto)
  qed
qed

lemma lookup_after_put:
  assumes "kb_put K s c = (Inr (), c')"
    and "ce_tenant_id (st_entry s) = ctx_tenant_id ctx"
    and "ce_key (st_entry s) = exact_sig sha (ctx_tenant_id ctx) (ctx_namespace ctx) model spv sfv q"
    and "clk 0 < st_expires_at s"
  shows "lookup K sha E thr ctx q model spv sfv clk c' =
    Some \<lparr>ch_response_text = st_response_text s, ch_tier = ''exact'', ch_similarity = 1, ch_key = ce_key (st_entry s)\<rparr>"
  using get_after_put [OF assms(1,4)] by (simp add: lookup_def Let_def assms(2,3))

end

section \<open>The in-memory backend keeps it\<close>

definition cache_inv :: "cache_store \<Rightarrow> bool" where
  "cache_inv c = (\<forall>t k s. (k, s) \<in> set (part c t) \<longrightarrow> ce_key (st_entry s) = k)"

definition cache_contains :: "cache_store \<Rightarrow> string \<Rightarrow> stored_entry \<Rightarrow> bool" where
  "cache_contains c t s = (s \<in> set (dvalues (part c t)))"

lemma sem_scan_sound:
  "sem_scan clk pre emb thr xs best bs = Inr (Some (s, sim)) \<Longrightarrow>
   best = Some s \<and> bs = sim \<or>
   (\<exists>i. (i, s) \<in> set xs \<and> live (clk i) s \<and> ce_fingerprint (st_entry s) = pre \<and>
      cosine emb (st_embedding s) = Inr sim \<and> thr \<le> sim)"
proof (induction clk pre emb thr xs best bs rule: sem_scan.induct)
  case (2 clk pre emb thr i x rest best bs)
  show ?case
  proof (cases "\<not> live (clk i) x \<or> ce_fingerprint (st_entry x) \<noteq> pre")
    case True
    then show ?thesis using 2 by auto
  next
    case False
    then obtain v where v: "cosine emb (st_embedding x) = Inr v" using "2.prems" by auto
    then show ?thesis using 2 False by (cases "thr \<le> v \<and> bs < v") auto
  qed
qed (auto split: option.splits)

lemma sem_scan_best:
  "sem_scan clk pre emb thr xs best bs = Inr (Some (s, sim)) \<Longrightarrow>
   bs \<le> sim \<and> (\<forall>(i, x) \<in> set xs. live (clk i) x \<and> ce_fingerprint (st_entry x) = pre \<longrightarrow>
      (\<exists>v. cosine emb (st_embedding x) = Inr v \<and> (thr \<le> v \<longrightarrow> v \<le> sim)))"
proof (induction clk pre emb thr xs best bs rule: sem_scan.induct)
  case (2 clk pre emb thr i x rest best bs)
  show ?case
  proof (cases "\<not> live (clk i) x \<or> ce_fingerprint (st_entry x) \<noteq> pre")
    case True
    then show ?thesis using 2 by auto
  next
    case False
    then obtain v where v: "cosine emb (st_embedding x) = Inr v" using "2.prems" by auto
    show ?thesis
    proof (cases "thr \<le> v \<and> bs < v")
      case True
      then show ?thesis using 2 False v by fastforce
    next
      case no: False
      then show ?thesis using 2 False v by fastforce
    qed
  qed
qed (auto split: option.splits)

interpretation mem_cache: cache_backend_laws mem_cache cache_inv cache_contains
proof
  fix c t k now s pre emb thr clk sim
  show "cache_inv c \<Longrightarrow> kb_get_exact mem_cache t k now c = Inr (Some s) \<Longrightarrow>
      cache_contains c t s \<and> ce_key (st_entry s) = k \<and> now < st_expires_at s"
    by (force simp: mem_cache_def get_exact_def cache_inv_def cache_contains_def live_def
        split: option.splits if_splits dest: map_of_SomeD)
  show "cache_inv c \<Longrightarrow> kb_search_semantic mem_cache t pre emb thr clk c = Inr (Some (s, sim)) \<Longrightarrow>
      cache_contains c t s \<and> ce_fingerprint (st_entry s) = pre \<and> cosine emb (st_embedding s) = Inr sim \<and>
      thr \<le> sim \<and> (\<exists>i. clk i < st_expires_at s)"
    by (auto simp: mem_cache_def search_semantic_def cache_contains_def live_def in_set_enumerate_eq
        simp del: map_map dest!: sem_scan_sound)
next
  fix c c' :: cache_store and s x :: stored_entry and t :: string and now
  show "cache_inv c \<Longrightarrow> cache_inv (snd (kb_put mem_cache s c))"
    using set_dset_subset by (fastforce simp: mem_cache_def cache_inv_def cache_put_def)
  show "cache_contains (snd (kb_put mem_cache s c)) t x \<Longrightarrow>
      cache_contains c t x \<or> x = s \<and> ce_tenant_id (st_entry s) = t"
    by (auto simp: mem_cache_def cache_contains_def cache_put_def split: if_splits simp del: set_map
        dest!: set_dvalues_dset)
  show "kb_put mem_cache s c = (Inr (), c') \<Longrightarrow> now < st_expires_at s \<Longrightarrow>
      kb_get_exact mem_cache (ce_tenant_id (st_entry s)) (ce_key (st_entry s)) now c' = Inr (Some s)"
    by (auto simp: mem_cache_def cache_put_def get_exact_def live_def)
qed

section \<open>The history of a cache\<close>

definition cache_step ::
  "(string \<Rightarrow> string) \<Rightarrow> embedder \<Rightarrow> int \<Rightarrow> store_op \<Rightarrow> cache_store \<Rightarrow> cache_store" where
  "cache_step sha E ttl op c = snd (store mem_cache sha E ttl op c)"

definition op_owner :: "store_op \<Rightarrow> string" where
  "op_owner op = ctx_tenant_id (so_ctx op)"

definition op_partition :: "store_op \<Rightarrow> partition_id" where
  "op_partition op = (ctx_tenant_id (so_ctx op), ctx_namespace (so_ctx op), so_model op, so_spv op, so_sfv op)"

lemma op_sigs: "op_pre sha op = pre_sig sha (op_partition op)"
  "op_key sha op = key_sig sha (op_partition op) (so_query op)"
  by (simp_all add: op_pre_def op_key_def pre_sig_def key_sig_def op_partition_def)

text \<open>The entry a cacheable store makes.\<close>

definition made_by :: "(string \<Rightarrow> string) \<Rightarrow> embedder \<Rightarrow> int \<Rightarrow> store_op \<Rightarrow> stored_entry \<Rightarrow> bool" where
  "made_by sha E ttl op s = (\<not> so_non_cacheable op \<and>
     (\<exists>emb expires. em_embed E (normalize_query (so_query op)) = Inr emb \<and>
        add_seconds (so_now op) (or_ttl (so_ttl op) ttl) = Inr expires \<and>
        s = mk_stored sha ttl op emb expires))"

lemma store_cases:
  obtains (skipped) "store K sha E ttl op c = (False, c)"
  | (made) s where "made_by sha E ttl op s"
      "store K sha E ttl op c = (\<not> isl (fst (kb_put K s c)), snd (kb_put K s c))"
proof -
  have "\<exists>s. made_by sha E ttl op s \<and> store K sha E ttl op c = (\<not> isl (fst (kb_put K s c)), snd (kb_put K s c))"
    if "store K sha E ttl op c \<noteq> (False, c)"
    using that unfolding store_def made_by_def
    by (auto simp: bnd_eq_Inl split: if_splits sum.splits prod.splits)
  then show thesis using made skipped by blast
qed

lemma cache_run:
  "cache_inv (run_ops (cache_step sha E ttl) ops []) \<and>
   (\<forall>t s. cache_contains (run_ops (cache_step sha E ttl) ops []) t s \<longrightarrow>
     (\<exists>op \<in> set ops. made_by sha E ttl op s \<and> op_owner op = t))"
proof (induction ops rule: rev_induct)
  case Nil
  then show ?case by (simp add: cache_inv_def cache_contains_def)
next
  case (snoc op ops)
  let ?c = "run_ops (cache_step sha E ttl) ops []"
  have run: "run_ops (cache_step sha E ttl) (ops @ [op]) [] = snd (store mem_cache sha E ttl op ?c)"
    by (simp add: run_ops_def cache_step_def)
  show ?case
  proof (cases rule: store_cases [of mem_cache sha E ttl op ?c])
    case skipped
    then show ?thesis using snoc by (auto simp: run)
  next
    case (made s)
    have "ce_tenant_id (st_entry s) = op_owner op"
      using made(1) by (auto simp: made_by_def mk_stored_def op_owner_def)
    then show ?thesis
      using snoc made mem_cache.put_inv [of ?c s] mem_cache.put_contains [of s ?c] unfolding run by fastforce
  qed
qed

lemma part_single [simp]: "part [(t, d)] t' = (if t' = t then d else [])"
  by (simp add: part_def)

lemma cache_step_part:
  "part (cache_step sha E ttl op c) t =
     (if op_owner op = t then part (cache_step sha E ttl op [(t, part c t)]) t else part c t)"
  by (auto simp: cache_step_def store_def mem_cache_def cache_put_def mk_stored_def op_owner_def
      bnd_def split: sum.splits)

interpretation cache_iso: tenant_scoped "\<lambda>t c. part c t" "cache_step sha E ttl" op_owner for sha E ttl
proof
  fix op :: store_op and t and s s' :: cache_store
  show "op_owner op \<noteq> t \<Longrightarrow> part (cache_step sha E ttl op s) t = part s t"
    by (simp add: cache_step_part)
  show "op_owner op = t \<Longrightarrow> part s t = part s' t \<Longrightarrow>
      part (cache_step sha E ttl op s) t = part (cache_step sha E ttl op s') t"
    using cache_step_part [of sha E ttl op s t] cache_step_part [of sha E ttl op s' t] by simp
qed

section \<open>Properties\<close>

text \<open>C11: A cache hit is a response stored for the same partition. After any stores by any tenants,
  with any model of an embedder and provided the digest does not collide on the strings of this
  history and no identifier contains the separator, every hit returns the response of an earlier
  cacheable store made by the same tenant, in the same namespace, for the same model and versions,
  not yet expired; in the exact tier for the same normalized query, in the semantic tier for one
  whose embedding has a cosine of at least the threshold.\<close>

theorem lookup_origin:
  fixes ops sha E ttl thr ctx q model spv sfv clk
  defines "c \<equiv> run_ops (cache_step sha E ttl) ops []"
    and "p \<equiv> (ctx_tenant_id ctx, ctx_namespace ctx, model, spv, sfv)"
  assumes hit: "lookup mem_cache sha E thr ctx q model spv sfv clk c = Some hit"
    and sep: "sep_free p" "\<forall>op \<in> set ops. sep_free (op_partition op)"
    and inj: "inj_on sha (insert (pre_text p) (insert (key_text sha p q)
      (\<Union>op \<in> set ops. {pre_text (op_partition op), key_text sha (op_partition op) (so_query op)})))"
  shows "\<exists>op \<in> set ops. op_partition op = p \<and> \<not> so_non_cacheable op \<and>
    ch_response_text hit = so_response op \<and>
    (\<exists>i. clk i < so_now op + or_ttl (so_ttl op) ttl * 1000000) \<and>
    (ch_tier hit = ''exact'' \<and> normalize_query q = normalize_query (so_query op) \<or>
     ch_tier hit = ''semantic'' \<and> thr \<le> ch_similarity hit \<and>
       (\<exists>u v. em_embed E (normalize_query q) = Inr u \<and>
          em_embed E (normalize_query (so_query op)) = Inr v \<and> cosine u v = Inr (ch_similarity hit)))"
proof -
  have inv: "cache_inv c" and origin: "\<And>t s. cache_contains c t s \<Longrightarrow>
      \<exists>op \<in> set ops. made_by sha E ttl op s \<and> op_owner op = t"
    using cache_run [of sha E ttl ops] by (simp_all add: c_def)
  have part: "pre_sig sha (op_partition op) = pre_sig sha p \<longleftrightarrow> op_partition op = p"
    and key: "key_sig sha (op_partition op) (so_query op) = key_sig sha p q \<longleftrightarrow>
      op_partition op = p \<and> normalize_query (so_query op) = normalize_query q" if "op \<in> set ops" for op
  proof -
    have i: "inj_on sha {pre_text (op_partition op), pre_text p}"
      by (rule inj_on_subset [OF inj]) (use that in auto)
    have i': "inj_on sha {key_text sha (op_partition op) (so_query op), key_text sha p q}"
      by (rule inj_on_subset [OF inj]) (use that in auto)
    show "pre_sig sha (op_partition op) = pre_sig sha p \<longleftrightarrow> op_partition op = p"
      using that sep by (intro pre_sig_eq i) auto
    show "key_sig sha (op_partition op) (so_query op) = key_sig sha p q \<longleftrightarrow>
      op_partition op = p \<and> normalize_query (so_query op) = normalize_query q"
      using that sep by (intro key_sig_eq i i') auto
  qed
  from inv hit show ?thesis
  proof (cases rule: mem_cache.lookup_cases)
    case (exact s)
    obtain op where op: "op \<in> set ops" "made_by sha E ttl op s" using origin [OF exact(2)] by blast
    then have "key_sig sha (op_partition op) (so_query op) = key_sig sha p q"
      using exact(3) by (auto simp: made_by_def mk_stored_def op_sigs p_def key_sig_def)
    then have "op_partition op = p \<and> normalize_query (so_query op) = normalize_query q"
      using key [OF op(1)] by simp
    then show ?thesis using op exact(1,4,5)
      by (intro bexI [of _ op]) (auto simp: made_by_def mk_stored_def add_seconds_def split: if_splits)
  next
    case (semantic s emb)
    obtain op where op: "op \<in> set ops" "made_by sha E ttl op s" using origin [OF semantic(2)] by blast
    then have "pre_sig sha (op_partition op) = pre_sig sha p"
      using semantic(3) by (auto simp: made_by_def mk_stored_def op_sigs p_def pre_sig_def)
    then have "op_partition op = p" using part [OF op(1)] by simp
    then show ?thesis using op semantic(1,4-)
      by (intro bexI [of _ op]) (auto simp: made_by_def mk_stored_def add_seconds_def split: if_splits)
  qed
qed

text \<open>C25: What is stored is found. After a store that reports success, a lookup in the same
  partition by any query with the same normalized text, before the entry expires, hits the exact
  tier with that response; the embedder is not consulted.\<close>

theorem lookup_after_store:
  assumes "store mem_cache sha E ttl op c = (True, c')"
    and "ctx_tenant_id ctx = ctx_tenant_id (so_ctx op)" and "ctx_namespace ctx = ctx_namespace (so_ctx op)"
    and "normalize_query q = normalize_query (so_query op)"
    and "clk 0 < so_now op + or_ttl (so_ttl op) ttl * 1000000"
  shows "lookup mem_cache sha E' thr ctx q (so_model op) (so_spv op) (so_sfv op) clk c' =
    Some \<lparr>ch_response_text = so_response op, ch_tier = ''exact'', ch_similarity = 1, ch_key = op_key sha op\<rparr>"
proof (cases rule: store_cases [of mem_cache sha E ttl op c])
  case skipped
  then show ?thesis using assms(1) by simp
next
  case (made s)
  then have put: "kb_put mem_cache s c = (Inr (), c')" using assms(1) by (auto simp: mem_cache_def)
  have key: "op_key sha op = exact_sig sha (ctx_tenant_id ctx) (ctx_namespace ctx) (so_model op) (so_spv op) (so_sfv op) q"
    using assms(2-4) by (simp add: op_key_def exact_sig_def)
  obtain emb expires where s: "s = mk_stored sha ttl op emb expires"
    and e: "expires = so_now op + or_ttl (so_ttl op) ttl * 1000000"
    using made(1) by (auto simp: made_by_def add_seconds_def split: if_splits)
  have "lookup mem_cache sha E' thr ctx q (so_model op) (so_spv op) (so_sfv op) clk c' =
    Some \<lparr>ch_response_text = st_response_text s, ch_tier = ''exact'', ch_similarity = 1, ch_key = ce_key (st_entry s)\<rparr>"
    by (rule mem_cache.lookup_after_put [OF put]) (use assms(2,5) key in \<open>simp_all add: s e mk_stored_def\<close>)
  then show ?thesis by (simp add: s mk_stored_def)
qed

text \<open>The cache fails open. Whatever the backend and the embedder do, a failing step makes the
  lookup a miss and the store a refusal; and a response flagged as not cacheable leaves no trace
  in the backend.\<close>

theorem cache_fails_open:
  "(case kb_get_exact K (ctx_tenant_id ctx)
       (exact_sig sha (ctx_tenant_id ctx) (ctx_namespace ctx) model spv sfv q) (clk 0) c of
      Inl _ \<Rightarrow> lookup K sha E thr ctx q model spv sfv clk c = None
    | Inr (Some _) \<Rightarrow> True
    | Inr None \<Rightarrow> (case em_embed E (normalize_query q) of
        Inl _ \<Rightarrow> lookup K sha E thr ctx q model spv sfv clk c = None
      | Inr emb \<Rightarrow> (case kb_search_semantic K (ctx_tenant_id ctx)
            (prefilter_sig sha (ctx_tenant_id ctx) (ctx_namespace ctx) model spv sfv) emb thr (\<lambda>i. clk (Suc i)) c of
          Inl _ \<Rightarrow> lookup K sha E thr ctx q model spv sfv clk c = None
        | Inr _ \<Rightarrow> True))) \<and>
   (case em_embed E (normalize_query (so_query op)) of
      Inl _ \<Rightarrow> store K sha E ttl op c = (False, c)
    | Inr _ \<Rightarrow> True) \<and>
   store K sha E ttl (op\<lparr>so_non_cacheable := True\<rparr>) c = (False, c)"
proof (intro conjI)
  show "case em_embed E (normalize_query (so_query op)) of
      Inl _ \<Rightarrow> store K sha E ttl op c = (False, c)
    | Inr _ \<Rightarrow> True"
    by (auto simp: store_def split: sum.split)
  show "store K sha E ttl (op\<lparr>so_non_cacheable := True\<rparr>) c = (False, c)"
    by (simp add: store_def)
qed (auto simp: lookup_def Let_def split: sum.split option.split)

text \<open>Tenants do not share a cache: what a lookup returns after any stores by all tenants is
  what it would return after the stores of its own tenant alone.\<close>

theorem lookup_noninterference:
  "lookup mem_cache sha E thr ctx q model spv sfv clk (run_ops (cache_step sha E ttl) ops c) =
   lookup mem_cache sha E thr ctx q model spv sfv clk
     (run_ops (cache_step sha E ttl) (purge op_owner (ctx_tenant_id ctx) ops) c)"
proof -
  have "part (run_ops (cache_step sha E ttl) ops c) (ctx_tenant_id ctx) =
      part (run_ops (cache_step sha E ttl) (purge op_owner (ctx_tenant_id ctx) ops) c) (ctx_tenant_id ctx)"
    by (rule cache_iso.noninterference)
  then show ?thesis
    by (simp only: lookup_def mem_cache_def cache_backend.simps get_exact_def search_semantic_def)
qed

section \<open>Witnesses\<close>

definition fx_op :: "string \<Rightarrow> string \<Rightarrow> store_op" where
  "fx_op tenant query = \<lparr>so_ctx = fx_ctx tenant ''user:1'', so_query = query, so_response = ''4'',
     so_model = ''m'', so_spv = ''v1'', so_sfv = ''v0'', so_non_cacheable = False, so_ttl = None,
     so_created = 0, so_now = 0\<rparr>"

lemma fx_op_stored:
  "\<exists>c'. store mem_cache id (hashing_provider fx_blake DEFAULT_DIM) 60 (fx_op ''acme'' ''What is 2+2?'') [] = (True, c')"
proof -
  obtain v where "em_embed (hashing_provider fx_blake DEFAULT_DIM) (normalize_query ''What is 2+2?'') = Inr v"
    using hashing.embed_total by blast
  then show ?thesis
    by (simp add: store_def fx_op_def or_ttl_def add_seconds_def DATETIME_MIN_def DATETIME_MAX_def mem_cache_def)
qed

lemma fx_same_query: "normalize_query ''what  is 2+2? '' = normalize_query ''What is 2+2?''"
  by code_simp

lemma lookup_after_store_witness:
  "\<exists>c' h. store mem_cache id (hashing_provider fx_blake DEFAULT_DIM) 60 (fx_op ''acme'' ''What is 2+2?'') [] = (True, c') \<and>
    lookup mem_cache id (hashing_provider fx_blake DEFAULT_DIM) DEFAULT_TAU (fx_ctx ''acme'' ''user:1'')
      ''what  is 2+2? '' ''m'' ''v1'' ''v0'' (\<lambda>_. 5) c' = Some h \<and> ch_response_text h = ''4''"
proof -
  obtain c' where c': "store mem_cache id (hashing_provider fx_blake DEFAULT_DIM) 60 (fx_op ''acme'' ''What is 2+2?'') [] = (True, c')"
    using fx_op_stored by blast
  show ?thesis
    using lookup_after_store [OF c', of "fx_ctx ''acme'' ''user:1''" "''what  is 2+2? ''" "\<lambda>_. 5"
        "hashing_provider fx_blake DEFAULT_DIM" DEFAULT_TAU] fx_same_query c'
    by (simp add: fx_op_def or_ttl_def)
qed

lemma lookup_origin_witness:
  "\<exists>h. lookup mem_cache id (hashing_provider fx_blake DEFAULT_DIM) DEFAULT_TAU (fx_ctx ''acme'' ''user:1'')
      ''what  is 2+2? '' ''m'' ''v1'' ''v0'' (\<lambda>_. 5)
      (run_ops (cache_step id (hashing_provider fx_blake DEFAULT_DIM) 60) [fx_op ''acme'' ''What is 2+2?''] []) = Some h \<and>
    ch_response_text h = ''4''"
proof -
  let ?E = "hashing_provider fx_blake DEFAULT_DIM" and ?op = "fx_op ''acme'' ''What is 2+2?''"
  obtain c' where c': "store mem_cache id ?E 60 ?op [] = (True, c')"
    using fx_op_stored by blast
  have run: "run_ops (cache_step id ?E 60) [?op] [] = c'" by (simp add: cache_step_def c')
  have "sep_free (''acme'', ''user:1'', ''m'', ''v1'', ''v0'')" by (simp add: sep_free_def SEP_def)
  moreover have "op_partition ?op = (''acme'', ''user:1'', ''m'', ''v1'', ''v0'')"
    by (simp add: op_partition_def fx_op_def)
  moreover obtain h where "lookup mem_cache id ?E DEFAULT_TAU (fx_ctx ''acme'' ''user:1'')
      ''what  is 2+2? '' ''m'' ''v1'' ''v0'' (\<lambda>_. 5) (run_ops (cache_step id ?E 60) [?op] []) = Some h"
    unfolding run using c' fx_same_query
    by (auto simp: lookup_def store_def mem_cache_def Let_def fx_op_def exact_sig_def get_exact_def op_key_def
        cache_put_def mk_stored_def live_def or_ttl_def add_seconds_def split: sum.splits if_splits)
  ultimately show ?thesis
    using lookup_origin [where ops = "[?op]" and sha = id and E = ?E and ttl = 60 and ctx = "fx_ctx ''acme'' ''user:1''"
        and q = "''what  is 2+2? ''" and model = "''m''" and spv = "''v1''" and sfv = "''v0''" and clk = "\<lambda>_. 5"
        and thr = DEFAULT_TAU and hit = h]
    by (auto simp: fx_op_def)
qed

end
