(* ===== verification/Ulid.thy ===== *)
theory Ulid
  imports Models
begin

text \<open>
  \<^verbatim>\<open>new_ulid\<close> of \<^verbatim>\<open>models/common.py\<close>: a 48-bit millisecond timestamp and 80 random bits,
  rendered as 26 Crockford base-32 characters. The clock reading and the ten bytes of
  \<^verbatim>\<open>os.urandom\<close> are arguments. The lemmas: the bit operations are arithmetic, the
  rendering is positional base 32, hence injective and monotone for the lexicographic order.
\<close>

unbundle bit_operations_syntax

definition CROCKFORD :: string where
  "CROCKFORD = ''0123456789ABCDEFGHJKMNPQRSTVWXYZ''"

text \<open>The loop of \<^verbatim>\<open>for _ in range(26)\<close>: the low five bits, then a shift; \<open>chars\<close> is the
  list the loop appends to, reversed at the end.\<close>

fun ulid_loop :: "nat \<Rightarrow> int \<Rightarrow> string \<Rightarrow> string" where
  "ulid_loop 0 value chars = chars"
| "ulid_loop (Suc n) value chars =
     ulid_loop n (drop_bit 5 value) (chars @ [CROCKFORD ! nat (value AND 0x1F)])"

definition ulid_value :: "int \<Rightarrow> int \<Rightarrow> int" where
  "ulid_value ms rand = push_bit 80 ms OR rand"

definition from_bytes_big :: "8 word list \<Rightarrow> int" where
  "from_bytes_big bs = foldl (\<lambda>acc b. acc * 256 + uint b) 0 bs"

text \<open>\<^verbatim>\<open>int(time.time() * 1000) & ((1 << 48) - 1)\<close>; \<^verbatim>\<open>int\<close> truncates towards zero.\<close>

definition py_int :: "flt \<Rightarrow> int" where
  "py_int x = (if x < 0 then \<lceil>x\<rceil> else \<lfloor>x\<rfloor>)"

definition ulid_ms :: "flt \<Rightarrow> int" where
  "ulid_ms time = py_int (fmul time 1000) AND (push_bit 48 1 - 1)"

definition new_ulid :: "flt \<Rightarrow> 8 word list \<Rightarrow> string" where
  "new_ulid time urandom =
     rev (ulid_loop 26 (ulid_value (ulid_ms time) (from_bytes_big urandom)) [])"

section \<open>The rendering as positional base 32\<close>

fun enc32 :: "nat \<Rightarrow> int \<Rightarrow> string" where
  "enc32 0 v = []"
| "enc32 (Suc n) v = enc32 n (v div 32) @ [CROCKFORD ! nat (v mod 32)]"

lemma and_31: "(v::int) AND 31 = v mod 32"
  using take_bit_eq_mask [of 5 v] by (simp add: take_bit_eq_mod mask_eq_exp_minus_1)

lemma ulid_loop_enc32: "rev (ulid_loop n v cs) = enc32 n v @ rev cs"
  by (induction n arbitrary: v cs) (simp_all add: and_31 drop_bit_eq_div)

lemma length_enc32 [simp]: "length (enc32 n v) = n"
  by (induction n arbitrary: v) auto

lemma CROCKFORD_nth_less:
  assumes "i < j" and "j < 32"
  shows "CROCKFORD ! i < CROCKFORD ! j"
proof -
  have "\<forall>j \<in> set [0..<32]. \<forall>i \<in> set [0..<j]. CROCKFORD ! i < CROCKFORD ! j"
    by code_simp
  then show ?thesis using assms by simp
qed

lemma enc32_alphabet: "c \<in> set (enc32 n v) \<Longrightarrow> c \<in> set CROCKFORD"
proof (induction n arbitrary: v)
  case (Suc n)
  have "nat (v mod 32) < length CROCKFORD" by (simp add: CROCKFORD_def nat_less_iff)
  then show ?case using Suc by (auto intro: nth_mem)
qed simp

lemma lex_append_last:
  "length xs = length ys \<Longrightarrow> xs @ [x] < ys @ [y] \<longleftrightarrow> xs < ys \<or> xs = ys \<and> x < (y::'a::linorder)"
  by (induction xs ys rule: list_induct2) (auto simp: Cons_less_Cons)

lemma enc32_less:
  assumes "0 \<le> a" and "a < b" and "b < 32 ^ n"
  shows "enc32 n a < enc32 n b"
  using assms
proof (induction n arbitrary: a b)
  case (Suc n)
  have len: "length (enc32 n (a div 32)) = length (enc32 n (b div 32))" by simp
  have bd: "b div 32 < 32 ^ n" using Suc.prems by simp
  show ?case
  proof (cases "a div 32 < b div 32")
    case True
    then have "enc32 n (a div 32) < enc32 n (b div 32)"
      using Suc.IH [of "a div 32" "b div 32"] Suc.prems bd by simp
    then show ?thesis by (simp add: lex_append_last [OF len])
  next
    case False
    have "a div 32 \<le> b div 32" using Suc.prems by (simp add: zdiv_mono1)
    with False have eq: "a div 32 = b div 32" by simp
    then have "a mod 32 < b mod 32"
      using Suc.prems div_mult_mod_eq [of a 32] div_mult_mod_eq [of b 32] by linarith
    then have "CROCKFORD ! nat (a mod 32) < CROCKFORD ! nat (b mod 32)"
      by (intro CROCKFORD_nth_less) (simp_all add: nat_less_iff)
    then show ?thesis by (simp add: eq lex_append_last)
  qed
qed simp

lemma enc32_inj:
  assumes "0 \<le> a" "a < 32 ^ n" "0 \<le> b" "b < 32 ^ n" "enc32 n a = enc32 n b"
  shows "a = b"
  using assms enc32_less [of a b n] enc32_less [of b a n] by (cases a b rule: linorder_cases) auto

section \<open>The bit operations as arithmetic\<close>

lemma ulid_value_eq:
  assumes "0 \<le> rand" and "rand < 2 ^ 80"
  shows "ulid_value ms rand = ms * 2 ^ 80 + rand"
proof -
  have "take_bit 80 rand = rand" using assms by (simp add: take_bit_int_eq_self_iff)
  moreover have "push_bit 80 ms AND take_bit 80 rand = 0"
    by (rule bit_eqI) (auto simp: bit_and_iff bit_push_bit_iff bit_take_bit_iff)
  ultimately have "push_bit 80 ms + rand = push_bit 80 ms OR rand"
    by (metis disjunctive_add_eq_or)
  then show ?thesis
    by (simp add: ulid_value_def push_bit_eq_mult)
qed

lemma foldl_bytes_bounds:
  "0 \<le> acc \<Longrightarrow> acc < 256 ^ k \<Longrightarrow>
   0 \<le> foldl (\<lambda>acc (b::8 word). acc * 256 + uint b) acc bs \<and>
   foldl (\<lambda>acc b. acc * 256 + uint b) acc bs < 256 ^ (k + length bs)"
proof (induction bs arbitrary: acc k)
  case (Cons b bs)
  have b: "0 \<le> uint b" "uint b < 256" using uint_lt2p [of b] by simp_all
  have "acc + 1 \<le> 256 ^ k" using Cons.prems by simp
  then have "acc * 256 + uint b < 256 ^ Suc k" using b by simp
  with Cons.IH [of "acc * 256 + uint b" "Suc k"] Cons.prems b show ?case by simp
qed simp

lemma from_bytes_big_bounds: "0 \<le> from_bytes_big bs" "from_bytes_big bs < 256 ^ length bs"
  using foldl_bytes_bounds [of 0 0 bs] by (simp_all add: from_bytes_big_def)

lemma ulid_ms_eq: "ulid_ms t = py_int (fmul t 1000) mod 2 ^ 48"
proof -
  have "py_int (fmul t 1000) AND mask 48 = py_int (fmul t 1000) mod 2 ^ 48"
    by (simp only: flip: take_bit_eq_mask take_bit_eq_mod)
  then show ?thesis by (simp add: ulid_ms_def mask_eq_exp_minus_1)
qed

lemma new_ulid_enc32:
  assumes "length bs = 10"
  shows "new_ulid t bs = enc32 26 (ulid_ms t * 2 ^ 80 + from_bytes_big bs)"
  using from_bytes_big_bounds [of bs] assms
  by (simp add: new_ulid_def ulid_loop_enc32 ulid_value_eq)

section \<open>Properties\<close>

text \<open>C37: Identifiers are 26 characters of the Crockford alphabet whose lexicographic order is the
  order of the millisecond they were made in, and within a millisecond that of their random bits;
  so two identifiers are equal only when both agree.\<close>

theorem new_ulid_ordered:
  assumes "length bs = 10" and "length bs' = 10"
  shows "length (new_ulid t bs) = 26 \<and> set (new_ulid t bs) \<subseteq> set CROCKFORD \<and>
    (new_ulid t bs < new_ulid t' bs' \<longleftrightarrow>
       (ulid_ms t, from_bytes_big bs) < (ulid_ms t', from_bytes_big bs')) \<and>
    (new_ulid t bs = new_ulid t' bs' \<longleftrightarrow>
       ulid_ms t = ulid_ms t' \<and> from_bytes_big bs = from_bytes_big bs')"
proof -
  define v where "v t bs = ulid_ms t * 2 ^ 80 + from_bytes_big bs" for t bs
  have rnd: "0 \<le> from_bytes_big bs \<and> from_bytes_big bs < 2 ^ 80"
    "0 \<le> from_bytes_big bs' \<and> from_bytes_big bs' < 2 ^ 80"
    using from_bytes_big_bounds [of bs] from_bytes_big_bounds [of bs'] assms by simp_all
  have ms: "0 \<le> ulid_ms t \<and> ulid_ms t < 2 ^ 48" for t by (simp add: ulid_ms_eq)
  have bound: "0 \<le> v t bs \<and> v t bs < 32 ^ 26" "0 \<le> v t' bs' \<and> v t' bs' < 32 ^ 26"
    unfolding v_def using rnd ms [of t] ms [of t'] by simp_all
  have enc: "new_ulid t bs = enc32 26 (v t bs)" "new_ulid t' bs' = enc32 26 (v t' bs')"
    using assms by (simp_all add: new_ulid_enc32 v_def)
  have less: "v t bs < v t' bs' \<longleftrightarrow> (ulid_ms t, from_bytes_big bs) < (ulid_ms t', from_bytes_big bs')"
    unfolding v_def using rnd by (auto simp: less_prod_def)
  have eq: "v t bs = v t' bs' \<longleftrightarrow> ulid_ms t = ulid_ms t' \<and> from_bytes_big bs = from_bytes_big bs'"
    unfolding v_def using rnd by (cases "ulid_ms t" "ulid_ms t'" rule: linorder_cases) auto
  have "enc32 26 (v t bs) < enc32 26 (v t' bs') \<longleftrightarrow> v t bs < v t' bs'"
    using enc32_less [of "v t bs" "v t' bs'" 26] enc32_less [of "v t' bs'" "v t bs" 26] bound
    by (cases "v t bs" "v t' bs'" rule: linorder_cases) auto
  moreover have "enc32 26 (v t bs) = enc32 26 (v t' bs') \<longleftrightarrow> v t bs = v t' bs'"
    using enc32_inj [of "v t bs" 26 "v t' bs'"] bound by auto
  ultimately show ?thesis using less eq enc enc32_alphabet by auto
qed

lemma new_ulid_ordered_witness:
  "new_ulid 1 (replicate 10 0) < new_ulid 2 (replicate 10 0)"
proof -
  have "ulid_ms 1 < ulid_ms 2" by code_simp
  then show ?thesis using new_ulid_ordered [of "replicate 10 0" "replicate 10 0" 1 2] by simp
qed

end
