(* ===== verification/Router.thy ===== *)
theory Router
  imports Fixtures Ulid
begin

text \<open>
  \<^verbatim>\<open>router/\<close>: the difficulty heuristic, the circuit breaker, the backend registry and the
  routing decision. The breaker is a state machine over the outcomes of calls; its closed form
  (it is open exactly while the cooldown of the last of at least \<open>threshold\<close> consecutive
  failures runs) is proved by induction on the history. The routing decision is split as the code
  has it: a hard filter that never looks at health, and an optimisation over what survives.
\<close>

section \<open>Formatting\<close>

text \<open>\<^verbatim>\<open>f"{x:.kf}"\<close>: rounded from the exact value, ties to even.\<close>

definition pad_zeros :: "nat \<Rightarrow> string \<Rightarrow> string" where
  "pad_zeros k s = replicate (k - length s) CHR ''0'' @ s"

definition fmt_fixed :: "nat \<Rightarrow> flt \<Rightarrow> string" where
  "fmt_fixed k x =
     (let n = nat (rhe (\<bar>x\<bar> * 10 ^ k))
      in (if x < 0 then ''-'' else []) @ str_of_nat (n div 10 ^ k) @ ''.'' @ pad_zeros k (str_of_nat (n mod 10 ^ k)))"

section \<open>Difficulty\<close>

definition KEYWORDS :: "string list" where
  "KEYWORDS = [''prove'', ''derive'', ''analyz'', ''debug'', ''optimise'', ''optimize'', ''architect'',
     ''design'', ''refactor'', ''reason'', ''explain why'', ''step by step'', ''tradeoff'', ''trade-off'']"

definition is_wordchar :: "char \<Rightarrow> bool" where
  "is_wordchar c = (is_lower c \<or> is_upper c \<or> is_digit c \<or> c = CHR ''_'')"

text \<open>\<^verbatim>\<open>re.search\<close> of \<^verbatim>\<open>\b(keyword|...)\w*\<close>, ignoring case: the flag says whether the previous
  character is a word character.\<close>

fun search_hard :: "bool \<Rightarrow> string \<Rightarrow> bool" where
  "search_hard after_word [] = False"
| "search_hard after_word (c # cs) =
     (\<not> after_word \<and> list_ex (\<lambda>k. prefix k (c # cs)) KEYWORDS \<or> search_hard (is_wordchar c) cs)"

definition length_signal :: "string \<Rightarrow> flt" where
  "length_signal query = min 1 (fdiv (flt_of_nat (length (split_ws query))) 60)"

definition token_signal :: "int \<Rightarrow> flt" where
  "token_signal assembled_tokens = min 1 (fdiv (flt_of_int assembled_tokens) 4000)"

definition keyword_signal :: "string \<Rightarrow> flt" where
  "keyword_signal query = (if search_hard False (lower query) then lit (30 / 100) else 0)"

definition estimate_difficulty :: "string \<Rightarrow> int \<Rightarrow> flt" where
  "estimate_difficulty query assembled_tokens =
     min 1 (fadd (fadd (fmul (lit (45 / 100)) (length_signal query))
       (fmul (lit (35 / 100)) (token_signal assembled_tokens))) (keyword_signal query))"

section \<open>The circuit breaker\<close>

datatype breaker_status = CLOSED | OPEN | HALF_OPEN

record breaker =
  br_threshold :: int
  br_cooldown :: flt
  br_failures :: int
  br_opened_at :: "int option"

definition new_breaker :: "int \<Rightarrow> flt \<Rightarrow> breaker" where
  "new_breaker failure_threshold cooldown_seconds =
     \<lparr>br_threshold = failure_threshold, br_cooldown = cooldown_seconds, br_failures = 0,
      br_opened_at = None\<rparr>"

definition default_breaker :: breaker where
  "default_breaker = new_breaker 3 30"

text \<open>\<^verbatim>\<open>timedelta(seconds=s)\<close> in microseconds: the whole seconds exactly, the fraction rounded.\<close>

definition td_seconds :: "flt \<Rightarrow> int" where
  "td_seconds s = py_int s * 1000000 + rhe (fmul (s - of_int (py_int s)) 1000000)"

definition breaker_state :: "int \<Rightarrow> breaker \<Rightarrow> breaker_status" where
  "breaker_state now b =
     (case br_opened_at b of
        None \<Rightarrow> CLOSED
      | Some t \<Rightarrow> if td_seconds (br_cooldown b) \<le> now - t then HALF_OPEN else OPEN)"

definition allows :: "int \<Rightarrow> breaker \<Rightarrow> bool" where
  "allows now b = (breaker_state now b \<noteq> OPEN)"

definition record_success :: "breaker \<Rightarrow> breaker" where
  "record_success b = b\<lparr>br_failures := 0, br_opened_at := None\<rparr>"

definition record_failure :: "int \<Rightarrow> breaker \<Rightarrow> breaker" where
  "record_failure now b =
     (let b' = b\<lparr>br_failures := br_failures b + 1\<rparr>
      in if br_threshold b' \<le> br_failures b' then b'\<lparr>br_opened_at := Some now\<rparr> else b')"

section \<open>The registry\<close>

record backend_spec =
  bs_name :: string
  bs_model_id :: string
  bs_cost_per_1k :: flt
  bs_quality :: flt
  bs_p50_latency_ms :: flt
  bs_residency :: string
  bs_capabilities :: "string list"
  bs_tags :: "string list"

record 'w registry_entry =
  re_spec :: backend_spec
  re_adapter :: "'w adapter"
  re_breaker :: breaker

type_synonym 'w registry = "(string, 'w registry_entry) dict"

definition register ::
  "backend_spec \<Rightarrow> 'w adapter \<Rightarrow> breaker option \<Rightarrow> 'w registry \<Rightarrow> 'w registry" where
  "register spec adapter breaker reg =
     dset (bs_name spec) \<lparr>re_spec = spec, re_adapter = adapter,
       re_breaker = (case breaker of None \<Rightarrow> default_breaker | Some b \<Rightarrow> b)\<rparr> reg"

definition registry_get :: "'w registry \<Rightarrow> string \<Rightarrow> 'w registry_entry option" where
  "registry_get reg name = dget reg name"

definition registry_all :: "'w registry \<Rightarrow> 'w registry_entry list" where
  "registry_all reg = dvalues reg"

section \<open>The routing decision\<close>

definition COST_WEIGHT :: flt where "COST_WEIGHT = lit (6 / 10)"

definition LATENCY_WEIGHT :: flt where "LATENCY_WEIGHT = lit (5 / 100)"

record route_decision =
  rd_backend :: string
  rd_model_id :: string
  rd_utility :: flt
  rd_difficulty :: flt
  rd_fallback_chain :: "string list"
  rd_reasons :: "string list"
  rd_from_safe_default :: bool

text \<open>What the caller of \<^verbatim>\<open>route\<close> may demand.\<close>

record route_demand =
  dm_max_cost_per_1k :: "flt option"
  dm_residency :: "string option"
  dm_required_capabilities :: "string list"

definition no_demand :: route_demand where
  "no_demand = \<lparr>dm_max_cost_per_1k = None, dm_residency = None, dm_required_capabilities = []\<rparr>"

text \<open>The body of the filter loop: why an entry is passed over, if it is.\<close>

definition rejection ::
  "rbac_policy option \<Rightarrow> security_context \<Rightarrow> route_demand \<Rightarrow> 'w registry_entry \<Rightarrow> string option" where
  "rejection policy ctx demand e =
     (let sp = re_spec e in
      case check policy ctx [(''type'', ''model''), (''tenant_id'', ctx_tenant_id ctx),
             (''model'', bs_model_id sp)] ROUTE of
        Inl _ \<Rightarrow> Some (bs_name sp @ '': policy-denied'')
      | Inr _ \<Rightarrow>
          if truthy (dm_residency demand) \<and> Some (bs_residency sp) \<noteq> dm_residency demand
          then Some (bs_name sp @ '': residency '' @ bs_residency sp @ ''!='' @ the (dm_residency demand))
          else if (case dm_max_cost_per_1k demand of None \<Rightarrow> False | Some mc \<Rightarrow> mc < bs_cost_per_1k sp)
          then Some (bs_name sp @ '': over-budget'')
          else if list_ex (\<lambda>cap. cap \<notin> set (bs_capabilities sp)) (dm_required_capabilities demand)
          then Some (bs_name sp @ '': missing-capability'')
          else None)"

definition route_score :: "flt \<Rightarrow> flt \<Rightarrow> flt \<Rightarrow> backend_spec \<Rightarrow> flt" where
  "route_score difficulty max_cost max_lat sp =
     (let nc = (if 0 < max_cost then fdiv (bs_cost_per_1k sp) max_cost else 0);
          nl = (if 0 < max_lat then fdiv (bs_p50_latency_ms sp) max_lat else 0)
      in fsub (fsub (fmul difficulty (bs_quality sp))
           (fmul (fmul COST_WEIGHT (fsub 1 difficulty)) nc)) (fmul LATENCY_WEIGHT nl))"

definition pool_max :: "(backend_spec \<Rightarrow> flt) \<Rightarrow> 'w registry_entry list \<Rightarrow> flt" where
  "pool_max f pool = (if pool = [] then 0 else Max (set (map (\<lambda>e. f (re_spec e)) pool)))"

definition pool_score :: "flt \<Rightarrow> 'w registry_entry list \<Rightarrow> 'w registry_entry \<Rightarrow> flt" where
  "pool_score difficulty pool e =
     route_score difficulty (pool_max bs_cost_per_1k pool) (pool_max bs_p50_latency_ms pool) (re_spec e)"

definition eligible_entries ::
  "rbac_policy option \<Rightarrow> security_context \<Rightarrow> route_demand \<Rightarrow> 'w registry \<Rightarrow> 'w registry_entry list" where
  "eligible_entries policy ctx demand reg =
     filter (\<lambda>e. rejection policy ctx demand e = None) (registry_all reg)"

text \<open>\<open>now name\<close> is the reading that the breaker of the backend \<open>name\<close> makes of its clock.\<close>

definition healthy_entries :: "(string \<Rightarrow> int) \<Rightarrow> 'w registry_entry list \<Rightarrow> 'w registry_entry list" where
  "healthy_entries now es = filter (\<lambda>e. allows (now (bs_name (re_spec e))) (re_breaker e)) es"

definition rank_pool :: "flt \<Rightarrow> 'w registry_entry list \<Rightarrow> 'w registry_entry list" where
  "rank_pool difficulty pool = sorted_desc (\<lambda>e. (pool_score difficulty pool e, bs_name (re_spec e))) pool"

definition route ::
  "rbac_policy option \<Rightarrow> security_context \<Rightarrow> string \<Rightarrow> int \<Rightarrow> route_demand \<Rightarrow> (string \<Rightarrow> int) \<Rightarrow>
   'w registry \<Rightarrow> route_decision result" where
  "route policy ctx query assembled_tokens demand now reg =
     (let difficulty = estimate_difficulty query assembled_tokens;
          eligible = eligible_entries policy ctx demand reg;
          reasons = (''difficulty='' @ fmt_fixed 2 difficulty)
            # List.map_filter (rejection policy ctx demand) (registry_all reg)
      in if eligible = [] then Inl (NoEligibleBackend ''no backend satisfies the hard policy filters'')
         else let healthy = healthy_entries now eligible;
                  pool = (if healthy = [] then eligible else healthy);
                  ranked = rank_pool difficulty pool;
                  chosen = hd ranked
              in Inr \<lparr>rd_backend = bs_name (re_spec chosen), rd_model_id = bs_model_id (re_spec chosen),
                   rd_utility = py_round 6 (pool_score difficulty pool chosen),
                   rd_difficulty = py_round 4 difficulty,
                   rd_fallback_chain = map (\<lambda>e. bs_name (re_spec e)) (tl ranked),
                   rd_reasons = reasons @ (if healthy = []
                     then [''all-breakers-open: safe-default ranking (hard filters still hold)''] else []),
                   rd_from_safe_default = (healthy = [])\<rparr>)"

section \<open>The breaker in closed form\<close>

datatype outcome = Succeeded | Failed int

fun breaker_apply :: "outcome \<Rightarrow> breaker \<Rightarrow> breaker" where
  "breaker_apply Succeeded b = record_success b"
| "breaker_apply (Failed now) b = record_failure now b"

text \<open>The consecutive failures at the end of a history, latest first.\<close>

fun trailing_failures :: "outcome list \<Rightarrow> int list" where
  "trailing_failures [] = []"
| "trailing_failures (Succeeded # later) = trailing_failures later"
| "trailing_failures (Failed t # later) =
     (if Succeeded \<in> set later then trailing_failures later else trailing_failures later @ [t])"

lemma trailing_snoc:
  "trailing_failures (h @ [Succeeded]) = []"
  "trailing_failures (h @ [Failed t]) = t # trailing_failures h"
  by (induction h rule: trailing_failures.induct) auto

definition run_breaker :: "outcome list \<Rightarrow> breaker \<Rightarrow> breaker" where
  "run_breaker h b = fold breaker_apply h b"

lemma run_breaker_closed_form:
  "run_breaker h (new_breaker thr cd) =
     \<lparr>br_threshold = thr, br_cooldown = cd, br_failures = int (length (trailing_failures h)),
      br_opened_at = (case trailing_failures h of [] \<Rightarrow> None
        | t # ts \<Rightarrow> if thr \<le> int (length (t # ts)) then Some t else None)\<rparr>"
proof (induction h rule: rev_induct)
  case Nil
  then show ?case by (simp add: run_breaker_def new_breaker_def)
next
  case (snoc o' h)
  have run: "run_breaker (h @ [o']) (new_breaker thr cd) = breaker_apply o' (run_breaker h (new_breaker thr cd))"
    by (simp add: run_breaker_def)
  show ?case
  proof (cases o')
    case Succeeded
    then show ?thesis using run by (simp add: snoc trailing_snoc record_success_def)
  next
    case (Failed t)
    have "br_opened_at (record_failure t (run_breaker h (new_breaker thr cd))) =
        (if thr \<le> int (length (trailing_failures h)) + 1 then Some t else None)"
      by (simp add: snoc record_failure_def Let_def split: list.splits)
    then show ?thesis using Failed run
      by (simp add: snoc trailing_snoc record_failure_def Let_def split: list.splits)
  qed
qed

text \<open>Within a registry whose names are its keys, as \<open>register\<close> makes it, entries have distinct names.\<close>

definition registry_ok :: "'w registry \<Rightarrow> bool" where
  "registry_ok reg = (distinct (dkeys reg) \<and> (\<forall>(n, e) \<in> set reg. bs_name (re_spec e) = n))"

lemma registry_ok_register: "registry_ok reg \<Longrightarrow> registry_ok (register spec a b reg)"
  using set_dset_subset [of "bs_name spec" _ reg]
  by (fastforce simp: registry_ok_def register_def distinct_dkeys_dset)

lemma registry_names: "registry_ok reg \<Longrightarrow> map (\<lambda>e. bs_name (re_spec e)) (registry_all reg) = dkeys reg"
  by (fastforce simp: registry_ok_def registry_all_def)

lemma registry_get_all:
  "registry_ok reg \<Longrightarrow> e \<in> set (registry_all reg) \<Longrightarrow> registry_get reg (bs_name (re_spec e)) = Some e"
  by (force simp: registry_ok_def registry_all_def registry_get_def intro: map_of_is_SomeI)

section \<open>What a route guarantees\<close>

text \<open>The hard policy as a relation.\<close>

definition lawful ::
  "rbac_policy option \<Rightarrow> security_context \<Rightarrow> route_demand \<Rightarrow> 'w registry_entry \<Rightarrow> bool" where
  "lawful policy ctx demand e =
     (permits policy ctx [(''type'', ''model''), (''tenant_id'', ctx_tenant_id ctx),
        (''model'', bs_model_id (re_spec e))] ROUTE \<and>
      (dm_residency demand \<in> {None, Some [], Some (bs_residency (re_spec e))}) \<and>
      (case dm_max_cost_per_1k demand of None \<Rightarrow> True | Some mc \<Rightarrow> bs_cost_per_1k (re_spec e) \<le> mc) \<and>
      set (dm_required_capabilities demand) \<subseteq> set (bs_capabilities (re_spec e)))"

lemma rejection_None: "rejection policy ctx demand e = None \<longleftrightarrow> lawful policy ctx demand e"
proof -
  have c: "list_ex (\<lambda>cap. cap \<notin> set xs) ys \<longleftrightarrow> \<not> set ys \<subseteq> set xs" for xs ys :: "string list"
    by (auto simp: list_ex_iff)
  have t: "truthy r \<and> Some x \<noteq> r \<longleftrightarrow> r \<notin> {None, Some [], Some x}" for r x
    by (auto simp: truthy_def split: option.splits)
  show ?thesis
    unfolding rejection_def lawful_def check_def Let_def c t evaluate_allowed_iff
    by (auto split: option.splits)
qed

lemma set_eligible_entries:
  "set (eligible_entries policy ctx demand reg) = {e \<in> set (registry_all reg). lawful policy ctx demand e}"
  by (auto simp: eligible_entries_def rejection_None)

lemma set_healthy_entries:
  "set (healthy_entries now es) = {e \<in> set es. allows (now (bs_name (re_spec e))) (re_breaker e)}"
  by (auto simp: healthy_entries_def)

lemma set_rank_pool: "set (rank_pool difficulty pool) = set pool"
  by (simp add: rank_pool_def)

lemma rank_pool_hd: "rank_pool difficulty pool = e # es \<Longrightarrow> x \<in> set pool \<Longrightarrow>
    pool_score difficulty pool x \<le> pool_score difficulty pool e"
  using sorted_desc_hd_max [of "\<lambda>e. (pool_score difficulty pool e, bs_name (re_spec e))" pool e es x]
  by (auto simp: rank_pool_def)

lemma route_Inl_iff:
  "(\<exists>x. route policy ctx query toks demand now reg = Inl x) \<longleftrightarrow> eligible_entries policy ctx demand reg = []"
  by (simp add: route_def Let_def)

text \<open>The anatomy of a decision: the pool it was taken from and its best element.\<close>

lemma route_InrE:
  fixes reg :: "'w registry"
  assumes "route policy ctx query toks demand now reg = Inr d"
  obtains pool best rest where
    "set pool = {e \<in> set (registry_all reg). lawful policy ctx demand e \<and>
      (rd_from_safe_default d \<or> allows (now (bs_name (re_spec e))) (re_breaker e))}"
    and "rd_from_safe_default d \<longleftrightarrow> (\<forall>e \<in> set (registry_all reg). lawful policy ctx demand e \<longrightarrow>
      \<not> allows (now (bs_name (re_spec e))) (re_breaker e))"
    and "rank_pool (estimate_difficulty query toks) pool = best # rest"
    and "rd_backend d # rd_fallback_chain d = map (\<lambda>e. bs_name (re_spec e)) (best # rest)"
    and "rd_model_id d = bs_model_id (re_spec best)"
    and "distinct (map (\<lambda>e. bs_name (re_spec e)) (registry_all reg)) \<longrightarrow>
      distinct (rd_backend d # rd_fallback_chain d)"
proof -
  define el where "el = eligible_entries policy ctx demand reg"
  define he where "he = healthy_entries now el"
  define pool where "pool = (if he = [] then el else he)"
  have "el \<noteq> []" using assms by (auto simp: route_def Let_def el_def)
  then have "pool \<noteq> []" by (simp add: pool_def)
  then have "rank_pool (estimate_difficulty query toks) pool \<noteq> []"
    using set_rank_pool [of "estimate_difficulty query toks" pool] by (metis set_empty)
  then obtain best rest where br: "rank_pool (estimate_difficulty query toks) pool = best # rest"
    by (meson neq_Nil_conv)
  have d: "rd_backend d = bs_name (re_spec best)" "rd_model_id d = bs_model_id (re_spec best)"
    "rd_fallback_chain d = map (\<lambda>e. bs_name (re_spec e)) rest" "rd_from_safe_default d \<longleftrightarrow> he = []"
    using assms \<open>el \<noteq> []\<close> br
    by (auto simp: route_def Let_def simp flip: el_def he_def pool_def)
  have she: "set he = {e \<in> set (registry_all reg). lawful policy ctx demand e \<and>
      allows (now (bs_name (re_spec e))) (re_breaker e)}"
    by (auto simp: he_def el_def set_healthy_entries set_eligible_entries)
  have he: "he = [] \<longleftrightarrow> (\<forall>e \<in> set (registry_all reg). lawful policy ctx demand e \<longrightarrow>
      \<not> allows (now (bs_name (re_spec e))) (re_breaker e))"
    unfolding set_empty [of he, symmetric] she by blast
  have sp: "set pool = {e \<in> set (registry_all reg). lawful policy ctx demand e \<and>
      (rd_from_safe_default d \<or> allows (now (bs_name (re_spec e))) (re_breaker e))}"
    using she set_eligible_entries [of policy ctx demand reg] d(4)
    by (cases "he = []") (simp_all add: pool_def el_def)
  have "distinct (map (\<lambda>e. bs_name (re_spec e)) (rank_pool (estimate_difficulty query toks) pool))"
    if "distinct (map (\<lambda>e. bs_name (re_spec e)) (registry_all reg))"
  proof -
    have "distinct (map (\<lambda>e. bs_name (re_spec e)) pool)"
      using that by (simp add: pool_def he_def el_def healthy_entries_def eligible_entries_def distinct_map_filter)
    then show ?thesis by (simp add: rank_pool_def distinct_map)
  qed
  then have dist: "distinct (map (\<lambda>e. bs_name (re_spec e)) (registry_all reg)) \<longrightarrow>
      distinct (rd_backend d # rd_fallback_chain d)"
    unfolding br d(1,3) by simp
  show thesis
    by (rule that [OF sp he [folded d(4)] br _ d(2) dist]) (simp add: d)
qed

section \<open>Properties\<close>

text \<open>C22: Routing is lawful whatever the health of the backends. Every backend of a decision, the
  chosen one and its whole fallback chain, is a registered one that the tenant's policy, the
  residency, the budget and the required capabilities admit, and none appears twice; and the
  request is refused exactly when no registered backend is admitted.\<close>

theorem route_lawful:
  assumes "registry_ok reg"
  shows "case route policy ctx query toks demand now reg of
      Inl e \<Rightarrow> (\<exists>msg. e = NoEligibleBackend msg) \<and> (\<forall>e \<in> set (registry_all reg). \<not> lawful policy ctx demand e)
    | Inr d \<Rightarrow> distinct (rd_backend d # rd_fallback_chain d) \<and>
        (\<forall>n \<in> set (rd_backend d # rd_fallback_chain d). \<exists>e. registry_get reg n = Some e \<and>
           bs_name (re_spec e) = n \<and> lawful policy ctx demand e)"
proof (cases "route policy ctx query toks demand now reg")
  case (Inl e)
  then have "eligible_entries policy ctx demand reg = []" using route_Inl_iff by metis
  then have "\<forall>e \<in> set (registry_all reg). \<not> lawful policy ctx demand e"
    using set_eligible_entries [of policy ctx demand reg] by auto
  then show ?thesis using Inl by (auto simp: route_def Let_def split: if_splits)
next
  case (Inr d)
  then obtain pool best rest where
    pool: "set pool = {e \<in> set (registry_all reg). lawful policy ctx demand e \<and>
      (rd_from_safe_default d \<or> allows (now (bs_name (re_spec e))) (re_breaker e))}"
    and br: "rank_pool (estimate_difficulty query toks) pool = best # rest"
    and names: "rd_backend d # rd_fallback_chain d = map (\<lambda>e. bs_name (re_spec e)) (best # rest)"
    and dist: "distinct (map (\<lambda>e. bs_name (re_spec e)) (registry_all reg)) \<longrightarrow>
      distinct (rd_backend d # rd_fallback_chain d)"
    by (rule route_InrE)
  have "distinct (dkeys reg)" using assms by (simp add: registry_ok_def)
  then have "distinct (rd_backend d # rd_fallback_chain d)"
    using dist unfolding registry_names [OF assms] by simp
  moreover have "\<exists>e. registry_get reg n = Some e \<and> bs_name (re_spec e) = n \<and> lawful policy ctx demand e"
    if n: "n \<in> set (rd_backend d # rd_fallback_chain d)" for n
  proof -
    have "n \<in> (\<lambda>e. bs_name (re_spec e)) ` set pool"
      using n unfolding names set_map br [symmetric] set_rank_pool .
    then show ?thesis using registry_get_all [OF assms] pool by auto
  qed
  ultimately show ?thesis using Inr by simp
qed

text \<open>C36: Routing is healthy first and optimal. A decision offers open-breaker backends only when
  every admitted backend's breaker is open, and otherwise lists exactly the admitted backends
  whose breakers allow a call; the chosen one has the greatest utility among those listed.\<close>

theorem route_healthy_optimal:
  assumes "route policy ctx query toks demand now reg = Inr d"
  shows "\<exists>pool best. set (rd_backend d # rd_fallback_chain d) = (\<lambda>e. bs_name (re_spec e)) ` set pool \<and>
    set pool = {e \<in> set (registry_all reg). lawful policy ctx demand e \<and>
      (rd_from_safe_default d \<or> allows (now (bs_name (re_spec e))) (re_breaker e))} \<and>
    (rd_from_safe_default d \<longleftrightarrow> (\<forall>e \<in> set (registry_all reg). lawful policy ctx demand e \<longrightarrow>
      \<not> allows (now (bs_name (re_spec e))) (re_breaker e))) \<and>
    best \<in> set pool \<and> rd_backend d = bs_name (re_spec best) \<and> rd_model_id d = bs_model_id (re_spec best) \<and>
    (\<forall>e \<in> set pool. pool_score (estimate_difficulty query toks) pool e
       \<le> pool_score (estimate_difficulty query toks) pool best)"
  using assms
proof (rule route_InrE)
  fix pool best rest
  assume pool: "set pool = {e \<in> set (registry_all reg). lawful policy ctx demand e \<and>
      (rd_from_safe_default d \<or> allows (now (bs_name (re_spec e))) (re_breaker e))}"
    and safe: "rd_from_safe_default d \<longleftrightarrow> (\<forall>e \<in> set (registry_all reg). lawful policy ctx demand e \<longrightarrow>
      \<not> allows (now (bs_name (re_spec e))) (re_breaker e))"
    and br: "rank_pool (estimate_difficulty query toks) pool = best # rest"
    and names: "rd_backend d # rd_fallback_chain d = map (\<lambda>e. bs_name (re_spec e)) (best # rest)"
    and model: "rd_model_id d = bs_model_id (re_spec best)"
  have "best \<in> set pool"
    using set_rank_pool [of "estimate_difficulty query toks" pool] br by auto
  moreover have "set (rd_backend d # rd_fallback_chain d) = (\<lambda>e. bs_name (re_spec e)) ` set pool"
    unfolding names set_map br [symmetric] set_rank_pool ..
  moreover have "rd_backend d = bs_name (re_spec best)" using names by simp
  ultimately show ?thesis using rank_pool_hd [OF br] pool safe model by blast
qed

text \<open>The breaker in closed form. After any history of calls, a breaker refuses traffic exactly
  while the cooldown of the latest failure runs and at least \<open>threshold\<close> failures have followed
  the last success; one success closes it.\<close>

theorem breaker_refuses_iff:
  "(\<not> allows now (run_breaker h (new_breaker thr cd)) \<longleftrightarrow>
     (\<exists>t ts. trailing_failures h = t # ts \<and> thr \<le> int (length (t # ts)) \<and> now - t < td_seconds cd)) \<and>
   breaker_state now (run_breaker (h @ [Succeeded]) (new_breaker thr cd)) = CLOSED"
  by (auto simp: allows_def breaker_state_def run_breaker_closed_form trailing_snoc split: list.splits)

text \<open>A difficulty lies in the unit interval and grows with the size of the assembled context.\<close>

theorem difficulty_unit_interval:
  assumes "0 \<le> toks" and "toks \<le> toks'"
  shows "0 \<le> estimate_difficulty query toks \<and> estimate_difficulty query toks' \<le> 1 \<and>
    estimate_difficulty query toks \<le> estimate_difficulty query toks'"
proof -
  have ls: "0 \<le> length_signal query"
    by (simp add: length_signal_def fdiv_nonneg flt_of_int_def rnd64_nonneg)
  have ts: "0 \<le> token_signal toks" "token_signal toks \<le> token_signal toks'"
    using assms by (simp_all add: token_signal_def fdiv_nonneg flt_of_int_def rnd64_nonneg min.coboundedI2
        fdiv_mono rnd64_mono)
  have ks: "0 \<le> keyword_signal query" by (simp add: keyword_signal_def lit_def rnd64_nonneg)
  have l: "0 \<le> lit (45 / 100)" "0 \<le> lit (35 / 100)" by (simp_all add: lit_def rnd64_nonneg)
  show ?thesis
    unfolding estimate_difficulty_def using ls ts ks l
    by (auto intro!: fadd_nonneg fmul_nonneg min.coboundedI2 fadd_mono fmul_mono simp: min_le_iff_disj)
qed

section \<open>Witnesses\<close>

definition fx_spec :: "string \<Rightarrow> flt \<Rightarrow> flt \<Rightarrow> backend_spec" where
  "fx_spec name cost quality = \<lparr>bs_name = name, bs_model_id = name @ ''-1'', bs_cost_per_1k = cost,
     bs_quality = quality, bs_p50_latency_ms = 100, bs_residency = ''any'', bs_capabilities = [], bs_tags = []\<rparr>"

definition fx_registry :: "unit registry" where
  "fx_registry = register (fx_spec ''big'' 10 1) (fake_adapter DEFAULT_REPLY) None
     (register (fx_spec ''small'' 1 (1 / 2)) (fake_adapter DEFAULT_REPLY) None [])"

lemma fx_registry_ok: "registry_ok fx_registry"
  unfolding fx_registry_def by (intro registry_ok_register) (simp add: registry_ok_def)

lemma fx_lawful: "e \<in> set (registry_all fx_registry) \<Longrightarrow> lawful None (fx_ctx ''acme'' ''user:1'') no_demand e"
  by (auto simp: lawful_def permits_def same_tenant_def no_demand_def)

lemma fx_routed: "\<exists>d. route None (fx_ctx ''acme'' ''user:1'') ''hello'' 5 no_demand (\<lambda>_. 0) fx_registry = Inr d"
proof (cases "route None (fx_ctx ''acme'' ''user:1'') ''hello'' 5 no_demand (\<lambda>_. 0) fx_registry")
  case (Inl e)
  have "registry_all fx_registry \<noteq> []"
    by (simp add: fx_registry_def register_def registry_all_def)
  then show ?thesis
    using Inl fx_lawful route_Inl_iff [of None "fx_ctx ''acme'' ''user:1''" "''hello''" 5 no_demand "\<lambda>_. 0" fx_registry]
      set_eligible_entries [of None "fx_ctx ''acme'' ''user:1''" no_demand fx_registry] by auto
qed simp

lemma route_lawful_witness:
  "\<exists>d e. route None (fx_ctx ''acme'' ''user:1'') ''hello'' 5 no_demand (\<lambda>_. 0) fx_registry = Inr d \<and>
    registry_get fx_registry (rd_backend d) = Some e \<and> lawful None (fx_ctx ''acme'' ''user:1'') no_demand e"
proof -
  obtain d where d: "route None (fx_ctx ''acme'' ''user:1'') ''hello'' 5 no_demand (\<lambda>_. 0) fx_registry = Inr d"
    using fx_routed by blast
  then show ?thesis
    using route_lawful [OF fx_registry_ok, of None "fx_ctx ''acme'' ''user:1''" no_demand "''hello''" 5 "\<lambda>_. 0"]
    by auto
qed

lemma fx_entry: "\<exists>e \<in> set (registry_all fx_registry). re_breaker e = default_breaker"
  by (simp add: fx_registry_def register_def registry_all_def fx_spec_def)

lemma route_healthy_optimal_witness:
  "\<exists>d. route None (fx_ctx ''acme'' ''user:1'') ''hello'' 5 no_demand (\<lambda>_. 0) fx_registry = Inr d \<and>
    \<not> rd_from_safe_default d"
proof -
  obtain d where d: "route None (fx_ctx ''acme'' ''user:1'') ''hello'' 5 no_demand (\<lambda>_. 0) fx_registry = Inr d"
    using fx_routed by blast
  obtain e where e: "e \<in> set (registry_all fx_registry)" "re_breaker e = default_breaker"
    using fx_entry by blast
  have al: "allows 0 (re_breaker e)"
    by (simp add: e allows_def breaker_state_def default_breaker_def new_breaker_def)
  have "\<not> rd_from_safe_default d"
  proof
    assume "rd_from_safe_default d"
    then have "\<forall>e \<in> set (registry_all fx_registry). lawful None (fx_ctx ''acme'' ''user:1'') no_demand e \<longrightarrow>
        \<not> allows 0 (re_breaker e)"
      using route_healthy_optimal [OF d] by (elim exE conjE) (simp only: simp_thms)
    then show False using e(1) fx_lawful [OF e(1)] al by blast
  qed
  then show ?thesis using d by blast
qed

lemma difficulty_unit_interval_witness:
  "estimate_difficulty ''prove it'' 100 \<le> estimate_difficulty ''prove it'' 200 \<and>
   estimate_difficulty ''prove it'' 200 \<le> 1"
  using difficulty_unit_interval [of 100 200 "''prove it''"] by simp

lemma breaker_refuses_iff_witness:
  "\<not> allows 29 (run_breaker [Failed 1, Failed 2, Failed 3] (new_breaker 3 30))"
proof -
  have "td_seconds 30 = 30000000" by code_simp
  then show ?thesis using breaker_refuses_iff [of 29 "[Failed 1, Failed 2, Failed 3]" 3 30] by simp
qed

end
