(* ===== verification/Assembler.thy ===== *)
theory Assembler
  imports Fixtures
begin

text \<open>
  \<^verbatim>\<open>assembler/engine.py\<close>: the final ranking and packing of a request's context. \<open>assemble\<close>
  validates the weights, checks the hard reserves, blends the raw signals of every candidate into
  one score (\<open>blend\<close>), diversifies the best 128 (\<open>asm_mmr\<close>), packs them greedily into the soft
  budget (\<open>knapsack\<close>), places the survivors strongest-outwards (\<open>edge_load\<close>) and renders the
  messages. The lemmas give each stage's specification: the ranking is a permutation, the packing
  respects the budget and leaves out nothing that would still fit, the placement is a valley.
\<close>

definition MMR_TOPK :: nat where "MMR_TOPK = 128"

record turn =
  tn_role :: role
  tn_content :: string

record context_sources =
  sr_system_prompt :: string
  sr_latest_user_turn :: string
  sr_candidates :: "memory_candidate list"
  sr_history :: "turn list"

record candidate_decision =
  cd_memory_id :: string
  cd_blended :: flt
  cd_kept :: bool
  cd_reason :: string
  cd_placement :: "nat option"

record assembled_context =
  ac_messages :: "chat_message list"
  ac_used_tokens :: int
  ac_budget :: token_budget
  ac_decisions :: "candidate_decision list"

definition NL :: string where "NL = [CHR 0x0A]"

definition render_context :: "assembled_context \<Rightarrow> string" where
  "render_context ac =
     join (NL @ NL) (map (\<lambda>m. role_value (cm_role m) @ '': '' @ cm_content m) (ac_messages ac))"

type_synonym scored = "memory_candidate \<times> flt"

section \<open>Blending\<close>

definition source_prior :: "memory_candidate \<Rightarrow> flt" where
  "source_prior c = (if 1 \<le> mc_importance c then 1 else 1 / 2)"

text \<open>\<^verbatim>\<open>x or 0.0\<close> on an optional score.\<close>

definition or0 :: "flt option \<Rightarrow> flt" where
  "or0 x = (case x of None \<Rightarrow> 0 | Some v \<Rightarrow> v)"

definition blend_one :: "rank_weights \<Rightarrow> flt \<Rightarrow> memory_candidate \<Rightarrow> flt" where
  "blend_one w max_bm c =
     (let vec = or0 (mc_vector_score c);
          lex = (if 0 < max_bm then fdiv (or0 (mc_bm25_score c)) max_bm else 0)
      in fadd (fadd (fadd (fadd (fmul (rw_vector w) vec) (fmul (rw_lexical w) lex))
           (fmul (rw_recency w) (mc_recency_factor c))) (fmul (rw_importance w) (mc_importance c)))
           (fmul (rw_source w) (source_prior c)))"

definition blend :: "memory_candidate list \<Rightarrow> rank_weights \<Rightarrow> scored list" where
  "blend candidates w =
     (let max_bm = (if candidates = [] then 0
                    else Max (set (map (\<lambda>c. or0 (mc_bm25_score c)) candidates)))
      in map (\<lambda>c. (c, blend_one w max_bm c)) candidates)"

section \<open>Diversity\<close>

definition cid :: "scored \<Rightarrow> string" where
  "cid cb = mc_memory_id (fst cb)"

text \<open>\<^verbatim>\<open>{ranked[i][0].memory_id: vecs[i] for i in range(len(ranked))}\<close>.\<close>

definition vec_index :: "scored list \<Rightarrow> flt list list \<Rightarrow> (string, flt list) dict result" where
  "vec_index ranked vecs =
     (if length vecs < length ranked then Inl IndexError
      else Inr (foldl (\<lambda>d (cb, v). dset (cid cb) v d) [] (zip ranked vecs)))"

text \<open>The inner loop: the incremental maximum-similarity update.\<close>

fun update_sims ::
  "(string, flt list) dict \<Rightarrow> flt list \<Rightarrow> scored list \<Rightarrow> (string, flt) dict \<Rightarrow>
   (string, flt) dict result" where
  "update_sims vec_by_id cvec [] sims = Inr sims"
| "update_sims vec_by_id cvec (cb # rest) sims =
     bnd (dlookup vec_by_id (cid cb)) (\<lambda>v.
     bnd (cosine v cvec) (\<lambda>sim.
     bnd (dlookup sims (cid cb)) (\<lambda>m.
       update_sims vec_by_id cvec rest (if m < sim then dset (cid cb) sim sims else sims))))"

definition mmr_key :: "flt \<Rightarrow> (string, flt) dict \<Rightarrow> scored \<Rightarrow> flt result" where
  "mmr_key lam sims cb =
     bnd (dlookup sims (cid cb)) (\<lambda>m. Inr (fsub (fmul lam (snd cb)) (fmul (fsub 1 lam) m)))"

lemma argmax_map_result:
  "pool \<noteq> [] \<Longrightarrow> map_result f pool = Inr ks \<Longrightarrow> argmax ks < length pool"
  using argmax_less [of ks] map_result_length [of f pool ks] by fastforce

function asm_mmr_loop ::
  "flt \<Rightarrow> (string, flt list) dict \<Rightarrow> scored list \<Rightarrow> scored list \<Rightarrow> (string, flt) dict \<Rightarrow>
   scored list result" where
  "asm_mmr_loop lam vec_by_id pool selected sims =
     (if pool = [] then Inr selected
      else bnd (map_result (mmr_key lam sims) pool) (\<lambda>ks.
        let best_pos = argmax ks; chosen = pool ! best_pos; pool' = pop_at best_pos pool
        in bnd (dlookup vec_by_id (cid chosen)) (\<lambda>cvec.
           bnd (update_sims vec_by_id cvec pool' sims) (\<lambda>sims'.
             asm_mmr_loop lam vec_by_id pool' (selected @ [chosen]) sims'))))"
  by pat_completeness auto
termination
  by (relation "measure (\<lambda>(lam, vec_by_id, pool, selected, sims). length pool)")
    (simp_all add: argmax_map_result)

declare asm_mmr_loop.simps [simp del]

definition asm_mmr :: "embedder \<Rightarrow> scored list \<Rightarrow> flt \<Rightarrow> scored list result" where
  "asm_mmr E scored lam =
     (let ranked = take MMR_TOPK (sorted_desc snd scored)
      in if ranked = [] then Inr []
         else bnd (em_embed_many E (map (\<lambda>cb. mc_content (fst cb)) ranked)) (\<lambda>vecs.
              bnd (vec_index ranked vecs) (\<lambda>vec_by_id.
                asm_mmr_loop lam vec_by_id ranked []
                  (foldl (\<lambda>d cb. dset (cid cb) 0 d) [] ranked))))"

section \<open>Packing\<close>

fun pack ::
  "(string \<Rightarrow> int) \<Rightarrow> int \<Rightarrow> int \<Rightarrow> scored list \<Rightarrow> scored list \<times> candidate_decision list" where
  "pack cnt soft used [] = ([], [])"
| "pack cnt soft used ((c, b) # rest) =
     (let toks = cnt (mc_content c)
      in if used + toks \<le> soft
         then (let (surv, decs) = pack cnt soft (used + toks) rest
               in ((c, b) # surv, \<lparr>cd_memory_id = mc_memory_id c, cd_blended = b, cd_kept = True,
                    cd_reason = ''packed'', cd_placement = None\<rparr> # decs))
         else (let (surv, decs) = pack cnt soft used rest
               in (surv, \<lparr>cd_memory_id = mc_memory_id c, cd_blended = b, cd_kept = False,
                    cd_reason = ''evicted: soft budget full'', cd_placement = None\<rparr> # decs)))"

definition below_topk :: "scored list \<Rightarrow> scored list \<Rightarrow> candidate_decision list" where
  "below_topk scored selected =
     map (\<lambda>(c, b). \<lparr>cd_memory_id = mc_memory_id c, cd_blended = b, cd_kept = False,
            cd_reason = ''evicted: below MMR top-K'', cd_placement = None\<rparr>)
       (filter (\<lambda>cb. cid cb \<notin> set (map cid selected)) scored)"

definition knapsack ::
  "scored list \<Rightarrow> scored list \<Rightarrow> int \<Rightarrow> (string \<Rightarrow> int) \<Rightarrow>
   scored list \<times> candidate_decision list" where
  "knapsack scored selected soft cnt =
     (let (surv, decs) = pack cnt soft 0 selected in (surv, decs @ below_topk scored selected))"

section \<open>Placement\<close>

text \<open>The loop over \<^verbatim>\<open>enumerate(ranked)\<close> on a deque: even indices to the right end, odd
  indices to the left.\<close>

fun deque_loop :: "nat \<Rightarrow> 'a list \<Rightarrow> 'a list \<Rightarrow> 'a list" where
  "deque_loop i [] out = out"
| "deque_loop i (x # xs) out = deque_loop (Suc i) xs (if i mod 2 = 0 then out @ [x] else x # out)"

definition edge_key :: "scored \<Rightarrow> flt \<times> string" where
  "edge_key cb = (snd cb, cid cb)"

definition edge_load :: "scored list \<Rightarrow> scored list" where
  "edge_load survivors = deque_loop 0 (sort_key edge_key survivors) []"

definition place :: "scored list \<Rightarrow> candidate_decision list \<Rightarrow> candidate_decision list" where
  "place placed decs =
     (let pos_by_id = foldl (\<lambda>d (i, cb). dset (cid cb) i d) [] (enumerate 0 placed)
      in map (\<lambda>d. if cd_kept d then d\<lparr>cd_placement := dget pos_by_id (cd_memory_id d)\<rparr> else d) decs)"

section \<open>Rendering\<close>

definition RELEVANT :: string where
  "RELEVANT = ''Relevant context:'' @ NL"

definition render_messages :: "context_sources \<Rightarrow> scored list \<Rightarrow> chat_message list" where
  "render_messages sources placed =
     (if sr_system_prompt sources \<noteq> []
      then [\<lparr>cm_role = SYSTEM, cm_content = sr_system_prompt sources\<rparr>] else [])
     @ (if placed \<noteq> []
        then [\<lparr>cm_role = SYSTEM, cm_content = RELEVANT @
               join NL (map (\<lambda>(c, b). ''- '' @ mc_content c) placed)\<rparr>] else [])
     @ map (\<lambda>t. \<lparr>cm_role = tn_role t, cm_content = tn_content t\<rparr>) (sr_history sources)
     @ [\<lparr>cm_role = USER, cm_content = sr_latest_user_turn sources\<rparr>]"

section \<open>Assembly\<close>

definition token_count :: "tokenizer option \<Rightarrow> string \<Rightarrow> int" where
  "token_count tok text = (case tok of Some c \<Rightarrow> c text
     | None \<Rightarrow> conservative_count None text TOKENIZER_SAFETY_MARGIN)"

definition assemble ::
  "embedder \<Rightarrow> token_budget \<Rightarrow> context_sources \<Rightarrow> rank_weights \<Rightarrow> tokenizer option \<Rightarrow> flt \<Rightarrow>
   assembled_context result" where
  "assemble E budget sources weights tok mmr_lambda =
     bnd (validate_weights weights) (\<lambda>_.
     bnd (check_hard_reserves budget) (\<lambda>_.
       let cnt = token_count tok; scored = blend (sr_candidates sources) weights
       in bnd (asm_mmr E scored mmr_lambda) (\<lambda>selected.
          let (survivors, decisions) = knapsack scored selected (soft_budget budget) cnt;
              placed = edge_load survivors
          in Inr \<lparr>ac_messages = render_messages sources placed,
               ac_used_tokens = cnt (sr_system_prompt sources)
                 + cnt (sr_latest_user_turn sources)
                 + sum_list (map (\<lambda>(c, b). cnt (mc_content c)) placed)
                 + sum_list (map (\<lambda>t. cnt (tn_content t)) (sr_history sources)),
               ac_budget = budget,
               ac_decisions = place placed decisions\<rparr>)))"

section \<open>The ranking is a permutation, led by the best\<close>

lemma asm_mmr_loop_mset:
  "asm_mmr_loop lam vi pool selected sims = Inr out \<Longrightarrow>
   mset out = mset pool + mset selected \<and> prefix selected out"
proof (induction lam vi pool selected sims rule: asm_mmr_loop.induct)
  case (1 lam vi pool selected sims)
  show ?case
  proof (cases "pool = []")
    case True
    then show ?thesis using "1.prems" by (simp add: asm_mmr_loop.simps)
  next
    case False
    then obtain ks cvec sims' where ks: "map_result (mmr_key lam sims) pool = Inr ks"
      and cv: "dlookup vi (cid (pool ! argmax ks)) = Inr cvec"
      and us: "update_sims vi cvec (pop_at (argmax ks) pool) sims = Inr sims'"
      and rec: "asm_mmr_loop lam vi (pop_at (argmax ks) pool) (selected @ [pool ! argmax ks]) sims' = Inr out"
      using "1.prems" by (auto simp: asm_mmr_loop.simps [of lam vi pool] Let_def simp del: dlookup_Inr)
    have "argmax ks < length pool" using False ks by (rule argmax_map_result)
    then have "mset (pop_at (argmax ks) pool) + mset (selected @ [pool ! argmax ks]) = mset pool + mset selected"
      using mset_pop_at by (simp flip: add_mset_add_single)
    then show ?thesis using "1.IH" [OF False ks refl refl refl cv us rec] append_prefixD by metis
  qed
qed

lemma asm_mmr_mset:
  "asm_mmr E scored lam = Inr out \<Longrightarrow> mset out = mset (take MMR_TOPK (sorted_desc snd scored))"
  by (auto simp: asm_mmr_def Let_def split: if_splits dest!: asm_mmr_loop_mset)

text \<open>The first pick is the best blended score: the similarities all start at zero.\<close>

lemma asm_mmr_first:
  assumes "asm_mmr E scored lam = Inr out" and "0 \<le> lam" and "scored \<noteq> []"
  shows "out \<noteq> [] \<and> (\<forall>cb \<in> set scored. snd cb \<le> snd (hd out))"
proof -
  let ?ranked = "take MMR_TOPK (sorted_desc snd scored)"
  obtain r rs where r: "?ranked = r # rs"
    using assms(3) by (cases ?ranked) (auto simp: MMR_TOPK_def, metis length_0_conv length_sorted_desc)
  then obtain rs' where "sorted_desc snd scored = r # rs'"
    by (metis append_Cons append_take_drop_id)
  then have top: "\<forall>cb \<in> set scored. snd cb \<le> snd r" by (intro ballI sorted_desc_hd_max)
  let ?sims = "foldl (\<lambda>d cb. dset (cid cb) 0 d) [] ?ranked"
  obtain vi where loop: "asm_mmr_loop lam vi ?ranked [] ?sims = Inr out"
    using assms(1) r by (auto simp: asm_mmr_def Let_def split: if_splits)
  have key: "mmr_key lam ?sims cb = Inr (rnd64 (fmul lam (snd cb)))" if "cb \<in> set ?ranked" for cb
    using dget_foldl_dset_const [OF that, of cid "0::flt" "[]"] by (simp add: mmr_key_def dlookup_def fsub_def)
  then have keys: "map_result (mmr_key lam ?sims) ?ranked = Inr (map (\<lambda>cb. rnd64 (fmul lam (snd cb))) ?ranked)"
    by (intro map_result_Inr) simp
  have "argmax (map (\<lambda>cb. rnd64 (fmul lam (snd cb))) ?ranked) = 0"
  proof (rule argmax_0)
    have "\<forall>cb \<in> set ?ranked. snd cb \<le> snd r" using top by (auto dest!: in_set_takeD)
    then show "\<forall>v \<in> set (map (\<lambda>cb. rnd64 (fmul lam (snd cb))) ?ranked).
        v \<le> map (\<lambda>cb. rnd64 (fmul lam (snd cb))) ?ranked ! 0"
      using assms(2) unfolding r by (auto intro!: rnd64_mono fmul_mono)
  qed
  then have "\<exists>sims'. asm_mmr_loop lam vi rs [r] sims' = Inr out"
    using loop keys r by (auto simp: asm_mmr_loop.simps [of lam vi "r # rs"] Let_def)
  then have "prefix [r] out" using asm_mmr_loop_mset by blast
  then show ?thesis using top by (auto simp: prefix_def)
qed

section \<open>The packing\<close>

abbreviation tokens_of :: "(string \<Rightarrow> int) \<Rightarrow> scored list \<Rightarrow> int" where
  "tokens_of cnt cbs \<equiv> sum_list (map (\<lambda>(c, b). cnt (mc_content c)) cbs)"

lemma pack_budget: "used \<le> soft \<Longrightarrow> used + tokens_of cnt (fst (pack cnt soft used sel)) \<le> soft"
proof (induction cnt soft used sel rule: pack.induct)
  case (2 cnt soft used c b rest)
  then show ?case
    by (cases "used + cnt (mc_content c) \<le> soft") (auto simp: Let_def split_def)
qed simp

lemma pack_subseq: "subseq (fst (pack cnt soft used sel)) sel"
  by (induction cnt soft used sel rule: pack.induct) (auto simp: Let_def split_def)

lemma pack_ids: "map cd_memory_id (snd (pack cnt soft used sel)) = map cid sel"
  by (induction cnt soft used sel rule: pack.induct) (auto simp: Let_def split_def cid_def)

lemma pack_kept:
  "map cd_memory_id (filter cd_kept (snd (pack cnt soft used sel))) = map cid (fst (pack cnt soft used sel))"
  by (induction cnt soft used sel rule: pack.induct) (auto simp: Let_def split_def cid_def)

text \<open>Nothing that was left out would still fit beside what was packed.\<close>

lemma pack_maximal:
  "\<forall>t. 0 \<le> cnt t \<Longrightarrow> d \<in> set (snd (pack cnt soft used sel)) \<Longrightarrow> \<not> cd_kept d \<Longrightarrow>
   \<exists>(c, b) \<in> set sel. mc_memory_id c = cd_memory_id d \<and> cd_blended d = b \<and>
     soft < used + tokens_of cnt (fst (pack cnt soft used sel)) + cnt (mc_content c)"
proof (induction cnt soft used sel rule: pack.induct)
  case (2 cnt soft used c b rest)
  have nn: "0 \<le> tokens_of cnt xs" for xs
    using "2.prems"(1) by (intro sum_list_nonneg) auto
  show ?case
  proof (cases "used + cnt (mc_content c) \<le> soft")
    case True
    then have "d \<in> set (snd (pack cnt soft (used + cnt (mc_content c)) rest))"
      using "2.prems" by (auto simp: Let_def split_def)
    then show ?thesis using "2.IH"(1) [OF refl True "2.prems"(1) _ "2.prems"(3)] True
      by (auto simp: Let_def split_def add.assoc)
  next
    case False
    show ?thesis
    proof (cases "d \<in> set (snd (pack cnt soft used rest))")
      case True
      then show ?thesis using "2.IH"(2) [OF refl False "2.prems"(1) _ "2.prems"(3)] False
        by (auto simp: Let_def split_def)
    next
      case notin: False
      then have "cd_memory_id d = mc_memory_id c \<and> cd_blended d = b"
        using False "2.prems" by (auto simp: Let_def split_def)
      then show ?thesis using False nn [of "fst (pack cnt soft used rest)"]
        by (auto simp: Let_def split_def)
    qed
  qed
qed simp

section \<open>The placement\<close>

lemma mset_deque_loop [simp]: "mset (deque_loop i xs out) = mset xs + mset out"
  by (induction i xs out rule: deque_loop.induct) auto

lemma mset_edge_load [simp]: "mset (edge_load s) = mset s"
  by (simp add: edge_load_def)

lemma set_edge_load [simp]: "set (edge_load s) = set s"
  by (metis mset_edge_load set_mset_mset)

lemma length_edge_load [simp]: "length (edge_load s) = length s"
  by (metis mset_edge_load size_mset)

lemma edge_load_eq_Nil [simp]: "edge_load s = [] \<longleftrightarrow> s = []"
  by (metis mset_edge_load mset_zero_iff)

lemma deque_loop_append: "deque_loop i (xs @ ys) out = deque_loop (i + length xs) ys (deque_loop i xs out)"
  by (induction i xs out rule: deque_loop.induct) auto

definition valley :: "('a \<Rightarrow> 'b::linorder) \<Rightarrow> 'a list \<Rightarrow> bool" where
  "valley key p = (\<exists>l r. p = l @ r \<and> sorted_wrt (\<lambda>x y. key y \<le> key x) l \<and>
     sorted_wrt (\<lambda>x y. key x \<le> key y) r)"

lemma deque_loop_valley:
  "sorted_wrt (\<lambda>x y. key x \<le> key y) xs \<Longrightarrow> \<forall>x \<in> set xs. \<forall>y \<in> set out. key y \<le> key x \<Longrightarrow>
   valley key out \<Longrightarrow> valley key (deque_loop i xs out)"
proof (induction i xs out rule: deque_loop.induct)
  case (2 i x xs out)
  obtain l r where lr: "out = l @ r" "sorted_wrt (\<lambda>x y. key y \<le> key x) l" "sorted_wrt (\<lambda>x y. key x \<le> key y) r"
    using "2.prems"(3) by (auto simp: valley_def)
  have "valley key (out @ [x])"
    unfolding valley_def using lr "2.prems"(2)
    by (intro exI [of _ l] exI [of _ "r @ [x]"]) (auto simp: sorted_wrt_append)
  moreover have "valley key (x # out)"
    unfolding valley_def using lr "2.prems"(2)
    by (intro exI [of _ "x # l"] exI [of _ r]) auto
  ultimately show ?case using 2 by auto
qed simp

lemma sorted_edge_key: "sorted_wrt (\<lambda>x y. edge_key x \<le> edge_key y) (sort_key edge_key s)"
  using sorted_sort_key [of edge_key s] by (simp add: sorted_map)

lemma edge_load_valley: "valley edge_key (edge_load s)"
  unfolding edge_load_def by (rule deque_loop_valley [OF sorted_edge_key]) (auto simp: valley_def)

lemma edge_load_edges:
  assumes "2 \<le> length s"
  obtains a mid b where "edge_load s = a # mid @ [b]"
    and "\<forall>y \<in> set mid. edge_key y \<le> edge_key a \<and> edge_key y \<le> edge_key b"
proof -
  let ?xs = "sort_key edge_key s"
  have "2 \<le> length ?xs" using assms by simp
  then obtain ys u v where uv: "?xs = ys @ [u, v]"
    by (metis append_assoc append_butlast_last_id butlast.simps(1) append_Cons append_Nil
        length_append_singleton list.size(3) not_less_eq_eq numeral_2_eq_2 le_zero_eq nat.distinct(1))
  have sorted: "sorted_wrt (\<lambda>x y. edge_key x \<le> edge_key y) (ys @ [u, v])"
    using sorted_edge_key [of s] uv by simp
  define mid where "mid = deque_loop 0 ys []"
  have "set mid = set ys" unfolding mid_def by (metis mset_deque_loop mset.simps(1) add.right_neutral set_mset_mset)
  then have small: "\<forall>y \<in> set mid. edge_key y \<le> edge_key u \<and> edge_key y \<le> edge_key v"
    using sorted by (auto simp: sorted_wrt_append)
  have "edge_load s = v # mid @ [u] \<or> edge_load s = u # mid @ [v]"
    by (cases "even (length ys)")
      (simp_all add: edge_load_def uv deque_loop_append even_iff_mod_2_eq_zero mod_Suc flip: mid_def)
  then show thesis using that small by blast
qed

lemma place_kept:
  assumes "distinct (map cid placed)" and "i < length placed"
    and "d \<in> set decs" and "cd_kept d" and "cd_memory_id d = cid (placed ! i)"
  shows "d\<lparr>cd_placement := Some i\<rparr> \<in> set (place placed decs)"
proof -
  have dist: "distinct (map (\<lambda>x. cid (snd x)) (enumerate 0 placed))"
    using assms(1) by (simp flip: map_map [of cid snd, unfolded comp_def])
  have "(i, placed ! i) \<in> set (enumerate 0 placed)" using assms(2) by (simp add: in_set_enumerate_eq)
  then have "dget (foldl (\<lambda>d x. dset (cid (snd x)) (fst x) d) [] (enumerate 0 placed)) (cid (placed ! i)) = Some i"
    using dget_foldl_dset_mem [OF dist, of "(i, placed ! i)" fst] by simp
  then show ?thesis using assms(3-5) by (force simp: place_def Let_def split_def)
qed

lemma place_ids [simp]: "map cd_memory_id (place placed decs) = map cd_memory_id decs"
  by (simp add: place_def Let_def comp_def if_distrib cong: if_cong)

lemma place_kept_flags [simp]: "map cd_kept (place placed decs) = map cd_kept decs"
  by (simp add: place_def Let_def comp_def if_distrib cong: if_cong)

section \<open>Assembly as a whole\<close>

lemma assemble_InrE:
  assumes "assemble E budget src w tok lam = Inr ac"
  obtains selected surv decs where
    "validate_weights w = Inr ()" and "hard_floor budget \<le> tb_window_tokens budget"
    and "asm_mmr E (blend (sr_candidates src) w) lam = Inr selected"
    and "pack (token_count tok) (soft_budget budget) 0 selected = (surv, decs)"
    and "ac_messages ac = render_messages src (edge_load surv)"
    and "ac_used_tokens ac = token_count tok (sr_system_prompt src) + token_count tok (sr_latest_user_turn src)
      + tokens_of (token_count tok) (edge_load surv)
      + sum_list (map (\<lambda>t. token_count tok (tn_content t)) (sr_history src))"
    and "ac_budget ac = budget"
    and "ac_decisions ac = place (edge_load surv) (decs @ below_topk (blend (sr_candidates src) w) selected)"
  using assms by (auto simp: assemble_def Let_def knapsack_def split: prod.splits)

lemma tokens_of_edge_load: "tokens_of cnt (edge_load s) = tokens_of cnt s"
proof -
  have "tokens_of cnt xs = sum_mset (image_mset (\<lambda>(c, b). cnt (mc_content c)) (mset xs))" for xs
    by (induction xs) auto
  then show ?thesis by simp
qed

lemma blend_ids [simp]: "map cid (blend cs w) = map mc_memory_id cs"
  by (simp add: blend_def Let_def cid_def)

lemma blend_fst [simp]: "map fst (blend cs w) = cs"
  by (simp add: blend_def Let_def comp_def)

lemma selected_submset:
  "asm_mmr E scored lam = Inr selected \<Longrightarrow> mset selected \<subseteq># mset scored"
  by (metis append_take_drop_id asm_mmr_mset mset_append mset_sorted_desc mset_subset_eq_add_left)

text \<open>Under the contract of the embedder, the ranking does not raise.\<close>

definition keyed :: "('k, 'v) dict \<Rightarrow> 'k set \<Rightarrow> bool" where
  "keyed d K = (\<forall>k \<in> K. dget d k \<noteq> None)"

lemma update_sims_total:
  "\<forall>cb \<in> set pool. \<exists>v. dget vi (cid cb) = Some v \<and> length v = length cvec \<Longrightarrow>
   keyed sims (cid ` set pool) \<Longrightarrow>
   \<exists>sims'. update_sims vi cvec pool sims = Inr sims' \<and> (\<forall>k. dget sims k \<noteq> None \<longrightarrow> dget sims' k \<noteq> None)"
proof (induction vi cvec pool sims rule: update_sims.induct)
  case (2 vi cvec cb rest sims)
  from "2.prems"(1) obtain v where v: "dget vi (cid cb) = Some v" "length v = length cvec" by auto
  obtain sim where sim: "cosine v cvec = Inr sim" using cosine_total [OF v(2)] by blast
  obtain m where m: "dget sims (cid cb) = Some m" using "2.prems"(2) by (auto simp: keyed_def)
  have l: "dlookup vi (cid cb) = Inr v" "dlookup sims (cid cb) = Inr m" using v m by simp_all
  have "keyed (if m < sim then dset (cid cb) sim sims else sims) (cid ` set rest)"
    using "2.prems"(2) by (auto simp: keyed_def)
  then obtain sims' where s': "update_sims vi cvec rest (if m < sim then dset (cid cb) sim sims else sims) = Inr sims'"
    and d: "\<forall>k. dget (if m < sim then dset (cid cb) sim sims else sims) k \<noteq> None \<longrightarrow> dget sims' k \<noteq> None"
    using "2.IH" [OF l(1) sim l(2)] "2.prems"(1) by auto
  have "\<forall>k. dget sims k \<noteq> None \<longrightarrow> dget sims' k \<noteq> None"
    using d by (auto split: if_splits)
  then show ?case using s' l sim by (simp del: dlookup_Inr)
qed simp

lemma asm_mmr_loop_total:
  "\<forall>cb \<in> set pool. \<exists>v. dget vi (cid cb) = Some v \<and> length v = n \<Longrightarrow> keyed sims (cid ` set pool) \<Longrightarrow>
   \<exists>out. asm_mmr_loop lam vi pool selected sims = Inr out"
proof (induction lam vi pool selected sims rule: asm_mmr_loop.induct)
  case (1 lam vi pool selected sims)
  show ?case
  proof (cases "pool = []")
    case False
    have "\<forall>cb \<in> set pool. \<exists>k. mmr_key lam sims cb = Inr k"
      using "1.prems"(2) by (fastforce simp: keyed_def mmr_key_def dlookup_def)
    then have "\<exists>ks. map_result (mmr_key lam sims) pool = Inr ks"
      using map_result_Inr [of pool "mmr_key lam sims" "\<lambda>cb. projr (mmr_key lam sims cb)"] by force
    then obtain ks where ks: "map_result (mmr_key lam sims) pool = Inr ks" ..
    let ?c = "pool ! argmax ks" and ?pool' = "pop_at (argmax ks) pool"
    have "argmax ks < length pool" using False ks by (rule argmax_map_result)
    then have sub: "?c \<in> set pool" "set ?pool' \<subseteq> set pool" by (simp_all add: set_pop_at_subset)
    obtain cvec where cv: "dget vi (cid ?c) = Some cvec" "length cvec = n" using "1.prems"(1) sub by blast
    then have l: "dlookup vi (cid ?c) = Inr cvec" by simp
    have vec': "\<forall>cb \<in> set ?pool'. \<exists>v. dget vi (cid cb) = Some v \<and> length v = n"
      using "1.prems"(1) sub by blast
    have "keyed sims (cid ` set ?pool')" using "1.prems"(2) sub by (auto simp: keyed_def)
    then obtain sims' where us: "update_sims vi cvec ?pool' sims = Inr sims'"
      and dom: "\<forall>k. dget sims k \<noteq> None \<longrightarrow> dget sims' k \<noteq> None"
      using update_sims_total [of ?pool' vi cvec sims] vec' cv by auto
    have "keyed sims' (cid ` set ?pool')" using "1.prems"(2) sub dom by (auto simp: keyed_def)
    then show ?thesis using "1.IH" [OF False ks refl refl refl l us vec'] False ks l us
      by (simp add: asm_mmr_loop.simps [of lam vi pool] Let_def del: dlookup_Inr)
  qed (simp add: asm_mmr_loop.simps)
qed

lemma vec_index_keyed:
  assumes "length vecs = length ranked" and "\<forall>v \<in> set vecs. length v = n"
  shows "\<exists>vi. vec_index ranked vecs = Inr vi \<and>
    (\<forall>cb \<in> set ranked. \<exists>v. dget vi (cid cb) = Some v \<and> length v = n)"
proof -
  have "\<exists>v \<in> snd ` set zs. dget (foldl (\<lambda>d (cb, v). dset (cid cb) v d) [] zs) (cid cb) = Some v"
    if "cb \<in> fst ` set zs" for zs :: "(scored \<times> flt list) list" and cb
    using that
  proof (induction zs rule: rev_induct)
    case (snoc z zs)
    then show ?case by (cases "cid cb = cid (fst z)") (auto simp: split_def)
  qed simp
  then have "\<exists>v. dget (foldl (\<lambda>d (cb, v). dset (cid cb) v d) [] (zip ranked vecs)) (cid cb) = Some v \<and> length v = n"
    if "cb \<in> set ranked" for cb
    using that assms by (metis (no_types, lifting) image_iff list.set_map map_fst_zip map_snd_zip)
  then show ?thesis using assms(1) by (simp add: vec_index_def)
qed

context embedding_provider
begin

lemma asm_mmr_total: "\<exists>selected. asm_mmr E scored lam = Inr selected"
proof (cases "take MMR_TOPK (sorted_desc snd scored) = []")
  case False
  let ?ranked = "take MMR_TOPK (sorted_desc snd scored)"
  let ?vecs = "map emb (map (\<lambda>cb. mc_content (fst cb)) ?ranked)"
  obtain vi where vi: "vec_index ?ranked ?vecs = Inr vi"
    and ok: "\<forall>cb \<in> set ?ranked. \<exists>v. dget vi (cid cb) = Some v \<and> length v = em_dim E"
    using vec_index_keyed [of ?vecs ?ranked "em_dim E"] by auto
  have "keyed (foldl (\<lambda>d cb. dset (cid cb) (0::flt) d) [] ?ranked) (cid ` set ?ranked)"
    by (auto simp: keyed_def dget_foldl_dset_const)
  from asm_mmr_loop_total [OF ok this, of lam "[]"] show ?thesis
    using False vi by (auto simp: asm_mmr_def Let_def embed_many_emb simp del: map_map)
qed (simp add: asm_mmr_def)

lemma assemble_outcome:
  "assemble E budget src w tok lam =
    (if lit (1 / 1000000) < \<bar>fsub (weights_total w) 1\<bar> then Inl (PolicyError (weights_total w))
     else if tb_window_tokens budget < hard_floor budget
       then Inl (ContextOverflow (hard_floor budget) (tb_window_tokens budget))
     else Inr (projr (assemble E budget src w tok lam)))"
  using asm_mmr_total [of "blend (sr_candidates src) w" lam]
  by (auto simp: assemble_def validate_weights_def check_hard_reserves_def Let_def split: prod.splits)

end

lemma distinct_split_by_key:
  assumes "distinct (map f xs)" and "mset ys \<subseteq># mset xs"
  shows "mset (ys @ filter (\<lambda>x. f x \<notin> set (map f ys)) xs) = mset xs"
proof -
  have dx: "distinct xs" using assms(1) by (simp add: distinct_map)
  have sub: "set ys \<subseteq> set xs" using set_mset_mono [OF assms(2)] by simp
  have dy: "distinct ys" using assms(2) dx by (rule distinct_submset)
  have inj: "inj_on f (set xs)" using assms(1) by (simp add: distinct_map)
  have "x \<in> set ys" if "x \<in> set xs" "f x \<in> f ` set ys" for x
    using that sub inj by (metis imageE inj_onD subsetD)
  then have "set (ys @ filter (\<lambda>x. f x \<notin> set (map f ys)) xs) = set xs" using sub by auto
  moreover have "distinct (ys @ filter (\<lambda>x. f x \<notin> set (map f ys)) xs)" using dx dy by auto
  ultimately show ?thesis using dx by (metis set_eq_iff_mset_eq_distinct)
qed

lemma decisions_ids:
  assumes "distinct (map cid scored)" and "mset selected \<subseteq># mset scored"
  shows "mset (map cid selected @ map cd_memory_id (below_topk scored selected)) = mset (map cid scored)"
proof -
  let ?rest = "filter (\<lambda>cb. cid cb \<notin> set (map cid selected)) scored"
  have "map cd_memory_id (below_topk scored selected) = map cid ?rest"
    by (auto simp: below_topk_def cid_def)
  then have "mset (map cid selected @ map cd_memory_id (below_topk scored selected))
      = mset (map cid (selected @ ?rest))" by simp
  also have "\<dots> = mset (map cid scored)"
    unfolding mset_map distinct_split_by_key [OF assms] ..
  finally show ?thesis .
qed

lemma place_decisionE:
  assumes "d \<in> set (place pl ds)"
  obtains x where "x \<in> set ds" "cd_memory_id d = cd_memory_id x" "cd_reason d = cd_reason x"
  using assms by (auto simp: place_def Let_def split: if_splits)

lemma pack_kept_reason:
  "d \<in> set (snd (pack c so u sel)) \<Longrightarrow> cd_kept d \<Longrightarrow> cd_reason d = ''packed''"
  by (induction c so u sel rule: pack.induct) (auto simp: Let_def split_def split: if_splits)

lemma place_kept_length:
  "length (filter cd_kept (place pl ds)) = length (filter cd_kept ds)"
  by (induction ds) (auto simp: place_def Let_def)

lemma below_topk_not_kept: "filter cd_kept (below_topk scored selected) = []"
  by (auto simp: below_topk_def filter_empty_conv)

section \<open>Properties of the assembler\<close>

text \<open>C1: An assembled context never overruns its window. When the reserves are the token counts
  of the system prompt and of the user's turn, as the pipeline sets them, and there is no history,
  the tokens it counts plus the output reservation fit the window.\<close>

theorem assemble_fits_window:
  assumes "assemble E budget src w (Some cnt) lam = Inr ac"
    and "sr_history src = []"
    and "tb_system_reserve budget = cnt (sr_system_prompt src)"
    and "tb_latest_user_reserve budget = cnt (sr_latest_user_turn src)"
  shows "ac_used_tokens ac + tb_output_reserve budget \<le> tb_window_tokens budget"
  using assms(1)
proof (rule assemble_InrE)
  fix selected surv decs
  assume fits: "hard_floor budget \<le> tb_window_tokens budget"
    and pk: "pack (token_count (Some cnt)) (soft_budget budget) 0 selected = (surv, decs)"
    and used: "ac_used_tokens ac = token_count (Some cnt) (sr_system_prompt src)
      + token_count (Some cnt) (sr_latest_user_turn src)
      + tokens_of (token_count (Some cnt)) (edge_load surv)
      + sum_list (map (\<lambda>t. token_count (Some cnt) (tn_content t)) (sr_history src))"
  have "tokens_of (token_count (Some cnt)) surv \<le> soft_budget budget"
    using pack_budget [of 0 "soft_budget budget" "token_count (Some cnt)" selected] pk
    by (simp add: soft_budget_def)
  then show ?thesis
    using used fits assms(2-4) tokens_of_edge_load [of "token_count (Some cnt)" surv]
    by (simp add: token_count_def soft_budget_def hard_floor_def)
qed

text \<open>Assembly fails closed and only where it must. Over the shipped embedding provider, the
  outcome is decided by the inputs: weights that do not sum to one are a policy error, hard
  reserves beyond the window are an overflow carrying both numbers, and every other request is
  assembled, no vector, similarity or dictionary access raising on the way.\<close>

theorem assemble_fails_closed:
  "\<exists>ac. assemble (hashing_provider blake DEFAULT_DIM) budget src w tok lam =
    (if lit (1 / 1000000) < \<bar>fsub (weights_total w) 1\<bar> then Inl (PolicyError (weights_total w))
     else if tb_window_tokens budget < hard_floor budget
       then Inl (ContextOverflow (hard_floor budget) (tb_window_tokens budget))
     else Inr ac)"
  using hashing.assemble_outcome by blast

text \<open>C24: Greedy packing leaves no room unused. A candidate evicted because the soft budget was
  full would not fit into what remains: its tokens and those of the packed blocks exceed the soft
  budget together.\<close>

theorem assemble_maximal:
  assumes "assemble E budget src w (Some cnt) lam = Inr ac"
    and "sr_history src = []" and "\<forall>t. 0 \<le> cnt t"
    and "d \<in> set (ac_decisions ac)" and "cd_reason d = ''evicted: soft budget full''"
  shows "\<exists>c \<in> set (sr_candidates src). mc_memory_id c = cd_memory_id d \<and>
    soft_budget budget < ac_used_tokens ac - cnt (sr_system_prompt src)
      - cnt (sr_latest_user_turn src) + cnt (mc_content c)"
  using assms(1)
proof (rule assemble_InrE)
  fix selected surv decs
  assume mm: "asm_mmr E (blend (sr_candidates src) w) lam = Inr selected"
    and pk: "pack (token_count (Some cnt)) (soft_budget budget) 0 selected = (surv, decs)"
    and used: "ac_used_tokens ac = token_count (Some cnt) (sr_system_prompt src)
      + token_count (Some cnt) (sr_latest_user_turn src)
      + tokens_of (token_count (Some cnt)) (edge_load surv)
      + sum_list (map (\<lambda>t. token_count (Some cnt) (tn_content t)) (sr_history src))"
    and decs: "ac_decisions ac = place (edge_load surv) (decs @ below_topk (blend (sr_candidates src) w) selected)"
  obtain d' where d': "d' \<in> set decs" "\<not> cd_kept d'" "cd_memory_id d' = cd_memory_id d"
  proof -
    obtain d' where d': "d' \<in> set (decs @ below_topk (blend (sr_candidates src) w) selected)"
      "cd_memory_id d' = cd_memory_id d" "cd_reason d' = cd_reason d"
      using assms(4) unfolding decs by (elim place_decisionE) simp
    moreover have "d' \<notin> set (below_topk (blend (sr_candidates src) w) selected)"
      using d'(3) assms(5) by (auto simp: below_topk_def)
    moreover have "\<not> cd_kept d'" if "d' \<in> set decs"
      using that d'(3) assms(5) pk pack_kept_reason [of d' "token_count (Some cnt)" "soft_budget budget" 0 selected]
      by auto
    ultimately show thesis using that by auto
  qed
  then obtain c b where cb: "(c, b) \<in> set selected" "mc_memory_id c = cd_memory_id d"
    "soft_budget budget < tokens_of (token_count (Some cnt)) surv + token_count (Some cnt) (mc_content c)"
    using pack_maximal [of "token_count (Some cnt)" d' "soft_budget budget" 0 selected] pk assms(3)
    by (auto simp: token_count_def)
  have "fst ` set selected \<subseteq> set (sr_candidates src)"
    using set_mset_mono [OF selected_submset [OF mm]] by (auto simp: blend_def Let_def)
  then have "c \<in> set (sr_candidates src)" using cb(1) by force
  then show ?thesis using cb used assms(2) tokens_of_edge_load [of "token_count (Some cnt)" surv]
    by (auto simp: token_count_def)
qed


text \<open>The strongest candidate leads and its tier of relevance survives: the diversified
  ranking is a permutation of the best 128 blended candidates, and its first element has the
  greatest blended score of all.\<close>

theorem asm_mmr_ranks:
  assumes "asm_mmr E (blend cands w) lam = Inr out" and "0 \<le> lam" and "cands \<noteq> []"
  shows "mset out = mset (take MMR_TOPK (sorted_desc snd (blend cands w))) \<and>
    out \<noteq> [] \<and> (\<forall>cb \<in> set (blend cands w). snd cb \<le> snd (hd out))"
proof -
  have "blend cands w \<noteq> []" using assms(3) by (simp add: blend_def Let_def)
  then show ?thesis using asm_mmr_mset [OF assms(1)] asm_mmr_first [OF assms(1,2)] by blast
qed

text \<open>Placement fights lost-in-the-middle. The placed blocks are a rearrangement of the
  survivors whose strength falls and then rises, and nothing in between is stronger than either
  edge.\<close>

theorem edge_load_placement:
  "mset (edge_load s) = mset s \<and> valley edge_key (edge_load s) \<and>
   (length s < 2 \<or> (\<exists>a mid b. edge_load s = a # mid @ [b] \<and>
      (\<forall>y \<in> set mid. edge_key y \<le> min (edge_key a) (edge_key b))))"
proof (cases "length s < 2")
  case False
  then have "2 \<le> length s" by simp
  then obtain a mid b where "edge_load s = a # mid @ [b]"
    and "\<forall>y \<in> set mid. edge_key y \<le> edge_key a \<and> edge_key y \<le> edge_key b"
    by (rule edge_load_edges)
  then show ?thesis using edge_load_valley mset_edge_load min.boundedI by blast
qed (simp add: edge_load_valley)

text \<open>The system prompt is always first and the user's latest turn always last, verbatim,
  whatever was packed between them.\<close>

theorem assemble_messages:
  assumes "assemble E budget src w tok lam = Inr ac"
  shows "last (ac_messages ac) = \<lparr>cm_role = USER, cm_content = sr_latest_user_turn src\<rparr> \<and>
    (sr_system_prompt src = [] \<or>
      hd (ac_messages ac) = \<lparr>cm_role = SYSTEM, cm_content = sr_system_prompt src\<rparr>)"
  using assms by (rule assemble_InrE) (simp add: render_messages_def)

text \<open>What the token accounting leaves out, exactly. Under a tokenizer that counts characters,
  the rendered messages hold more tokens than the assembler accounts for as soon as one block is
  kept: 17 for the heading and three for every block, the bullets and the line ends. The window
  guarantee is about the counted tokens, not about the rendered prompt.\<close>

theorem assemble_uncounted_wrapper:
  assumes "assemble E budget src w (Some fx_count) lam = Inr ac"
  shows "sum_list (map (\<lambda>m. fx_count (cm_content m)) (ac_messages ac)) =
    ac_used_tokens ac + (let n = int (length (filter cd_kept (ac_decisions ac)))
      in if n = 0 then 0 else 17 + 3 * n)"
  using assms
proof (rule assemble_InrE)
  let ?sc = "blend (sr_candidates src) w"
  fix selected surv decs
  assume pk: "pack (token_count (Some fx_count)) (soft_budget budget) 0 selected = (surv, decs)"
    and used: "ac_used_tokens ac = token_count (Some fx_count) (sr_system_prompt src)
      + token_count (Some fx_count) (sr_latest_user_turn src)
      + tokens_of (token_count (Some fx_count)) (edge_load surv)
      + sum_list (map (\<lambda>t. token_count (Some fx_count) (tn_content t)) (sr_history src))"
    and msgs: "ac_messages ac = render_messages src (edge_load surv)"
    and ad: "ac_decisions ac = place (edge_load surv) (decs @ below_topk ?sc selected)"
  have "length (filter cd_kept (ac_decisions ac)) = length (filter cd_kept decs)"
    unfolding ad place_kept_length filter_append below_topk_not_kept by simp
  also have "\<dots> = length surv"
    using pack_kept [of "token_count (Some fx_count)" "soft_budget budget" 0 selected] pk
    by (metis fst_conv length_map snd_conv)
  finally have n: "length (filter cd_kept (ac_decisions ac)) = length (edge_load surv)" by simp
  have body: "int (length (join NL (map (\<lambda>(c, b). ''- '' @ mc_content c) xs))) =
      tokens_of (token_count (Some fx_count)) xs + (if xs = [] then 0 else 3 * int (length xs) - 1)" for xs
    by (induction xs rule: induct_list012)
      (auto simp: token_count_def fx_count_def NL_def)
  have tc: "token_count (Some fx_count) = fx_count" by (simp add: token_count_def fun_eq_iff)
  have body': "1 + int (length (join ''\<newline>'' (map (\<lambda>(c, b). CHR ''-'' # CHR '' '' # mc_content c) xs))) =
      (\<Sum>(c, b)\<leftarrow>xs. int (length (mc_content c))) + 3 * int (length xs)" if "xs \<noteq> []" for xs :: "scored list"
    using that body [of xs] by (simp add: tc fx_count_def NL_def)
  show ?thesis
    unfolding n msgs used render_messages_def
    using body' [of "edge_load surv"]
    by (cases "edge_load surv = []")
      (auto simp: tc comp_def fx_count_def RELEVANT_def NL_def Let_def simp del: length_edge_load edge_load_eq_Nil)
qed

section \<open>Witnesses\<close>

text \<open>A request assembled over the shipped embedding provider with the default weights.\<close>

definition fx_sources :: "memory_candidate list \<Rightarrow> context_sources" where
  "fx_sources cands = \<lparr>sr_system_prompt = ''be kind'', sr_latest_user_turn = ''hi'',
     sr_candidates = cands, sr_history = []\<rparr>"

definition fx_assemble :: "token_budget \<Rightarrow> memory_candidate list \<Rightarrow> assembled_context result" where
  "fx_assemble budget cands = assemble (hashing_provider fx_blake DEFAULT_DIM) budget
     (fx_sources cands) default_weights (Some fx_count) (7 / 10)"

definition fx_cands :: "memory_candidate list" where
  "fx_cands = [fx_candidate ''m1'' ''likes tea'' (1 / 2), fx_candidate ''m2'' ''from Rome'' (3 / 4)]"

lemma fx_assemble_ok: "hard_floor budget \<le> tb_window_tokens budget \<Longrightarrow> \<exists>ac. fx_assemble budget cands = Inr ac"
  using hashing.assemble_outcome [of fx_blake budget "fx_sources cands" default_weights "Some fx_count" "7 / 10"]
    validate_default_weights
  by (auto simp: fx_assemble_def validate_weights_def Let_def split: if_splits)

lemma assemble_fits_window_witness:
  "\<exists>ac. fx_assemble (fx_budget 60 10 7 2) fx_cands = Inr ac \<and> ac_used_tokens ac + 10 \<le> 60"
  using fx_assemble_ok [of "fx_budget 60 10 7 2" fx_cands]
    assemble_fits_window [where cnt = fx_count and budget = "fx_budget 60 10 7 2" and src = "fx_sources fx_cands"]
  by (fastforce simp: fx_assemble_def fx_sources_def fx_count_def)

lemma assemble_maximal_witness:
  "\<exists>ac d. fx_assemble (fx_budget 30 20 7 2) [fx_candidate ''m1'' ''likes tea'' (1 / 2)] = Inr ac \<and>
    d \<in> set (ac_decisions ac) \<and> cd_reason d = ''evicted: soft budget full'' \<and>
    1 < ac_used_tokens ac - 7 - 2 + 9"
proof -
  let ?b = "fx_budget 30 20 7 2" and ?cs = "[fx_candidate ''m1'' ''likes tea'' (1 / 2)]"
  obtain ac where ac: "assemble (hashing_provider fx_blake DEFAULT_DIM) ?b (fx_sources ?cs) default_weights
      (Some fx_count) (7 / 10) = Inr ac"
    using fx_assemble_ok [of ?b ?cs] by (auto simp: fx_assemble_def)
  then obtain d where d: "d \<in> set (ac_decisions ac)" "cd_reason d = ''evicted: soft budget full''"
    "cd_memory_id d = ''m1''"
  proof (rule assemble_InrE)
    let ?sc = "blend (sr_candidates (fx_sources ?cs)) default_weights"
    fix selected surv decs
    assume mm: "asm_mmr (hashing_provider fx_blake DEFAULT_DIM) ?sc (7 / 10) = Inr selected"
      and pk: "pack (token_count (Some fx_count)) (soft_budget ?b) 0 selected = (surv, decs)"
      and ad: "ac_decisions ac = place (edge_load surv) (decs @ below_topk ?sc selected)"
    obtain b where "?sc = [(fx_candidate ''m1'' ''likes tea'' (1 / 2), b)]"
      by (simp add: fx_sources_def blend_def Let_def)
    moreover from this have "selected = ?sc"
      using asm_mmr_mset [OF mm] by (simp add: sorted_desc_def MMR_TOPK_def)
    ultimately show thesis using pk
      by (intro that [of "\<lparr>cd_memory_id = ''m1'', cd_blended = b, cd_kept = False,
            cd_reason = ''evicted: soft budget full'', cd_placement = None\<rparr>"])
        (auto simp: ad place_def Let_def token_count_def fx_count_def soft_budget_def)
  qed
  then show ?thesis
    using assemble_maximal [OF ac _ _ d(1,2)] ac
    by (auto simp: fx_assemble_def fx_sources_def fx_count_def soft_budget_def intro!: exI [of _ ac] exI [of _ d])
qed


lemma assemble_messages_witness:
  "\<exists>ac. fx_assemble (fx_budget 60 10 7 2) fx_cands = Inr ac \<and>
    hd (ac_messages ac) = \<lparr>cm_role = SYSTEM, cm_content = ''be kind''\<rparr> \<and>
    last (ac_messages ac) = \<lparr>cm_role = USER, cm_content = ''hi''\<rparr>"
proof -
  obtain ac where ac: "fx_assemble (fx_budget 60 10 7 2) fx_cands = Inr ac"
    using fx_assemble_ok [of "fx_budget 60 10 7 2" fx_cands] by auto
  then show ?thesis
    using assemble_messages [OF ac [unfolded fx_assemble_def]] by (auto simp: fx_sources_def)
qed

lemma assemble_uncounted_wrapper_witness:
  "\<exists>ac. fx_assemble (fx_budget 60 10 7 2) fx_cands = Inr ac \<and>
    ac_used_tokens ac \<le> sum_list (map (\<lambda>m. fx_count (cm_content m)) (ac_messages ac))"
proof -
  obtain ac where ac: "fx_assemble (fx_budget 60 10 7 2) fx_cands = Inr ac"
    using fx_assemble_ok [of "fx_budget 60 10 7 2" fx_cands] by auto
  then show ?thesis
    using assemble_uncounted_wrapper [OF ac [unfolded fx_assemble_def]] by (auto simp: Let_def)
qed

lemma edge_load_placement_witness:
  "valley edge_key (edge_load (map (\<lambda>c. (c, 1)) fx_cands)) \<and>
   (\<exists>a mid b. edge_load (map (\<lambda>c. (c, 1)) fx_cands) = a # mid @ [b])"
  using edge_load_placement [of "map (\<lambda>c. (c, 1)) fx_cands"] by (auto simp: fx_cands_def)

lemma asm_mmr_ranks_witness:
  "\<exists>out. asm_mmr (hashing_provider fx_blake DEFAULT_DIM) (blend fx_cands default_weights) (7 / 10) = Inr out \<and>
    out \<noteq> [] \<and> snd (last (blend fx_cands default_weights)) \<le> snd (hd out)"
proof -
  obtain out where out: "asm_mmr (hashing_provider fx_blake DEFAULT_DIM) (blend fx_cands default_weights) (7 / 10) = Inr out"
    using hashing.asm_mmr_total by blast
  have "last (blend fx_cands default_weights) \<in> set (blend fx_cands default_weights)"
    by (rule last_in_set) (simp add: blend_def fx_cands_def Let_def)
  then show ?thesis using asm_mmr_ranks [OF out] out by (auto simp: fx_cands_def)
qed

end
