(* ===== verification/Json.thy ===== *)
theory Json
  imports Text Float64
begin

text \<open>
  JSON values and \<^verbatim>\<open>json.dumps(..., sort_keys=True, separators=(",", ":"))\<close>, which the replay
  bundle hashes. Python's \<^verbatim>\<open>repr\<close> of a float is the parameter \<open>fr\<close>; what the theorems use of it is
  \<open>float_repr\<close>. Numerals and quoted strings delimit themselves, hence so do all values, and two values
  have the same text just when they are equal up to the order of their keys (\<open>dumps_eq_iff\<close>).
\<close>

datatype json = JNull | JBool bool | JInt int | JFloat flt | JStr string
  | JArr "json list" | JObj "(string \<times> json) list"

section \<open>Printing\<close>

definition hex_digit :: "nat \<Rightarrow> char" where
  "hex_digit n = (if n < 10 then char_of (48 + n) else char_of (87 + n))"

text \<open>\<^verbatim>\<open>ensure_ascii\<close>: everything but printable ASCII is escaped.\<close>

definition esc_char :: "char \<Rightarrow> string" where
  "esc_char c =
     (if code c = 34 then [CHR 0x5C, c]
      else if code c = 92 then [CHR 0x5C, c]
      else if 32 \<le> code c \<and> code c \<le> 126 then [c]
      else if code c = 10 then [CHR 0x5C, CHR ''n'']
      else if code c = 13 then [CHR 0x5C, CHR ''r'']
      else if code c = 9 then [CHR 0x5C, CHR ''t'']
      else if code c = 8 then [CHR 0x5C, CHR ''b'']
      else if code c = 12 then [CHR 0x5C, CHR ''f'']
      else CHR 0x5C # ''u00'' @ [hex_digit (code c div 16), hex_digit (code c mod 16)])"

definition quote :: "string \<Rightarrow> string" where
  "quote s = CHR 0x22 # concat (map esc_char s) @ [CHR 0x22]"

fun dumps :: "(flt \<Rightarrow> string) \<Rightarrow> json \<Rightarrow> string" where
  "dumps fr JNull = ''null''"
| "dumps fr (JBool b) = (if b then ''true'' else ''false'')"
| "dumps fr (JInt i) = str_of_int i"
| "dumps fr (JFloat x) = fr x"
| "dumps fr (JStr s) = quote s"
| "dumps fr (JArr js) = ''['' @ join '','' (map (dumps fr) js) @ '']''"
| "dumps fr (JObj kvs) = ''{'' @ join '',''
     (map snd (sort_key fst (map (\<lambda>(k, v). (k, quote k @ '':'' @ dumps fr v)) kvs))) @ ''}''"

definition jopt :: "string option \<Rightarrow> json" where
  "jopt x = (case x of None \<Rightarrow> JNull | Some s \<Rightarrow> JStr s)"

definition jflt_opt :: "flt option \<Rightarrow> json" where
  "jflt_opt x = (case x of None \<Rightarrow> JNull | Some v \<Rightarrow> JFloat v)"

definition jint_opt :: "nat option \<Rightarrow> json" where
  "jint_opt x = (case x of None \<Rightarrow> JNull | Some v \<Rightarrow> JInt (int v))"

section \<open>Numerals and quoted strings delimit themselves\<close>

definition numeral_val :: "string \<Rightarrow> nat" where
  "numeral_val s = foldl (\<lambda>a c. 10 * a + (code c - 48)) 0 s"

lemma code_digit_char: "d < 10 \<Longrightarrow> code (digit_char d) = 48 + d"
  by (simp add: digit_char_def code_def)

lemma str_of_nat_val: "numeral_val (str_of_nat n) = n"
proof (induction n rule: str_of_nat.induct)
  case (1 n)
  show ?case
  proof (cases "n < 10")
    case True
    then show ?thesis by (simp add: str_of_nat.simps [of n] numeral_val_def code_digit_char)
  next
    case False
    then have "foldl (\<lambda>a c. 10 * a + (code c - 48)) 0 (str_of_nat (n div 10)) = n div 10"
      using 1 by (simp add: numeral_val_def)
    then show ?thesis using False by (simp add: str_of_nat.simps [of n] numeral_val_def code_digit_char)
  qed
qed

definition number_char :: "char \<Rightarrow> bool" where
  "number_char c = (is_digit c \<or> c \<in> set ''+-.e'')"

definition int_char :: "char \<Rightarrow> bool" where
  "int_char c = (is_digit c \<or> c = CHR ''-'')"

lemma str_of_nat_chars: "str_of_nat n \<noteq> [] \<and> (\<forall>c \<in> set (str_of_nat n). is_digit c)"
proof (induction n rule: str_of_nat.induct)
  case (1 n)
  have "is_digit (digit_char d)" if "d < 10" for d using that by (simp add: is_digit_def code_digit_char)
  then show ?case using 1 by (auto simp: str_of_nat.simps [of n])
qed

lemma str_of_int_chars: "str_of_int i \<noteq> [] \<and> (\<forall>c \<in> set (str_of_int i). int_char c)"
  using str_of_nat_chars by (auto simp: str_of_int_def int_char_def)

lemma minus_no_digit: "\<not> is_digit CHR ''-''"
  by (simp add: is_digit_def code_def)

lemma str_of_int_inj: "str_of_int i = str_of_int j \<longleftrightarrow> i = j"
proof -
  have inj: "str_of_nat m = str_of_nat n \<longleftrightarrow> m = n" for m n by (metis str_of_nat_val)
  have "str_of_nat m \<noteq> CHR ''-'' # s" for m s using str_of_nat_chars [of m] minus_no_digit by auto
  then show ?thesis by (auto simp: str_of_int_def inj dest: sym)
qed

lemma span_unique:
  assumes "a @ r = b @ r'" and "\<forall>c \<in> set a. p c" and "\<forall>c \<in> set b. p c"
    and "r = [] \<or> \<not> p (List.hd r)" and "r' = [] \<or> \<not> p (List.hd r')"
  shows "a = b \<and> r = r'"
proof -
  have "takeWhile p (s @ t) = s" if "\<forall>c \<in> set s. p c" "t = [] \<or> \<not> p (List.hd t)" for s t
    using that by (cases t) (auto simp: takeWhile_append2)
  then have "a = b" using assms by metis
  then show ?thesis using assms(1) by simp
qed

lemma hex_digit_inj: "m < 16 \<Longrightarrow> n < 16 \<Longrightarrow> hex_digit m = hex_digit n \<longleftrightarrow> m = n"
proof -
  have "\<forall>m \<in> set [0..<16]. \<forall>n \<in> set [0..<16]. hex_digit m = hex_digit n \<longrightarrow> m = n" by code_simp
  then show "m < 16 \<Longrightarrow> n < 16 \<Longrightarrow> hex_digit m = hex_digit n \<longleftrightarrow> m = n" by auto
qed

text \<open>The three shapes of an escape.\<close>

definition short_escapes :: "(nat \<times> char) list" where
  "short_escapes = [(34, CHR 0x22), (92, CHR 0x5C), (10, CHR ''n''), (13, CHR ''r''), (9, CHR ''t''),
     (8, CHR ''b''), (12, CHR ''f'')]"

lemma esc_char_cases:
  obtains (plain) "esc_char c = [c]" "c \<noteq> CHR 0x5C" "c \<noteq> CHR 0x22"
  | (short) e where "esc_char c = [CHR 0x5C, e]" "(code c, e) \<in> set short_escapes"
  | (hex) "esc_char c = CHR 0x5C # ''u00'' @ [hex_digit (code c div 16), hex_digit (code c mod 16)]"
proof -
  have q: "code CHR 0x22 = 34" "code CHR 0x5C = 92" by (simp_all add: code_def)
  have inj: "code c = code d \<Longrightarrow> c = d" for d by (simp add: code_def)
  consider "code c = 34" | "code c = 92" | "code c \<noteq> 34" "code c \<noteq> 92" "32 \<le> code c \<and> code c \<le> 126"
    | "code c \<in> {10, 13, 9, 8, 12}" | "code c \<notin> {34, 92, 10, 13, 9, 8, 12}" "\<not> (32 \<le> code c \<and> code c \<le> 126)"
    by blast
  then show thesis
  proof cases
    case 1
    then show thesis using inj [of "CHR 0x22"] by (intro short [of "CHR 0x22"]) (simp_all add: q esc_char_def short_escapes_def)
  next
    case 2
    then show thesis using inj [of "CHR 0x5C"] by (intro short [of "CHR 0x5C"]) (simp_all add: q esc_char_def short_escapes_def)
  next
    case 3
    then show thesis by (intro plain) (auto simp: esc_char_def q)
  next
    case 4
    then show thesis
      by (intro short [of "if code c = 10 then CHR ''n'' else if code c = 13 then CHR ''r''
          else if code c = 9 then CHR ''t'' else if code c = 8 then CHR ''b'' else CHR ''f''"])
        (auto simp: esc_char_def short_escapes_def)
  next
    case 5
    then show thesis by (intro hex) (simp add: esc_char_def)
  qed
qed

lemma short_escapes_inj:
  "(m, e) \<in> set short_escapes \<Longrightarrow> (n, e) \<in> set short_escapes \<Longrightarrow> m = n"
  "(m, CHR ''u'') \<notin> set short_escapes"
  by (auto simp: short_escapes_def)

lemma esc_char_unique: "esc_char c @ x = esc_char d @ y \<Longrightarrow> c = d \<and> x = y"
proof -
  assume eq: "esc_char c @ x = esc_char d @ y"
  have inj: "code c = code d \<Longrightarrow> c = d" by (simp add: code_def)
  have hex: "code c div 16 = code d div 16 \<Longrightarrow> code c mod 16 = code d mod 16 \<Longrightarrow> code c = code d"
    by (metis div_mult_mod_eq)
  have less: "code e div 16 < 16" "code e mod 16 < 16" for e
    using nat_of_char_less_256 [of e] by (simp_all add: code_def less_mult_imp_div_less)
  show ?thesis
    by (cases c rule: esc_char_cases; cases d rule: esc_char_cases)
      (use eq less in \<open>auto simp: hex_digit_inj short_escapes_inj(2) dest: short_escapes_inj(1) intro: inj hex\<close>)
qed

lemma esc_char_no_quote: "esc_char c \<noteq> [] \<and> List.hd (esc_char c) \<noteq> CHR 0x22"
  by (cases c rule: esc_char_cases) auto

lemma quote_unique: "quote s @ r = quote t @ r' \<Longrightarrow> s = t \<and> r = r'"
proof -
  have "concat (map esc_char s) @ CHR 0x22 # r = concat (map esc_char t) @ CHR 0x22 # r' \<Longrightarrow> s = t \<and> r = r'"
  proof (induction s arbitrary: t)
    case Nil
    then show ?case using esc_char_no_quote [of "List.hd t"] by (cases t; cases "esc_char (List.hd t)") auto
  next
    case (Cons c s)
    show ?case
    proof (cases t)
      case Nil
      then show ?thesis using Cons.prems esc_char_no_quote [of c] by (cases "esc_char c") auto
    next
      case (Cons d u)
      then show ?thesis
        using Cons.prems Cons.IH [of u] esc_char_unique [of c _ d] by auto
    qed
  qed
  then show "quote s @ r = quote t @ r' \<Longrightarrow> s = t \<and> r = r'" by (simp add: quote_def)
qed

section \<open>Canonical text\<close>

text \<open>A value up to the order of the keys of its objects.\<close>

fun canon :: "json \<Rightarrow> json" where
  "canon (JArr js) = JArr (map canon js)"
| "canon (JObj kvs) = JObj (sort_key fst (map (\<lambda>(k, v). (k, canon v)) kvs))"
| "canon j = j"

text \<open>What is documented of \<open>repr\<close>: the characters of a number, no two floats alike, and never the
  text of an integer.\<close>

definition float_repr :: "(flt \<Rightarrow> string) \<Rightarrow> bool" where
  "float_repr fr \<longleftrightarrow> inj fr \<and> (\<forall>x. fr x \<noteq> [] \<and> int_char (List.hd (fr x)) \<and> (\<forall>c \<in> set (fr x). number_char c)
     \<and> (\<exists>c \<in> set (fr x). \<not> int_char c))"

definition delim :: "string \<Rightarrow> bool" where
  "delim r = (r = [] \<or> List.hd r \<in> {CHR '','', CHR '']'', CHR ''}''})"

lemma delim_number: "delim r \<Longrightarrow> r = [] \<or> \<not> number_char (List.hd r)"
  by (auto simp: delim_def number_char_def is_digit_def code_def)

lemma int_number_char: "int_char c \<Longrightarrow> number_char c"
  by (auto simp: int_char_def number_char_def)

lemma number_unique:
  "a @ r = b @ r' \<Longrightarrow> \<forall>c \<in> set a. number_char c \<Longrightarrow> \<forall>c \<in> set b. number_char c \<Longrightarrow> delim r \<Longrightarrow> delim r' \<Longrightarrow>
   a = b \<and> r = r'"
  by (rule span_unique [of _ _ _ _ number_char]) (auto dest: delim_number)

lemma insort_key_map: "insort_key f (h x) (map h xs) = map h (insort_key (\<lambda>x. f (h x)) x xs)"
  by (induction xs) auto

lemma sort_key_map: "sort_key f (map h xs) = map h (sort_key (\<lambda>x. f (h x)) xs)"
  by (induction xs) (simp_all add: insort_key_map)

definition pair_text :: "(flt \<Rightarrow> string) \<Rightarrow> string \<times> json \<Rightarrow> string" where
  "pair_text fr kv = quote (fst kv) @ '':'' @ dumps fr (snd kv)"

lemma dumps_object: "dumps fr (JObj kvs) = ''{'' @ join '','' (map (pair_text fr) (sort_key fst kvs)) @ ''}''"
proof -
  have "map (\<lambda>(k, v). (k, quote k @ '':'' @ dumps fr v)) kvs = map (\<lambda>kv. (fst kv, pair_text fr kv)) kvs"
    by (simp add: pair_text_def case_prod_beta)
  then show ?thesis unfolding dumps.simps by (simp only: sort_key_map) (simp add: comp_def)
qed

lemma canon_object: "canon (JObj kvs) = JObj (map (\<lambda>kv. (fst kv, canon (snd kv))) (sort_key fst kvs))"
proof -
  have "map (\<lambda>(k, v). (k, canon v)) kvs = map (\<lambda>kv. (fst kv, canon (snd kv))) kvs" by (simp add: case_prod_beta)
  then show ?thesis unfolding canon.simps by (simp only: sort_key_map) simp
qed

text \<open>A bracketed, comma-separated list of texts that delimit themselves.\<close>

lemma join_unique:
  assumes "\<And>x y s s'. x \<in> set xs \<Longrightarrow> f x @ s = f y @ s' \<Longrightarrow> delim s \<Longrightarrow> delim s' \<Longrightarrow> g x = g y \<and> s = s'"
    and "\<And>x. \<not> delim (f x)" and "e \<in> {CHR '']'', CHR ''}''}"
    and "join '','' (map f xs) @ e # r = join '','' (map f ys) @ e # r'"
  shows "map g xs = map g ys \<and> r = r'"
  using assms(1,4)
proof (induction xs arbitrary: ys)
  case Nil
  then show ?case
  proof (cases ys)
    case (Cons y ys')
    moreover have "f y \<noteq> [] \<and> List.hd (f y) \<noteq> e" using assms(2) [of y] assms(3) by (auto simp: delim_def)
    ultimately show ?thesis using Nil.prems(2) by (cases ys'; cases "f y") auto
  qed simp
next
  case (Cons x xs)
  show ?case
  proof (cases ys)
    case Nil
    have "f x \<noteq> [] \<and> List.hd (f x) \<noteq> e" using assms(2) [of x] assms(3) by (auto simp: delim_def)
    then show ?thesis using Cons.prems(2) Nil by (cases xs; cases "f x") auto
  next
    case (Cons y ys')
    let ?s = "if xs = [] then e # r else CHR '','' # join '','' (map f xs) @ e # r"
    let ?t = "if ys' = [] then e # r' else CHR '','' # join '','' (map f ys') @ e # r'"
    have "f x @ ?s = f y @ ?t" using Cons.prems(2) \<open>ys = y # ys'\<close>
      by (cases "xs = []"; cases "ys' = []") (simp_all add: join_Cons)
    moreover have "delim ?s" "delim ?t" using assms(3) by (auto simp: delim_def)
    ultimately have g: "g x = g y \<and> ?s = ?t" by (intro Cons.prems(1)) simp_all
    have "map g xs = map g ys' \<and> r = r'" if "xs \<noteq> []" "ys' \<noteq> []"
    proof (rule Cons.IH)
      show "join '','' (map f xs) @ e # r = join '','' (map f ys') @ e # r'" using that g by simp
    qed (rule Cons.prems(1), simp_all)
    then show ?thesis using g Cons assms(3) by (auto split: if_splits)
  qed
qed

lemma int_char_no_delim: "int_char c \<Longrightarrow> c \<notin> {CHR '','', CHR '']'', CHR ''}''} \<union> set ''ntf[{'' \<union> {CHR 0x22}"
  by (auto simp: int_char_def is_digit_def code_def)

lemma dumps_start:
  assumes "float_repr fr"
  shows "\<not> delim (dumps fr j)"
proof (cases j)
  case (JInt i)
  then show ?thesis using str_of_int_chars [of i] int_char_no_delim
    by (cases "str_of_int i") (auto simp: delim_def)
next
  case (JFloat x)
  then have "fr x \<noteq> []" "int_char (List.hd (fr x))" using assms by (auto simp: float_repr_def)
  then show ?thesis using int_char_no_delim [of "List.hd (fr x)"] JFloat by (auto simp: delim_def)
qed (auto simp: delim_def quote_def)

text \<open>What the first character tells of a value.\<close>

definition first_kind :: "json \<Rightarrow> char" where
  "first_kind j = (case j of JNull \<Rightarrow> CHR ''n'' | JBool b \<Rightarrow> (if b then CHR ''t'' else CHR ''f'')
     | JInt _ \<Rightarrow> CHR ''0'' | JFloat _ \<Rightarrow> CHR ''0'' | JStr _ \<Rightarrow> CHR 0x22 | JArr _ \<Rightarrow> CHR ''['' | JObj _ \<Rightarrow> CHR ''{'')"

lemma dumps_hd:
  assumes "float_repr fr"
  shows "first_kind j = (let c = List.hd (dumps fr j @ r) in if int_char c then CHR ''0'' else c)"
proof (cases j)
  case (JInt i)
  then show ?thesis using str_of_int_chars [of i] by (cases "str_of_int i") (auto simp: first_kind_def)
next
  case (JFloat x)
  then show ?thesis using assms by (auto simp: float_repr_def first_kind_def hd_append)
qed (use int_char_no_delim in \<open>auto simp: first_kind_def quote_def Let_def\<close>)

lemma dumps_kind:
  "float_repr fr \<Longrightarrow> dumps fr j @ r = dumps fr j' @ r' \<Longrightarrow> first_kind j = first_kind j'"
  by (simp add: dumps_hd [of fr j r] dumps_hd [of fr j' r'])

definition is_number :: "json \<Rightarrow> bool" where
  "is_number j = (case j of JInt _ \<Rightarrow> True | JFloat _ \<Rightarrow> True | _ \<Rightarrow> False)"

lemma dumps_number:
  assumes "float_repr fr" and "is_number j"
  shows "\<forall>c \<in> set (dumps fr j). number_char c"
  using assms str_of_int_chars int_number_char by (auto simp: is_number_def float_repr_def split: json.splits)

lemma dumps_number_inj:
  assumes "float_repr fr" and "is_number j" and "is_number j'" and "dumps fr j = dumps fr j'"
  shows "j = j'"
proof -
  have "str_of_int i \<noteq> fr x" for i x
  proof -
    obtain c where "c \<in> set (fr x)" "\<not> int_char c" using assms(1) unfolding float_repr_def by blast
    then show ?thesis using str_of_int_chars [of i] by auto
  qed
  then show ?thesis
    using assms by (auto simp: is_number_def str_of_int_inj float_repr_def dest: injD sym split: json.splits)
qed

lemma dumps_scalar_unique:
  assumes "float_repr fr" and "dumps fr j @ r = dumps fr j' @ r'" and "delim r" and "delim r'"
    and "first_kind j \<notin> set ''[{''"
  shows "canon j = canon j' \<and> r = r'"
proof (cases "is_number j")
  case True
  then have "is_number j'"
    using dumps_kind [OF assms(1,2)] by (auto simp: is_number_def first_kind_def split: json.splits if_splits)
  then show ?thesis
    using number_unique [OF assms(2)] assms dumps_number dumps_number_inj True by blast
next
  case False
  note kind = dumps_kind [OF assms(1,2)]
  show ?thesis
  proof (cases j)
    case (JStr s)
    then obtain t where "j' = JStr t" using kind by (cases j') (auto simp: first_kind_def split: if_splits)
    then show ?thesis using JStr quote_unique [of s r t r'] assms(2) by simp
  next
    case JNull
    then have "j' = JNull" using kind by (cases j') (auto simp: first_kind_def split: if_splits)
    then show ?thesis using JNull assms(2) by simp
  next
    case (JBool b)
    then have "j' = JBool b" using kind by (cases j') (auto simp: first_kind_def split: if_splits)
    then show ?thesis using JBool assms(2) by (cases b) simp_all
  qed (use False assms(5) in \<open>simp_all add: is_number_def first_kind_def\<close>)
qed

lemma dumps_unique:
  assumes "float_repr fr"
  shows "dumps fr j @ r = dumps fr j' @ r' \<Longrightarrow> delim r \<Longrightarrow> delim r' \<Longrightarrow> canon j = canon j' \<and> r = r'"
proof (induction j arbitrary: j' r r')
  case (JArr js)
  obtain js' where j': "j' = JArr js'"
    using dumps_kind [OF assms JArr(2)] by (cases j') (auto simp: first_kind_def split: if_splits)
  have "map canon js = map canon js' \<and> r = r'"
  proof (rule join_unique [of js "dumps fr" canon "CHR '']''"])
    show "join '','' (map (dumps fr) js) @ CHR '']'' # r = join '','' (map (dumps fr) js') @ CHR '']'' # r'"
      using JArr.prems(1) unfolding j' by simp
  qed (rule JArr.IH, simp_all add: dumps_start [OF assms])
  then show ?case by (simp add: j')
next
  case (JObj kvs)
  obtain kvs' where j': "j' = JObj kvs'"
    using dumps_kind [OF assms JObj(2)] by (cases j') (auto simp: first_kind_def split: if_splits)
  have "map (\<lambda>kv. (fst kv, canon (snd kv))) (sort_key fst kvs) = map (\<lambda>kv. (fst kv, canon (snd kv))) (sort_key fst kvs') \<and> r = r'"
  proof (rule join_unique [of "sort_key fst kvs" "pair_text fr" _ "CHR ''}''"])
    show "join '','' (map (pair_text fr) (sort_key fst kvs)) @ CHR ''}'' # r =
      join '','' (map (pair_text fr) (sort_key fst kvs')) @ CHR ''}'' # r'"
      using JObj.prems(1) unfolding j' dumps_object by simp
  next
    fix x y s s'
    assume x: "x \<in> set (sort_key fst kvs)" and eq: "pair_text fr x @ s = pair_text fr y @ s'" and d: "delim s" "delim s'"
    have q: "quote (fst x) @ '':'' @ dumps fr (snd x) @ s = quote (fst y) @ '':'' @ dumps fr (snd y) @ s'"
      using eq by (simp add: pair_text_def)
    then have "fst x = fst y" "dumps fr (snd x) @ s = dumps fr (snd y) @ s'" using quote_unique [OF q] by simp_all
    then show "(fst x, canon (snd x)) = (fst y, canon (snd y)) \<and> s = s'"
      using JObj.IH [of x "snd x" s "snd y" s'] x d by (simp add: snds.simps)
  qed (simp_all add: pair_text_def quote_def delim_def)
  then show ?case by (simp only: j' canon_object)
next
  case JNull
  then show ?case by (intro dumps_scalar_unique [OF assms, where r = r]) (simp_all add: first_kind_def)
next
  case (JBool b)
  then show ?case by (intro dumps_scalar_unique [OF assms, where r = r]) (simp_all add: first_kind_def)
next
  case (JInt i)
  then show ?case by (intro dumps_scalar_unique [OF assms, where r = r]) (simp_all add: first_kind_def)
next
  case (JFloat x)
  then show ?case by (intro dumps_scalar_unique [OF assms, where r = r]) (simp_all add: first_kind_def)
next
  case (JStr s)
  then show ?case by (intro dumps_scalar_unique [OF assms, where r = r]) (simp_all add: first_kind_def)
qed

lemma dumps_canon: "dumps fr (canon j) = dumps fr j"
proof (induction j)
  case (JArr js)
  then show ?case by (simp cong: map_cong)
next
  case (JObj kvs)
  let ?h = "\<lambda>kv. (fst kv, canon (snd kv))"
  have "sort_key fst (map ?h (sort_key fst kvs)) = map ?h (sort_key fst kvs)"
    by (simp add: sort_key_map sort_key_id_if_sorted)
  moreover have "map (\<lambda>kv. pair_text fr (?h kv)) (sort_key fst kvs) = map (pair_text fr) (sort_key fst kvs)"
    by (rule map_cong) (auto simp: pair_text_def intro: JObj snds.intros)
  ultimately show ?case unfolding canon_object dumps_object by (simp only: map_map comp_def)
qed simp_all

text \<open>Two values have the same text just when they are the same up to the order of keys.\<close>

lemma dumps_eq_iff: "float_repr fr \<Longrightarrow> dumps fr j = dumps fr j' \<longleftrightarrow> canon j = canon j'"
  using dumps_unique [of fr j "[]" j' "[]"] dumps_canon [of fr j] dumps_canon [of fr j'] by (auto simp: delim_def)

text \<open>Objects printed from the same keys.\<close>

lemma canon_same_keys:
  assumes "canon (JObj kvs) = canon (JObj kvs')" and "map fst kvs = map fst kvs'" and "distinct (map fst kvs)"
  shows "map (canon \<circ> snd) kvs = map (canon \<circ> snd) kvs'"
proof -
  let ?h = "\<lambda>kv. (fst kv, canon (snd kv))"
  have "map ?h (sort_key fst kvs) = map ?h (sort_key fst kvs')" using assms(1) unfolding canon_object by (rule json.inject(6) [THEN iffD1])
  then have "set (map ?h (sort_key fst kvs)) = set (map ?h (sort_key fst kvs'))" by (rule arg_cong)
  then have m: "set (map ?h kvs) = set (map ?h kvs')" by (simp only: set_map set_sort)
  have "map ?h kvs = map ?h kvs'"
  proof (rule nth_equalityI)
    fix i assume i: "i < length (map ?h kvs)"
    have len: "length kvs = length kvs'" using assms(2) by (metis length_map)
    have "map ?h kvs ! i \<in> set (map ?h kvs')" using m i by (metis nth_mem)
    then obtain k where k: "k < length kvs'" "map ?h kvs ! i = map ?h kvs' ! k" by (auto simp: in_set_conv_nth)
    then have "map fst kvs ! i = map fst kvs' ! k" using i by simp
    then have "map fst kvs ! i = map fst kvs ! k" using assms(2) by simp
    then have "i = k" using nth_eq_iff_index_eq [OF assms(3), of i k] i k(1) len by simp
    then show "map ?h kvs ! i = map ?h kvs' ! i" using k by simp
  qed (use assms(2) in \<open>metis length_map\<close>)
  then have "map snd (map ?h kvs) = map snd (map ?h kvs')" by (rule arg_cong)
  then show ?thesis by (simp only: map_map comp_def snd_conv)
qed

end
