(* ===== verification/Replay.thy ===== *)
theory Replay
  imports Assembler Isolation Json
begin

text \<open>
  \<^verbatim>\<open>replay/\<close>: the content-addressed bundle of a request's inputs, its tenant-partitioned store, the
  replay that assembles the prompt again from the bundle, and the diff of two bundles. The
  digests \<^verbatim>\<open>hashlib.sha256(...).hexdigest()\<close> and \<^verbatim>\<open>hashlib.blake2b(..., digest_size=16).hexdigest()\<close>
  are the parameters \<open>sha\<close> and \<open>b2\<close>, Python's \<^verbatim>\<open>repr\<close> of a float is \<open>fr\<close>. The main lemma carries a
  captured bundle through any later operations of the store.
\<close>

section \<open>Bundles\<close>

record bundle_message =
  bm_role :: string
  bm_content :: string

definition US :: char where "US = CHR 0x1F"

definition prompt_text :: "chat_message list \<Rightarrow> string" where
  "prompt_text messages = join NL (map (\<lambda>m. role_value (cm_role m) @ [US] @ cm_content m) messages)"

definition render_prompt_hash :: "(string \<Rightarrow> string) \<Rightarrow> chat_message list \<Rightarrow> string" where
  "render_prompt_hash sha messages = sha (prompt_text messages)"

text \<open>\<^verbatim>\<open>MemoryCandidate.model_dump(mode="json")\<close>.\<close>

definition candidate_json :: "memory_candidate \<Rightarrow> json" where
  "candidate_json c = JObj [(''memory_id'', JStr (mc_memory_id c)), (''tenant_id'', JStr (mc_tenant_id c)),
     (''namespace'', JStr (mc_namespace c)), (''tier'', JStr (tier_value (mc_tier c))),
     (''content'', JStr (mc_content c)), (''vector_score'', jflt_opt (mc_vector_score c)),
     (''bm25_score'', jflt_opt (mc_bm25_score c)), (''rrf_score'', JFloat (mc_rrf_score c)),
     (''recency_factor'', JFloat (mc_recency_factor c)), (''importance'', JFloat (mc_importance c)),
     (''rank_in_dense'', jint_opt (mc_rank_in_dense c)), (''rank_in_sparse'', jint_opt (mc_rank_in_sparse c)),
     (''age_seconds'', JFloat (mc_age_seconds c)), (''source_ref'', jopt (mc_source_ref c))]"

definition bundle_payload ::
  "string \<Rightarrow> flt \<Rightarrow> (string, flt) dict \<Rightarrow> (string, int) dict \<Rightarrow> string \<Rightarrow> string \<Rightarrow>
   memory_candidate list \<Rightarrow> json" where
  "bundle_payload model_id mmr_lambda weights budget system_prompt latest_user_turn candidates =
     JObj [(''model_id'', JStr model_id), (''mmr_lambda'', JFloat mmr_lambda),
       (''weights'', JObj (map (\<lambda>(k, v). (k, JFloat v)) weights)),
       (''budget'', JObj (map (\<lambda>(k, v). (k, JInt v)) budget)),
       (''system_prompt'', JStr system_prompt), (''latest_user_turn'', JStr latest_user_turn),
       (''candidates'', JArr (map candidate_json candidates))]"

definition content_address ::
  "(string \<Rightarrow> string) \<Rightarrow> (flt \<Rightarrow> string) \<Rightarrow> string \<Rightarrow> flt \<Rightarrow> (string, flt) dict \<Rightarrow> (string, int) dict \<Rightarrow>
   string \<Rightarrow> string \<Rightarrow> memory_candidate list \<Rightarrow> string" where
  "content_address b2 fr model_id mmr_lambda weights budget system_prompt latest_user_turn candidates =
     ''b2:'' @ b2 (dumps fr (bundle_payload model_id mmr_lambda weights budget system_prompt
       latest_user_turn candidates))"

record context_bundle =
  bu_schema_version :: string
  bu_bundle_cid :: string
  bu_trace_id :: string
  bu_tenant_id :: string
  bu_namespace :: string
  bu_created_at :: int
  bu_model_id :: string
  bu_mmr_lambda :: flt
  bu_weights :: "(string, flt) dict"
  bu_budget :: "(string, int) dict"
  bu_system_prompt :: string
  bu_latest_user_turn :: string
  bu_candidates :: "memory_candidate list"
  bu_rendered_messages :: "bundle_message list"
  bu_prompt_hash :: string
  bu_recorded_output :: "string option"

section \<open>The store\<close>

type_synonym bundle_store = "context_bundle tdict"

definition bundle_put :: "security_context \<Rightarrow> context_bundle \<Rightarrow> bundle_store \<Rightarrow> bundle_store" where
  "bundle_put ctx bundle s = tput (ctx_tenant_id ctx) (bu_trace_id bundle) bundle s"

definition bundle_get :: "security_context \<Rightarrow> string \<Rightarrow> bundle_store \<Rightarrow> context_bundle option" where
  "bundle_get ctx trace_id s = dget (part s (ctx_tenant_id ctx)) trace_id"

text \<open>The bundle object is updated in place, so under its key.\<close>

definition bundle_attach :: "security_context \<Rightarrow> string \<Rightarrow> string \<Rightarrow> bundle_store \<Rightarrow> bool \<times> bundle_store" where
  "bundle_attach ctx trace_id out s =
     (case bundle_get ctx trace_id s of
        None \<Rightarrow> (False, s)
      | Some b \<Rightarrow> (True, tput (ctx_tenant_id ctx) trace_id (b\<lparr>bu_recorded_output := Some out\<rparr>) s))"

section \<open>Capture\<close>

definition weights_dict :: "rank_weights \<Rightarrow> (string, flt) dict" where
  "weights_dict w = [(''vector'', rw_vector w), (''lexical'', rw_lexical w), (''recency'', rw_recency w),
     (''importance'', rw_importance w), (''source'', rw_source w)]"

definition budget_dict :: "token_budget \<Rightarrow> (string, int) dict" where
  "budget_dict b = [(''window_tokens'', tb_window_tokens b), (''output_reserve'', tb_output_reserve b),
     (''system_reserve'', tb_system_reserve b), (''latest_user_reserve'', tb_latest_user_reserve b)]"

text \<open>\<^verbatim>\<open>RankWeights(**d)\<close>, whose fields have defaults, and \<^verbatim>\<open>TokenBudget(**d)\<close>, whose have none.\<close>

definition dict_or :: "(string, 'v) dict \<Rightarrow> string \<Rightarrow> 'v \<Rightarrow> 'v" where
  "dict_or d k v = (case dget d k of None \<Rightarrow> v | Some x \<Rightarrow> x)"

definition unexpected_key :: "(string, 'v) dict \<Rightarrow> string list \<Rightarrow> bool" where
  "unexpected_key d known = list_ex (\<lambda>k. k \<notin> set known) (dkeys d)"

definition weights_of_dict :: "(string, flt) dict \<Rightarrow> rank_weights result" where
  "weights_of_dict d =
     (if unexpected_key d (dkeys (weights_dict default_weights)) then Inl (ValueError ''unexpected keyword'')
      else Inr \<lparr>rw_vector = dict_or d ''vector'' (rw_vector default_weights),
        rw_lexical = dict_or d ''lexical'' (rw_lexical default_weights),
        rw_recency = dict_or d ''recency'' (rw_recency default_weights),
        rw_importance = dict_or d ''importance'' (rw_importance default_weights),
        rw_source = dict_or d ''source'' (rw_source default_weights)\<rparr>)"

definition budget_of_dict :: "(string, int) dict \<Rightarrow> token_budget result" where
  "budget_of_dict d =
     (if unexpected_key d [''window_tokens'', ''output_reserve'', ''system_reserve'', ''latest_user_reserve'']
      then Inl (ValueError ''unexpected keyword'')
      else bnd (dlookup d ''window_tokens'') (\<lambda>w. bnd (dlookup d ''output_reserve'') (\<lambda>out.
           bnd (dlookup d ''system_reserve'') (\<lambda>sys. bnd (dlookup d ''latest_user_reserve'') (\<lambda>usr.
             Inr \<lparr>tb_window_tokens = w, tb_output_reserve = out, tb_system_reserve = sys,
               tb_latest_user_reserve = usr\<rparr>)))))"

definition capture ::
  "(string \<Rightarrow> string) \<Rightarrow> (flt \<Rightarrow> string) \<Rightarrow> string \<Rightarrow> security_context \<Rightarrow> string \<Rightarrow> string \<Rightarrow>
   memory_candidate list \<Rightarrow> rank_weights \<Rightarrow> flt \<Rightarrow> token_budget \<Rightarrow> string \<Rightarrow> bundle_message list \<Rightarrow>
   string \<Rightarrow> int \<Rightarrow> bundle_store \<Rightarrow> context_bundle \<times> bundle_store" where
  "capture b2 fr trace_id ctx system_prompt latest_user_turn candidates weights mmr_lambda budget
     model_id rendered_messages prompt_hash created s =
     (let weights_d = weights_dict weights; budget_d = budget_dict budget;
          cid = content_address b2 fr model_id mmr_lambda weights_d budget_d system_prompt
            latest_user_turn candidates;
          bundle = \<lparr>bu_schema_version = ''contextos.bundle.v1'', bu_bundle_cid = cid, bu_trace_id = trace_id,
            bu_tenant_id = ctx_tenant_id ctx, bu_namespace = ctx_namespace ctx, bu_created_at = created,
            bu_model_id = model_id, bu_mmr_lambda = mmr_lambda, bu_weights = weights_d,
            bu_budget = budget_d, bu_system_prompt = system_prompt,
            bu_latest_user_turn = latest_user_turn, bu_candidates = candidates,
            bu_rendered_messages = rendered_messages, bu_prompt_hash = prompt_hash,
            bu_recorded_output = None\<rparr>
      in (bundle, bundle_put ctx bundle s))"

section \<open>Replay\<close>

datatype replay_mode = RECORDED_OUTPUT | LIVE_BACKEND

record replay_result =
  rr_trace_id :: string
  rr_bundle_cid :: string
  rr_mode :: replay_mode
  rr_prompt_equal :: bool
  rr_prompt_hash_expected :: string
  rr_prompt_hash_actual :: string
  rr_output_equal :: "bool option"
  rr_recorded_output :: "string option"
  rr_diff :: "string option"

definition bundle_messages :: "chat_message list \<Rightarrow> bundle_message list" where
  "bundle_messages ms = map (\<lambda>m. \<lparr>bm_role = role_value (cm_role m), bm_content = cm_content m\<rparr>) ms"

fun first_diff_from :: "nat \<Rightarrow> bundle_message list \<Rightarrow> bundle_message list \<Rightarrow> string" where
  "first_diff_from i (e # es) (a # as) =
     (if bm_role e \<noteq> bm_role a \<or> bm_content e \<noteq> bm_content a
      then ''message['' @ str_of_nat i @ ''] differs (role/content mismatch)''
      else first_diff_from (Suc i) es as)"
| "first_diff_from i es as = ''hash differs but messages compare equal (encoding drift)''"

definition first_diff :: "bundle_message list \<Rightarrow> bundle_message list \<Rightarrow> string" where
  "first_diff expected actual =
     (if length expected \<noteq> length actual
      then ''message count differs: expected '' @ str_of_nat (length expected) @ '', got '' @ str_of_nat (length actual)
      else first_diff_from 0 expected actual)"

definition replay ::
  "(string \<Rightarrow> string) \<Rightarrow> embedder \<Rightarrow> tokenizer \<Rightarrow> security_context \<Rightarrow> string \<Rightarrow> replay_mode \<Rightarrow>
   bundle_store \<Rightarrow> replay_result option result" where
  "replay sha E cnt ctx trace_id mode s =
     (case bundle_get ctx trace_id s of
        None \<Rightarrow> Inr None
      | Some b \<Rightarrow>
          bnd (budget_of_dict (bu_budget b)) (\<lambda>budget.
          bnd (weights_of_dict (bu_weights b)) (\<lambda>weights.
          bnd (assemble E budget \<lparr>sr_system_prompt = bu_system_prompt b,
                sr_latest_user_turn = bu_latest_user_turn b, sr_candidates = bu_candidates b,
                sr_history = []\<rparr> weights (Some cnt) (bu_mmr_lambda b)) (\<lambda>ac.
            let actual_hash = render_prompt_hash sha (ac_messages ac);
                prompt_equal = (actual_hash = bu_prompt_hash b);
                dif = (if \<not> prompt_equal
                  then Some (first_diff (bu_rendered_messages b) (bundle_messages (ac_messages ac)))
                  else if mode = LIVE_BACKEND
                  then Some ''live re-generation not compared (non-deterministic backend)''
                  else None)
            in Inr (Some \<lparr>rr_trace_id = trace_id, rr_bundle_cid = bu_bundle_cid b, rr_mode = mode,
                 rr_prompt_equal = prompt_equal, rr_prompt_hash_expected = bu_prompt_hash b,
                 rr_prompt_hash_actual = actual_hash,
                 rr_output_equal = (if mode = RECORDED_OUTPUT then Some prompt_equal else None),
                 rr_recorded_output = bu_recorded_output b, rr_diff = dif\<rparr>)))))"

section \<open>Diff\<close>

record context_diff =
  df_candidates_added :: "string list"
  df_candidates_removed :: "string list"
  df_model_changed :: "(string \<times> string) option"
  df_prompt_changed :: bool
  df_prompt_a :: string
  df_prompt_b :: string

definition render_bundle :: "context_bundle \<Rightarrow> string" where
  "render_bundle b = join NL (map (\<lambda>m. bm_role m @ '': '' @ bm_content m) (bu_rendered_messages b))"

text \<open>\<^verbatim>\<open>sorted(b_ids - a_ids)\<close> on the sets of ids.\<close>

definition ids_minus :: "string list \<Rightarrow> string list \<Rightarrow> string list" where
  "ids_minus xs ys = sort (remdups (filter (\<lambda>i. i \<notin> set ys) xs))"

definition diff_bundles :: "context_bundle \<Rightarrow> context_bundle \<Rightarrow> context_diff" where
  "diff_bundles a b =
     (let a_ids = map mc_memory_id (bu_candidates a); b_ids = map mc_memory_id (bu_candidates b)
      in \<lparr>df_candidates_added = ids_minus b_ids a_ids, df_candidates_removed = ids_minus a_ids b_ids,
          df_model_changed = (if bu_model_id a \<noteq> bu_model_id b then Some (bu_model_id a, bu_model_id b) else None),
          df_prompt_changed = (bu_prompt_hash a \<noteq> bu_prompt_hash b),
          df_prompt_a = render_bundle a, df_prompt_b = render_bundle b\<rparr>)"

section \<open>A captured bundle survives\<close>

lemma weights_round_trip [simp]: "weights_of_dict (weights_dict w) = Inr w"
  by (simp add: weights_of_dict_def weights_dict_def unexpected_key_def dict_or_def)

lemma budget_round_trip [simp]: "budget_of_dict (budget_dict b) = Inr b"
  by (simp add: budget_of_dict_def budget_dict_def unexpected_key_def dlookup_def)

datatype bundle_op = Put security_context context_bundle | Attach security_context string string

fun bundle_step :: "bundle_op \<Rightarrow> bundle_store \<Rightarrow> bundle_store" where
  "bundle_step (Put ctx b) s = bundle_put ctx b s"
| "bundle_step (Attach ctx tid out) s = snd (bundle_attach ctx tid out s)"

fun bundle_owner :: "bundle_op \<Rightarrow> string" where
  "bundle_owner (Put ctx b) = ctx_tenant_id ctx"
| "bundle_owner (Attach ctx tid out) = ctx_tenant_id ctx"

interpretation bundle_iso: tenant_scoped "\<lambda>t s. part s t" bundle_step bundle_owner
proof
  fix op t and s s' :: bundle_store
  show "bundle_owner op \<noteq> t \<Longrightarrow> part (bundle_step op s) t = part s t"
    by (cases op) (auto simp: bundle_put_def bundle_attach_def split: option.splits)
  show "bundle_owner op = t \<Longrightarrow> part s t = part s' t \<Longrightarrow> part (bundle_step op s) t = part (bundle_step op s') t"
    by (cases op) (auto simp: bundle_put_def bundle_attach_def bundle_get_def split: option.splits)
qed

text \<open>The operations that would replace the bundle: another capture under the same trace id.\<close>

definition recaptures :: "string \<Rightarrow> string \<Rightarrow> bundle_op \<Rightarrow> bool" where
  "recaptures tenant tid op = (case op of
     Put ctx b \<Rightarrow> ctx_tenant_id ctx = tenant \<and> bu_trace_id b = tid | Attach _ _ _ \<Rightarrow> False)"

definition same_bundle :: "context_bundle \<Rightarrow> context_bundle \<Rightarrow> bool" where
  "same_bundle b b' = (\<exists>out. b' = b\<lparr>bu_recorded_output := out\<rparr>)"

lemma same_bundle_refl: "same_bundle b b"
  unfolding same_bundle_def by (rule exI [of _ "bu_recorded_output b"]) simp

lemma same_bundle_attach: "same_bundle b b' \<Longrightarrow> same_bundle b (b'\<lparr>bu_recorded_output := out\<rparr>)"
  by (auto simp: same_bundle_def)

lemma bundle_step_get:
  assumes "bundle_get ctx tid s = Some b'" and "same_bundle b b'"
    and "\<not> recaptures (ctx_tenant_id ctx) tid op"
  shows "\<exists>b''. bundle_get ctx tid (bundle_step op s) = Some b'' \<and> same_bundle b b''"
proof (cases op)
  case (Put c x)
  then have "bundle_get ctx tid (bundle_step op s) = bundle_get ctx tid s"
    using assms(3) by (auto simp: recaptures_def bundle_put_def bundle_get_def)
  then show ?thesis using assms by simp
next
  case (Attach c i out)
  show ?thesis
  proof (cases "ctx_tenant_id c = ctx_tenant_id ctx \<and> i = tid")
    case True
    then have "bundle_get ctx tid (bundle_step op s) = Some (b'\<lparr>bu_recorded_output := Some out\<rparr>)"
      using assms(1) Attach by (simp add: bundle_attach_def bundle_get_def)
    then show ?thesis using same_bundle_attach [OF assms(2)] by blast
  next
    case False
    then have "bundle_get ctx tid (bundle_step op s) = bundle_get ctx tid s"
      using Attach by (auto simp: bundle_attach_def bundle_get_def split: option.split)
    then show ?thesis using assms by simp
  qed
qed

lemma bundle_run_get:
  "bundle_get ctx tid s = Some b' \<Longrightarrow> same_bundle b b' \<Longrightarrow>
   \<forall>op \<in> set ops. \<not> recaptures (ctx_tenant_id ctx) tid op \<Longrightarrow>
   \<exists>b''. bundle_get ctx tid (run_ops bundle_step ops s) = Some b'' \<and> same_bundle b b''"
proof (induction ops arbitrary: s b')
  case (Cons op ops)
  obtain b'' where "bundle_get ctx tid (bundle_step op s) = Some b''" "same_bundle b b''"
    using bundle_step_get [OF Cons.prems(1,2), of op] Cons.prems(3) by auto
  from Cons.IH [OF this] Cons.prems(3) show ?case by simp
qed simp

lemma capture_get:
  "capture b2 fr tid ctx sys usr cands w lam budget model rm ph created s = (b, s') \<Longrightarrow>
   bundle_get ctx tid s' = Some b \<and> bu_weights b = weights_dict w \<and> bu_budget b = budget_dict budget \<and>
   bu_system_prompt b = sys \<and> bu_latest_user_turn b = usr \<and> bu_candidates b = cands \<and>
   bu_mmr_lambda b = lam \<and> bu_prompt_hash b = ph \<and>
   bu_bundle_cid b = content_address b2 fr model lam (weights_dict w) (budget_dict budget) sys usr cands"
  by (auto simp: capture_def Let_def bundle_get_def bundle_put_def)

text \<open>A replay sees of a captured bundle nothing that attaching an output changes.\<close>

lemma replay_same_bundle:
  assumes "assemble E budget \<lparr>sr_system_prompt = sys, sr_latest_user_turn = usr, sr_candidates = cands,
      sr_history = []\<rparr> w (Some cnt) lam = Inr ac"
    and "capture b2 fr tid ctx sys usr cands w lam budget model (bundle_messages (ac_messages ac))
      (render_prompt_hash sha (ac_messages ac)) created s = (b, s')"
    and "bundle_get ctx tid s2 = Some b'" and "same_bundle b b'"
  shows "\<exists>r. replay sha E cnt ctx tid mode s2 = Inr (Some r) \<and>
    rr_prompt_equal r \<and> rr_prompt_hash_actual r = render_prompt_hash sha (ac_messages ac) \<and>
    rr_prompt_hash_expected r = rr_prompt_hash_actual r \<and> rr_bundle_cid r = bu_bundle_cid b \<and>
    rr_output_equal r = (case mode of RECORDED_OUTPUT \<Rightarrow> Some True | LIVE_BACKEND \<Rightarrow> None) \<and>
    rr_recorded_output r = bu_recorded_output b'"
proof -
  have "bu_weights b' = weights_dict w" "bu_budget b' = budget_dict budget" "bu_system_prompt b' = sys"
    "bu_latest_user_turn b' = usr" "bu_candidates b' = cands" "bu_mmr_lambda b' = lam"
    "bu_prompt_hash b' = render_prompt_hash sha (ac_messages ac)" "bu_bundle_cid b' = bu_bundle_cid b"
    using assms(4) capture_get [OF assms(2)] by (auto simp: same_bundle_def)
  then show ?thesis using assms(1,3)
    by (cases mode) (simp_all add: replay_def Let_def)
qed

section \<open>Properties\<close>

section \<open>What the content address identifies\<close>

definition canonical_text :: "(flt \<Rightarrow> string) \<Rightarrow> context_bundle \<Rightarrow> string" where
  "canonical_text fr b = dumps fr (bundle_payload (bu_model_id b) (bu_mmr_lambda b) (bu_weights b) (bu_budget b)
     (bu_system_prompt b) (bu_latest_user_turn b) (bu_candidates b))"

lemma canon_scalars [simp]:
  "canon (jopt x) = jopt x" "canon (jflt_opt y) = jflt_opt y" "canon (jint_opt z) = jint_opt z"
  by (simp_all add: jopt_def jflt_opt_def jint_opt_def split: option.split)

lemma scalars_inj [simp]:
  "jopt x = jopt x' \<longleftrightarrow> x = x'" "jflt_opt y = jflt_opt y' \<longleftrightarrow> y = y'" "jint_opt z = jint_opt z' \<longleftrightarrow> z = z'"
  by (auto simp: jopt_def jflt_opt_def jint_opt_def split: option.splits)

lemma tier_value_inj: "tier_value a = tier_value b \<longleftrightarrow> a = b"
  by (cases a; cases b) simp_all

lemma candidate_json_inj: "canon (candidate_json c) = canon (candidate_json d) \<Longrightarrow> c = d"
  unfolding candidate_json_def by (drule canon_same_keys) (simp_all add: tier_value_inj)

lemma candidates_json_inj:
  "map (\<lambda>c. canon (candidate_json c)) cs = map (\<lambda>c. canon (candidate_json c)) ds \<Longrightarrow> cs = ds"
  by (rule inj_onD [OF inj_on_mapI [of "\<lambda>c. canon (candidate_json c)" "{cs, ds}"]])
    (auto intro!: inj_onI candidate_json_inj)

lemma payload_inj:
  assumes "canon (bundle_payload m lam (weights_dict w) (budget_dict bg) sys usr cs) =
    canon (bundle_payload m' lam' (weights_dict w') (budget_dict bg') sys' usr' cs')"
  shows "(m, lam, w, bg, sys, usr, cs) = (m', lam', w', bg', sys', usr', cs')"
proof -
  let ?ws = "\<lambda>w. JObj (map (\<lambda>(k, v). (k, JFloat v)) (weights_dict w))"
    and ?bs = "\<lambda>b. JObj (map (\<lambda>(k, v). (k, JInt v)) (budget_dict b))"
  have top: "m = m'" "lam = lam'" "canon (?ws w) = canon (?ws w')" "canon (?bs bg) = canon (?bs bg')" "sys = sys'" "usr = usr'"
    "map (\<lambda>c. canon (candidate_json c)) cs = map (\<lambda>c. canon (candidate_json c)) cs'"
    using canon_same_keys [OF assms [unfolded bundle_payload_def]] by (simp_all add: comp_def del: canon.simps(2))
  have "w = w'" using canon_same_keys [OF top(3)] by (cases w; cases w') (simp add: weights_dict_def)
  moreover have "bg = bg'" using canon_same_keys [OF top(4)] by (cases bg; cases bg') (simp add: budget_dict_def)
  ultimately show ?thesis using top candidates_json_inj by simp
qed

text \<open>C27: The content address identifies the inputs of a request. Two bundles, captured by any tenants
  under any traces at any times, have the same address just when they froze the same model,
  diversity weight, rank weights, budget, prompts and candidates, or else exhibit two different
  texts with the same BLAKE2b digest. Neither the tenant, the rendered prompt nor the completion
  takes part.\<close>

theorem address_identifies:
  assumes "float_repr fr"
    and "capture b2 fr tid ctx sys usr cs w lam bg m ms ph t s = (b, s1)"
    and "capture b2 fr tid' ctx' sys' usr' cs' w' lam' bg' m' ms' ph' t' s' = (b', s1')"
  shows "bu_bundle_cid b = bu_bundle_cid b' \<longleftrightarrow>
    (m, lam, w, bg, sys, usr, cs) = (m', lam', w', bg', sys', usr', cs') \<or>
    canonical_text fr b \<noteq> canonical_text fr b' \<and> b2 (canonical_text fr b) = b2 (canonical_text fr b')"
proof -
  have "canonical_text fr b = canonical_text fr b' \<longleftrightarrow>
      (m, lam, w, bg, sys, usr, cs) = (m', lam', w', bg', sys', usr', cs')"
    using assms dumps_eq_iff [OF assms(1)] payload_inj
    by (auto simp: capture_def Let_def canonical_text_def)
  moreover have "bu_bundle_cid b = ''b2:'' @ b2 (canonical_text fr b)" "bu_bundle_cid b' = ''b2:'' @ b2 (canonical_text fr b')"
    using assms(2,3) by (auto simp: capture_def Let_def canonical_text_def content_address_def)
  ultimately show ?thesis by auto
qed

text \<open>C26: Replay is bit for bit. A request that was assembled and captured replays, after any later
  captures of other traces and any attached outputs, by any tenants, to the very same prompt: the
  replay finds its bundle, the recomputed hash is the one recorded, and the output is reported
  equal in the recorded mode and left open in the live one.\<close>

theorem replay_reproduces:
  assumes "assemble E budget \<lparr>sr_system_prompt = sys, sr_latest_user_turn = usr, sr_candidates = cands,
      sr_history = []\<rparr> w (Some cnt) lam = Inr ac"
    and "capture b2 fr tid ctx sys usr cands w lam budget model (bundle_messages (ac_messages ac))
      (render_prompt_hash sha (ac_messages ac)) created s = (b, s')"
    and "\<forall>op \<in> set ops. \<not> recaptures (ctx_tenant_id ctx) tid op"
  shows "\<exists>r. replay sha E cnt ctx tid mode (run_ops bundle_step ops s') = Inr (Some r) \<and>
    rr_prompt_equal r \<and> rr_prompt_hash_actual r = render_prompt_hash sha (ac_messages ac) \<and>
    rr_prompt_hash_expected r = rr_prompt_hash_actual r \<and> rr_bundle_cid r = bu_bundle_cid b \<and>
    rr_output_equal r = (case mode of RECORDED_OUTPUT \<Rightarrow> Some True | LIVE_BACKEND \<Rightarrow> None)"
proof -
  obtain b' where "bundle_get ctx tid (run_ops bundle_step ops s') = Some b'" "same_bundle b b'"
    using bundle_run_get [OF _ same_bundle_refl assms(3)] capture_get [OF assms(2)] by blast
  then show ?thesis using replay_same_bundle [OF assms(1,2)] by blast
qed

text \<open>Replays do not cross tenants. What a replay returns after any captures and attached outputs
  of all tenants depends only on those of the caller's own tenant; a trace id only others captured
  is simply not found.\<close>

theorem replay_noninterference:
  "replay sha E cnt ctx tid mode (run_ops bundle_step ops s) =
     replay sha E cnt ctx tid mode (run_ops bundle_step (purge bundle_owner (ctx_tenant_id ctx) ops) s)"
proof -
  have "bundle_get ctx tid (run_ops bundle_step ops s) =
      bundle_get ctx tid (run_ops bundle_step (purge bundle_owner (ctx_tenant_id ctx) ops) s)"
    unfolding bundle_get_def using bundle_iso.noninterference [where t = "ctx_tenant_id ctx" and ops = ops and s = s]
    by simp
  then show ?thesis by (simp only: replay_def)
qed

lemma ids_minus_spec: "set (ids_minus xs ys) = set xs - set ys" "sorted (ids_minus xs ys)" "distinct (ids_minus xs ys)"
  by (auto simp: ids_minus_def)

text \<open>The context diff is exact: the ids added and removed are the set differences, in order and
  once each; swapping the bundles swaps them; and the diff of candidates is empty exactly when both
  requests saw the same memories.\<close>

theorem diff_bundles_exact:
  "set (df_candidates_added (diff_bundles a b)) =
      mc_memory_id ` set (bu_candidates b) - mc_memory_id ` set (bu_candidates a) \<and>
   sorted (df_candidates_added (diff_bundles a b)) \<and> distinct (df_candidates_added (diff_bundles a b)) \<and>
   df_candidates_removed (diff_bundles a b) = df_candidates_added (diff_bundles b a) \<and>
   (df_candidates_added (diff_bundles a b) = [] \<and> df_candidates_removed (diff_bundles a b) = [] \<longleftrightarrow>
      mc_memory_id ` set (bu_candidates a) = mc_memory_id ` set (bu_candidates b)) \<and>
   (df_prompt_changed (diff_bundles a b) \<longleftrightarrow> bu_prompt_hash a \<noteq> bu_prompt_hash b)"
proof -
  have "ids_minus xs ys = [] \<longleftrightarrow> set xs \<subseteq> set ys" for xs ys
    using ids_minus_spec(1) [of xs ys] by (metis Diff_eq_empty_iff set_empty)
  then show ?thesis by (auto simp: diff_bundles_def Let_def ids_minus_spec)
qed

section \<open>Witnesses\<close>

lemma replay_reproduces_witness:
  "\<exists>ac b s' r. fx_assemble (fx_budget 60 10 7 2) fx_cands = Inr ac \<and>
    capture id (\<lambda>_. ''x'') ''t1'' (fx_ctx ''acme'' ''user:1'') ''be kind'' ''hi'' fx_cands default_weights (7 / 10)
      (fx_budget 60 10 7 2) ''m'' (bundle_messages (ac_messages ac)) (render_prompt_hash id (ac_messages ac)) 0 []
      = (b, s') \<and>
    replay id (hashing_provider fx_blake DEFAULT_DIM) fx_count (fx_ctx ''acme'' ''user:1'') ''t1'' RECORDED_OUTPUT
      (run_ops bundle_step [Attach (fx_ctx ''acme'' ''user:1'') ''t1'' ''bye''] s') = Inr (Some r) \<and>
    rr_output_equal r = Some True"
proof -
  obtain ac where ac: "fx_assemble (fx_budget 60 10 7 2) fx_cands = Inr ac"
    using fx_assemble_ok [of "fx_budget 60 10 7 2" fx_cands] by auto
  obtain b s' where cap: "capture id (\<lambda>_. ''x'') ''t1'' (fx_ctx ''acme'' ''user:1'') ''be kind'' ''hi'' fx_cands
      default_weights (7 / 10) (fx_budget 60 10 7 2) ''m'' (bundle_messages (ac_messages ac))
      (render_prompt_hash id (ac_messages ac)) 0 [] = (b, s')"
    by fastforce
  show ?thesis
    using replay_reproduces [OF ac [unfolded fx_assemble_def fx_sources_def] cap,
        of "[Attach (fx_ctx ''acme'' ''user:1'') ''t1'' ''bye'']" RECORDED_OUTPUT] ac cap
    by (auto simp: recaptures_def)
qed

text \<open>A float as its numerator and denominator; two captures by different tenants that differ in one
  candidate.\<close>

definition fx_repr :: "flt \<Rightarrow> string" where
  "fx_repr x = str_of_int (fst (quotient_of x)) @ ''.'' @ str_of_int (snd (quotient_of x))"

lemma fx_repr_ok: "float_repr fx_repr"
proof -
  have c: "\<forall>c \<in> set (str_of_int i). int_char c" "str_of_int i \<noteq> []" for i using str_of_int_chars by blast+
  have dot: "\<not> int_char CHR ''.''" "number_char CHR ''.''"
    by (simp_all add: int_char_def number_char_def is_digit_def code_def)
  have "x = y" if "fx_repr x = fx_repr y" for x y
  proof -
    have "str_of_int (fst (quotient_of x)) = str_of_int (fst (quotient_of y)) \<and>
        ''.'' @ str_of_int (snd (quotient_of x)) = ''.'' @ str_of_int (snd (quotient_of y))"
      using that c dot(1) by (intro span_unique [of _ _ _ _ int_char]) (auto simp: fx_repr_def)
    then have "quotient_of x = quotient_of y" by (simp add: str_of_int_inj prod_eq_iff)
    then show ?thesis by (simp add: quotient_of_inject)
  qed
  then show ?thesis
    unfolding float_repr_def using c dot list.set_sel(1) by (fastforce simp: fx_repr_def int_number_char hd_append intro: injI)
qed

definition fx_capture :: "string \<Rightarrow> string \<Rightarrow> memory_candidate list \<Rightarrow> int \<Rightarrow> context_bundle \<times> bundle_store" where
  "fx_capture tenant tid cs now = capture id fx_repr tid (fx_ctx tenant ''user:1'') ''be kind'' ''hi'' cs
     default_weights (7 / 10) (fx_budget 60 10 7 2) ''m'' [] ''h'' now []"

lemma address_identifies_witness:
  "bu_bundle_cid (fst (fx_capture ''acme'' ''t1'' fx_cands 0)) = bu_bundle_cid (fst (fx_capture ''globex'' ''t2'' fx_cands 5)) \<and>
   bu_bundle_cid (fst (fx_capture ''acme'' ''t1'' fx_cands 0)) \<noteq> bu_bundle_cid (fst (fx_capture ''acme'' ''t3'' [] 0))"
proof -
  obtain a b c s1 s2 s3 where abc: "fx_capture ''acme'' ''t1'' fx_cands 0 = (a, s1)"
    "fx_capture ''globex'' ''t2'' fx_cands 5 = (b, s2)" "fx_capture ''acme'' ''t3'' [] 0 = (c, s3)"
    by (meson surj_pair)
  show ?thesis
    unfolding abc fst_conv
    using address_identifies [OF fx_repr_ok abc(1) [unfolded fx_capture_def] abc(2) [unfolded fx_capture_def]]
      address_identifies [OF fx_repr_ok abc(1) [unfolded fx_capture_def] abc(3) [unfolded fx_capture_def]]
    by (simp add: fx_cands_def)
qed

end
