(* ===== verification/Observability.thy ===== *)
theory Observability
  imports Fixtures Json Isolation Ulid
begin

text \<open>
  \<^verbatim>\<open>observability/\<close>: the tracer, whose traces are lists of spans each with the decision record
  of its stage; the cost ledger, priced per thousand tokens and rounded to six decimals; and the
  export of spans as an OTLP payload. A trace is an object shared between the tracer's dictionary
  and the pipeline: here the pipeline's changes are written back under its id (\<open>tracer_put\<close>).
\<close>

section \<open>Traces\<close>

record trace =
  tr_trace_id :: string
  tr_tenant_id :: string
  tr_spans :: "trace_span list"

type_synonym tracer = "(string, trace) dict"

text \<open>\<^verbatim>\<open>Trace.span\<close>: the span is made on entry, ended and appended on exit.\<close>

definition open_span :: "trace \<Rightarrow> string \<Rightarrow> int \<Rightarrow> string \<Rightarrow> string \<Rightarrow> string option \<Rightarrow> trace_span" where
  "open_span tr span_id start stage name parent =
     \<lparr>ts_trace_id = tr_trace_id tr, ts_span_id = span_id, ts_parent_span_id = parent,
      ts_tenant_id = tr_tenant_id tr, ts_stage = stage, ts_name = name, ts_start = start,
      ts_end = None, ts_attributes = [], ts_decision = None\<rparr>"

definition close_span :: "int \<Rightarrow> trace_span \<Rightarrow> trace \<Rightarrow> trace" where
  "close_span now sp tr = tr\<lparr>tr_spans := tr_spans tr @ [sp\<lparr>ts_end := Some now\<rparr>]\<rparr>"

definition record_decision :: "trace_span \<Rightarrow> string \<Rightarrow> (string, string) dict \<Rightarrow> trace_span" where
  "record_decision sp summary pointers =
     sp\<lparr>ts_decision := Some \<lparr>dr_stage = ts_stage sp, dr_summary = summary, dr_pointers = pointers\<rparr>\<rparr>"

definition tracer_start :: "security_context \<Rightarrow> string \<Rightarrow> tracer \<Rightarrow> trace \<times> tracer" where
  "tracer_start ctx ulid t =
     (let tr = \<lparr>tr_trace_id = ulid, tr_tenant_id = ctx_tenant_id ctx, tr_spans = []\<rparr>
      in (tr, dset ulid tr t))"

definition tracer_put :: "trace \<Rightarrow> tracer \<Rightarrow> tracer" where
  "tracer_put tr t = dset (tr_trace_id tr) tr t"

definition tracer_get :: "security_context \<Rightarrow> string \<Rightarrow> tracer \<Rightarrow> trace option" where
  "tracer_get ctx trace_id t =
     (case dget t trace_id of
        None \<Rightarrow> None
      | Some tr \<Rightarrow> if tr_tenant_id tr \<noteq> ctx_tenant_id ctx then None else Some tr)"

lemma tracer_get_put [simp]:
  "tracer_get ctx i (tracer_put tr t) =
     (if i = tr_trace_id tr then (if tr_tenant_id tr = ctx_tenant_id ctx then Some tr else None)
      else tracer_get ctx i t)"
  by (simp add: tracer_get_def tracer_put_def)

section \<open>The cost ledger\<close>

definition DEFAULT_PRICES :: "(string, flt) dict" where
  "DEFAULT_PRICES = [(''default'', 0), (''haiku'', lit (1 / 1000)), (''opus'', lit (2 / 100)),
     (''gpt-4o-mini'', lit (6 / 10000)), (''meta-llama/Llama-3.1-8B-Instruct'', lit (2 / 10000))]"

record cost_record =
  cr_tenant_id :: string
  cr_model_id :: string
  cr_prompt_tokens :: int
  cr_completion_tokens :: int
  cr_cost_usd :: flt

record cost_summary =
  cs_tenant_id :: string
  cs_requests :: nat
  cs_total_tokens :: int
  cs_total_cost_usd :: flt
  cs_by_model :: "(string, flt) dict"

record ledger =
  lg_prices :: "(string, flt) dict"
  lg_by_tenant :: "(string, cost_record list) dict"

text \<open>\<^verbatim>\<open>{**a, **b}\<close>.\<close>

definition dmerge :: "('k, 'v) dict \<Rightarrow> ('k, 'v) dict \<Rightarrow> ('k, 'v) dict" where
  "dmerge a b = foldl (\<lambda>d (k, v). dset k v d) a b"

definition new_ledger :: "(string, flt) dict option \<Rightarrow> ledger" where
  "new_ledger prices = \<lparr>lg_prices = dmerge DEFAULT_PRICES (case prices of None \<Rightarrow> [] | Some p \<Rightarrow> p),
     lg_by_tenant = []\<rparr>"

definition price_per_1k :: "ledger \<Rightarrow> string \<Rightarrow> flt" where
  "price_per_1k lg model_id =
     (case dget (lg_prices lg) model_id of Some p \<Rightarrow> p
      | None \<Rightarrow> (case dget (lg_prices lg) ''default'' of Some p \<Rightarrow> p | None \<Rightarrow> 0))"

definition tenant_records :: "ledger \<Rightarrow> string \<Rightarrow> cost_record list" where
  "tenant_records lg t = (case dget (lg_by_tenant lg) t of None \<Rightarrow> [] | Some rs \<Rightarrow> rs)"

definition request_cost :: "flt \<Rightarrow> int \<Rightarrow> flt" where
  "request_cost price toks = py_round 6 (fdiv (fmul price (flt_of_int toks)) 1000)"

definition ledger_record :: "security_context \<Rightarrow> string \<Rightarrow> usage \<Rightarrow> ledger \<Rightarrow> cost_record \<times> ledger" where
  "ledger_record ctx model_id u lg =
     (let toks = us_prompt_tokens u + us_completion_tokens u;
          rec = \<lparr>cr_tenant_id = ctx_tenant_id ctx, cr_model_id = model_id,
            cr_prompt_tokens = us_prompt_tokens u, cr_completion_tokens = us_completion_tokens u,
            cr_cost_usd = request_cost (price_per_1k lg model_id) toks\<rparr>
      in (rec, lg\<lparr>lg_by_tenant := dset (ctx_tenant_id ctx)
           (tenant_records lg (ctx_tenant_id ctx) @ [rec]) (lg_by_tenant lg)\<rparr>))"

definition add_model_cost :: "(string, flt) dict \<Rightarrow> cost_record \<Rightarrow> (string, flt) dict" where
  "add_model_cost d r =
     dset (cr_model_id r) (py_round 6 (fadd (case dget d (cr_model_id r) of None \<Rightarrow> 0 | Some v \<Rightarrow> v)
       (cr_cost_usd r))) d"

definition ledger_summary :: "security_context \<Rightarrow> ledger \<Rightarrow> cost_summary" where
  "ledger_summary ctx lg =
     (let recs = tenant_records lg (ctx_tenant_id ctx)
      in \<lparr>cs_tenant_id = ctx_tenant_id ctx, cs_requests = length recs,
          cs_total_tokens = sum_list (map (\<lambda>r. cr_prompt_tokens r + cr_completion_tokens r) recs),
          cs_total_cost_usd = py_round 6 (fsum (map cr_cost_usd recs)),
          cs_by_model = foldl add_model_cost [] recs\<rparr>)"

section \<open>Export\<close>

text \<open>\<^verbatim>\<open>int(dt.timestamp() * 1_000_000_000)\<close> on an instant in microseconds since the epoch.\<close>

definition nanos :: "int option \<Rightarrow> int" where
  "nanos dt = (case dt of None \<Rightarrow> 0 | Some us \<Rightarrow> py_int (fmul (total_seconds us) 1000000000))"

text \<open>\<^verbatim>\<open>str\<close> of an attribute value.\<close>

definition str_value :: "(flt \<Rightarrow> string) \<Rightarrow> attr_value \<Rightarrow> string" where
  "str_value fr v = (case v of AStr s \<Rightarrow> s | AInt i \<Rightarrow> str_of_int i | AFloat x \<Rightarrow> fr x
     | ABool b \<Rightarrow> if b then ''True'' else ''False'')"

definition otlp_attrs :: "(flt \<Rightarrow> string) \<Rightarrow> (string, attr_value) dict \<Rightarrow> json" where
  "otlp_attrs fr items = JArr (map (\<lambda>(k, v). JObj [(''key'', JStr k),
     (''value'', JObj [(''stringValue'', JStr (str_value fr v))])]) items)"

definition span_attributes :: "trace_span \<Rightarrow> (string, attr_value) dict" where
  "span_attributes s =
     (let d = dmerge [(''tenant_id'', AStr (ts_tenant_id s)), (''stage'', AStr (ts_stage s))] (ts_attributes s)
      in case ts_decision s of None \<Rightarrow> d | Some dr \<Rightarrow> dset ''decision.summary'' (AStr (dr_summary dr)) d)"

definition otlp_span :: "(flt \<Rightarrow> string) \<Rightarrow> trace_span \<Rightarrow> json" where
  "otlp_span fr s = JObj [(''traceId'', JStr (ts_trace_id s)), (''spanId'', JStr (ts_span_id s)),
     (''parentSpanId'', JStr (or_else (ts_parent_span_id s) [])), (''name'', JStr (ts_name s)),
     (''startTimeUnixNano'', JInt (nanos (Some (ts_start s)))), (''endTimeUnixNano'', JInt (nanos (ts_end s))),
     (''attributes'', otlp_attrs fr (span_attributes s))]"

definition to_otlp :: "(flt \<Rightarrow> string) \<Rightarrow> trace_span list \<Rightarrow> json" where
  "to_otlp fr spans = JObj [(''resourceSpans'', JArr [JObj [
     (''resource'', JObj [(''attributes'', otlp_attrs fr [(''service.name'', AStr ''contextos'')])]),
     (''scopeSpans'', JArr [JObj [(''scope'', JObj [(''name'', JStr ''contextos.pipeline'')]),
        (''spans'', JArr (map (otlp_span fr) spans))]])]])]"

section \<open>Isolation of the ledger\<close>

definition ledger_step :: "security_context \<times> string \<times> usage \<Rightarrow> ledger \<Rightarrow> ledger" where
  "ledger_step op lg = (case op of (ctx, model, u) \<Rightarrow> snd (ledger_record ctx model u lg))"

definition ledger_owner :: "security_context \<times> string \<times> usage \<Rightarrow> string" where
  "ledger_owner op = ctx_tenant_id (fst op)"

lemma ledger_step_prices [simp]: "lg_prices (ledger_step op lg) = lg_prices lg"
  by (cases op) (simp add: ledger_step_def ledger_record_def Let_def)

lemma price_cong: "lg_prices lg = lg_prices lg' \<Longrightarrow> price_per_1k lg = price_per_1k lg'"
  by (rule ext) (simp only: price_per_1k_def)

lemma tenant_records_step: "tenant_records (ledger_step (ctx, m, u) lg) t =
    tenant_records lg t @ (if ctx_tenant_id ctx = t
      then [\<lparr>cr_tenant_id = t, cr_model_id = m, cr_prompt_tokens = us_prompt_tokens u,
        cr_completion_tokens = us_completion_tokens u,
        cr_cost_usd = request_cost (price_per_1k lg m) (us_prompt_tokens u + us_completion_tokens u)\<rparr>]
      else [])"
  by (auto simp: ledger_step_def ledger_record_def tenant_records_def Let_def)

interpretation ledger_iso: tenant_scoped "\<lambda>t lg. (lg_prices lg, tenant_records lg t)" ledger_step ledger_owner
proof
  fix op :: "security_context \<times> string \<times> usage" and t lg lg'
  obtain ctx m u where op: "op = (ctx, m, u)" by (cases op)
  show "ledger_owner op \<noteq> t \<Longrightarrow>
      (lg_prices (ledger_step op lg), tenant_records (ledger_step op lg) t) = (lg_prices lg, tenant_records lg t)"
    by (simp add: op ledger_owner_def tenant_records_step)
  show "ledger_owner op = t \<Longrightarrow> (lg_prices lg, tenant_records lg t) = (lg_prices lg', tenant_records lg' t) \<Longrightarrow>
      (lg_prices (ledger_step op lg), tenant_records (ledger_step op lg) t) =
      (lg_prices (ledger_step op lg'), tenant_records (ledger_step op lg') t)"
    using price_cong [of lg lg'] by (simp add: op tenant_records_step)
qed

section \<open>Properties\<close>

lemma price_step: "price_per_1k (ledger_step op lg) = price_per_1k lg"
  by (rule price_cong) simp

lemma tenant_records_run:
  "tenant_records (run_ops ledger_step ops lg) t = tenant_records lg t @
     map (\<lambda>(ctx, m, u). \<lparr>cr_tenant_id = t, cr_model_id = m, cr_prompt_tokens = us_prompt_tokens u,
        cr_completion_tokens = us_completion_tokens u,
        cr_cost_usd = request_cost (price_per_1k lg m) (us_prompt_tokens u + us_completion_tokens u)\<rparr>)
       (purge ledger_owner t ops)"
proof (induction ops arbitrary: lg)
  case (Cons op ops)
  obtain ctx m u where op: "op = (ctx, m, u)" by (cases op)
  show ?case using Cons.IH [of "ledger_step op lg"]
    by (simp add: op tenant_records_step price_step ledger_owner_def)
qed simp

lemma dkeys_by_model: "set (dkeys (foldl add_model_cost d rs)) = set (dkeys d) \<union> set (map cr_model_id rs)"
  by (induction rs arbitrary: d) (simp_all add: add_model_cost_def set_dkeys_dset [simplified])

text \<open>A tenant's bill is its own and is complete. After any sequence of recorded requests of all
  tenants, the summary of a tenant counts exactly its own requests and the sum of their tokens,
  lists exactly the models it used, and is what it would be had the other tenants not existed.\<close>

theorem summary_own_spend:
  fixes prices ops ctx
  defines "lg \<equiv> run_ops ledger_step ops (new_ledger prices)"
    and "own \<equiv> purge ledger_owner (ctx_tenant_id ctx) ops"
  shows "cs_requests (ledger_summary ctx lg) = length own \<and>
    cs_total_tokens (ledger_summary ctx lg) =
      sum_list (map (\<lambda>(_, _, u). us_prompt_tokens u + us_completion_tokens u) own) \<and>
    set (dkeys (cs_by_model (ledger_summary ctx lg))) = (\<lambda>(_, m, _). m) ` set own \<and>
    ledger_summary ctx lg = ledger_summary ctx (run_ops ledger_step own (new_ledger prices))"
proof -
  have recs: "tenant_records lg (ctx_tenant_id ctx) =
     map (\<lambda>(c, m, u). \<lparr>cr_tenant_id = ctx_tenant_id ctx, cr_model_id = m, cr_prompt_tokens = us_prompt_tokens u,
        cr_completion_tokens = us_completion_tokens u,
        cr_cost_usd = request_cost (price_per_1k (new_ledger prices) m) (us_prompt_tokens u + us_completion_tokens u)\<rparr>) own"
    unfolding lg_def own_def tenant_records_run by (simp add: tenant_records_def new_ledger_def)
  have same: "tenant_records (run_ops ledger_step own (new_ledger prices)) (ctx_tenant_id ctx) =
      tenant_records lg (ctx_tenant_id ctx)"
    using ledger_iso.noninterference [where t = "ctx_tenant_id ctx" and ops = ops and s = "new_ledger prices"]
    by (simp add: lg_def own_def)
  show ?thesis
  proof (intro conjI)
    show "cs_total_tokens (ledger_summary ctx lg) =
        sum_list (map (\<lambda>(_, _, u). us_prompt_tokens u + us_completion_tokens u) own)"
      by (simp add: ledger_summary_def Let_def recs split_def comp_def)
    show "set (dkeys (cs_by_model (ledger_summary ctx lg))) = (\<lambda>(_, m, _). m) ` set own"
      by (simp add: ledger_summary_def Let_def dkeys_by_model [simplified] recs split_def image_image)
    show "ledger_summary ctx lg = ledger_summary ctx (run_ops ledger_step own (new_ledger prices))"
      by (simp add: ledger_summary_def same)
  qed (simp add: ledger_summary_def Let_def recs)
qed

text \<open>Exported instants keep their order, though the detour over floating-point seconds does not keep
  every microsecond.\<close>

lemma py_int_mono: "x \<le> y \<Longrightarrow> py_int x \<le> py_int y"
proof -
  assume le: "x \<le> y"
  have "\<lceil>x\<rceil> \<le> \<lfloor>y\<rfloor>" if "x < 0" "\<not> y < 0"
  proof -
    have "\<lceil>x\<rceil> \<le> 0" "0 \<le> \<lfloor>y\<rfloor>" using that by simp_all
    then show ?thesis by (rule order_trans)
  qed
  then show ?thesis using le by (auto simp: py_int_def intro: floor_mono ceiling_mono)
qed

lemma nanos_mono: "a \<le> b \<Longrightarrow> nanos (Some a) \<le> nanos (Some b)"
  unfolding nanos_def
  by (simp, intro py_int_mono, simp only: fmul_commute [of _ 1000000000], intro fmul_mono total_seconds_mono)
    simp_all

lemma nanos_inexact: "nanos (Some 1700000000123457) \<noteq> 1700000000123457 * 1000"
  by code_simp

lemma small_request_free: "request_cost (lit (2 / 10000)) 2 = 0"
  by code_simp

end
