(* ===== verification/Pipeline.thy ===== *)
theory Pipeline
  imports Compressor Cache Router Replay Observability
begin

text \<open>
  \<^verbatim>\<open>pipeline.py\<close>: the request. The collaborators of a \<^verbatim>\<open>Pipeline\<close> are the record \<open>pipeline\<close>,
  what they keep is the record \<open>pipe_state\<close>, which the stages thread; a stage runs within a span
  of the trace and may raise, and the span is closed in either case. \<open>platform\<close> holds the
  functions of the standard library that the source calls and that are parameters of the model,
  \<open>readings\<close> the fresh ids and the clock readings of one request.
\<close>

section \<open>Configuration and state\<close>

record platform =
  pf_sha :: "string \<Rightarrow> string"
  pf_b2 :: "string \<Rightarrow> string"
  pf_repr :: "flt \<Rightarrow> string"
  pf_libm :: libm
  pf_set_order :: "string list \<Rightarrow> string list"

record readings =
  rg_trace_id :: string
  rg_span_id :: "nat \<Rightarrow> string"
  rg_start :: "nat \<Rightarrow> int"
  rg_end :: "nat \<Rightarrow> int"
  rg_lookup :: "nat \<Rightarrow> int"
  rg_retrieve :: int
  rg_bundle :: int
  rg_route :: "string \<Rightarrow> int"
  rg_attempt :: "nat \<Rightarrow> int \<times> int"
  rg_store :: "int \<times> int"

record 'c semantic_cache =
  cache_backend :: "'c cache_backend"
  cache_embedder :: embedder
  cache_threshold :: flt
  cache_ttl :: int

text \<open>\<open>pl_compressor\<close> is the compressor with its optional backend, \<open>pl_router\<close> the router with the
  policy it consults, \<open>pl_policy\<close> the policy of the \<^verbatim>\<open>PolicyEngine\<close> of the pipeline.\<close>

record ('s, 'c, 'w) pipeline =
  pl_adapter :: "'w adapter"
  pl_policy :: "rbac_policy option"
  pl_memory :: "('s storage_backend \<times> embedder) option"
  pl_assembler :: "embedder option"
  pl_cache :: "'c semantic_cache option"
  pl_compressor :: "'w adapter option option"
  pl_replay :: bool
  pl_router :: "rbac_policy option option"
  pl_cost :: bool
  pl_default_model :: string
  pl_compress_target :: int
  pl_window_tokens :: int
  pl_weights :: rank_weights
  pl_tokenizer :: tokenizer

text \<open>The defaults of the constructor, for the arguments whose falsy values they replace.\<close>

definition default_pipeline :: "'w adapter \<Rightarrow> string option \<Rightarrow> ('s, 'c, 'w) pipeline" where
  "default_pipeline adapter default_model = \<lparr>pl_adapter = adapter, pl_policy = None, pl_memory = None,
     pl_assembler = None, pl_cache = None, pl_compressor = None, pl_replay = False, pl_router = None,
     pl_cost = False, pl_default_model = or_else default_model ''default'', pl_compress_target = 256,
     pl_window_tokens = 6000, pl_weights = default_weights, pl_tokenizer = default_count\<rparr>"

text \<open>An absent registry of backends is the empty one.\<close>

record ('s, 'c, 'w) pipe_state =
  ps_traces :: tracer
  ps_store :: 's
  ps_cache :: 'c
  ps_bundles :: bundle_store
  ps_ledger :: ledger
  ps_backends :: "'w registry"
  ps_world :: 'w

record chat_result =
  res_text :: string
  res_trace_id :: string
  res_model :: string
  res_usage :: usage

definition PIPE_MMR_LAMBDA :: flt where "PIPE_MMR_LAMBDA = lit (70 / 100)"

definition RETRIEVE_K :: nat where "RETRIEVE_K = 12"

section \<open>Stages within spans\<close>

type_synonym ('a, 'st) outcome = "'a result \<times> trace \<times> 'st"

definition seq :: "('a, 'st) outcome \<Rightarrow> ('a \<Rightarrow> trace \<Rightarrow> 'st \<Rightarrow> ('b, 'st) outcome) \<Rightarrow> ('b, 'st) outcome" where
  "seq m f = (case m of (Inl e, tr, st) \<Rightarrow> (Inl e, tr, st) | (Inr x, tr, st) \<Rightarrow> f x tr st)"

text \<open>A stage returns its result, the span it recorded its decision in, and the new state. The
  span is appended to the trace object whether the stage raised or not; the tracer holds the object.\<close>

definition with_span ::
  "readings \<Rightarrow> nat \<Rightarrow> string \<Rightarrow> string \<Rightarrow>
   (trace_span \<Rightarrow> ('s, 'c, 'w) pipe_state \<Rightarrow> 'a result \<times> trace_span \<times> ('s, 'c, 'w) pipe_state) \<Rightarrow>
   trace \<Rightarrow> ('s, 'c, 'w) pipe_state \<Rightarrow> ('a, ('s, 'c, 'w) pipe_state) outcome" where
  "with_span rg k stage name body tr st =
     (case body (open_span tr (rg_span_id rg k) (rg_start rg k) stage name None) st of
        (res, sp, st') \<Rightarrow>
          let tr' = close_span (rg_end rg k) sp tr
          in (res, tr', st'\<lparr>ps_traces := tracer_put tr' (ps_traces st')\<rparr>))"

definition str_of_bool :: "bool \<Rightarrow> string" where
  "str_of_bool b = (if b then ''True'' else ''False'')"

definition str_of_opt :: "string option \<Rightarrow> string" where
  "str_of_opt x = (case x of None \<Rightarrow> ''None'' | Some s \<Rightarrow> s)"

definition auth_stage ::
  "('s, 'c, 'w) pipeline \<Rightarrow> security_context \<Rightarrow> trace_span \<Rightarrow> ('s, 'c, 'w) pipe_state \<Rightarrow>
   unit result \<times> trace_span \<times> ('s, 'c, 'w) pipe_state" where
  "auth_stage P ctx sp st =
     (case check (pl_policy P) ctx [(''type'', ''model''), (''tenant_id'', ctx_tenant_id ctx)] ROUTE of
        Inl e \<Rightarrow> (Inl e, sp, st)
      | Inr _ \<Rightarrow> (Inr (), record_decision sp ''authorized''
            [(''tenant'', ctx_tenant_id ctx), (''namespace'', ctx_namespace ctx)], st))"

definition system_version :: "platform \<Rightarrow> string option \<Rightarrow> string" where
  "system_version pf system = take 12 (pf_sha pf (or_else system []))"

definition STABLE_FACTS :: string where "STABLE_FACTS = ''v0''"

definition pipe_lookup ::
  "platform \<Rightarrow> readings \<Rightarrow> ('s, 'c, 'w) pipeline \<Rightarrow> security_context \<Rightarrow> string \<Rightarrow> string \<Rightarrow> string \<Rightarrow>
   ('s, 'c, 'w) pipe_state \<Rightarrow> cache_hit option" where
  "pipe_lookup pf rg P ctx prompt model sysver st =
     (case pl_cache P of
        None \<Rightarrow> None
      | Some sc \<Rightarrow> lookup (cache_backend sc) (pf_sha pf) (cache_embedder sc) (cache_threshold sc) ctx prompt
          model sysver STABLE_FACTS (rg_lookup rg) (ps_cache st))"

definition cache_stage ::
  "platform \<Rightarrow> readings \<Rightarrow> ('s, 'c, 'w) pipeline \<Rightarrow> security_context \<Rightarrow> string \<Rightarrow> string \<Rightarrow> string \<Rightarrow>
   trace_span \<Rightarrow> ('s, 'c, 'w) pipe_state \<Rightarrow>
   cache_hit option result \<times> trace_span \<times> ('s, 'c, 'w) pipe_state" where
  "cache_stage pf rg P ctx prompt model sysver sp st =
     (let hit = pipe_lookup pf rg P ctx prompt model sysver st
      in (Inr hit,
          (case hit of
             Some h \<Rightarrow> record_decision sp (''hit ('' @ ch_tier h @ '')'')
               [(''verdict'', ''hit''), (''tier'', ch_tier h), (''similarity'', fmt_fixed 3 (ch_similarity h))]
           | None \<Rightarrow> record_decision sp ''miss'' [(''verdict'', ''miss''), (''tier'', ''none'')]),
          st))"

definition served_stage ::
  "trace_span \<Rightarrow> ('s, 'c, 'w) pipe_state \<Rightarrow> unit result \<times> trace_span \<times> ('s, 'c, 'w) pipe_state" where
  "served_stage sp st = (Inr (), record_decision sp ''served from cache; no model call'' [(''source'', ''cache'')], st)"

definition retrieve_stage ::
  "platform \<Rightarrow> readings \<Rightarrow> ('s, 'c, 'w) pipeline \<Rightarrow> security_context \<Rightarrow> string \<Rightarrow>
   trace_span \<Rightarrow> ('s, 'c, 'w) pipe_state \<Rightarrow>
   memory_candidate list result \<times> trace_span \<times> ('s, 'c, 'w) pipe_state" where
  "retrieve_stage pf rg P ctx prompt sp st =
     (case pl_memory P of
        None \<Rightarrow> (Inr [], record_decision sp ''no memory engine configured'' [(''candidates'', ''0'')], st)
      | Some (B, E) \<Rightarrow>
          (case retrieve B E (pf_libm pf) (pf_set_order pf) ctx prompt RETRIEVE_K (rg_retrieve rg) (ps_store st) of
             Inl e \<Rightarrow> (Inl e, sp, st)
           | Inr cs \<Rightarrow> (Inr cs, record_decision sp
               (''retrieved '' @ str_of_nat (length cs) @ '' candidate(s) (raw scores)'')
               [(''candidates'', str_of_nat (length cs)),
                (''top_memory_ids'', join '','' (map mc_memory_id (take 5 cs)))], st)))"

text \<open>The loop over the candidates: the tokens saved so far and the compressed list.\<close>

fun compress_loop ::
  "'w adapter option \<Rightarrow> int \<Rightarrow> tokenizer \<Rightarrow> string \<Rightarrow> memory_candidate list \<Rightarrow> int \<Rightarrow>
   memory_candidate list \<Rightarrow> 'w \<Rightarrow> int \<times> memory_candidate list \<times> 'w" where
  "compress_loop llm target cnt prompt [] saved acc w = (saved, acc, w)"
| "compress_loop llm target cnt prompt (c # cs) saved acc w =
     (case compress (mc_content c) target cnt (Some prompt) llm w of
        (block, w') \<Rightarrow>
          if cb_compressed_tokens block < cb_original_tokens block
          then compress_loop llm target cnt prompt cs
                 (saved + (cb_original_tokens block - cb_compressed_tokens block))
                 (acc @ [c\<lparr>mc_content := cb_text block\<rparr>]) w'
          else compress_loop llm target cnt prompt cs saved (acc @ [c]) w')"

definition compress_stage ::
  "('s, 'c, 'w) pipeline \<Rightarrow> string \<Rightarrow> memory_candidate list \<Rightarrow>
   trace_span \<Rightarrow> ('s, 'c, 'w) pipe_state \<Rightarrow>
   memory_candidate list result \<times> trace_span \<times> ('s, 'c, 'w) pipe_state" where
  "compress_stage P prompt candidates sp st =
     (if pl_compressor P \<noteq> None \<and> candidates \<noteq> []
      then case compress_loop (the (pl_compressor P)) (pl_compress_target P) (pl_tokenizer P) prompt
                  candidates 0 [] (ps_world st) of
             (saved, compressed, w') \<Rightarrow>
               (Inr compressed, record_decision sp
                  (''compressed candidates; saved ~'' @ str_of_int saved @ '' tok'')
                  [(''saved_tokens'', str_of_int saved)], st\<lparr>ps_world := w'\<rparr>)
      else (Inr candidates, record_decision sp ''skipped (no compressor or no candidates)'' [], st))"

definition pipe_budget :: "('s, 'c, 'w) pipeline \<Rightarrow> string \<Rightarrow> int \<Rightarrow> string option \<Rightarrow> token_budget" where
  "pipe_budget P prompt max_tokens system = \<lparr>tb_window_tokens = pl_window_tokens P,
     tb_output_reserve = max_tokens, tb_system_reserve = pl_tokenizer P (or_else system []),
     tb_latest_user_reserve = pl_tokenizer P prompt\<rparr>"

definition pipe_sources :: "string \<Rightarrow> string option \<Rightarrow> memory_candidate list \<Rightarrow> context_sources" where
  "pipe_sources prompt system candidates = \<lparr>sr_system_prompt = or_else system [],
     sr_latest_user_turn = prompt, sr_candidates = candidates, sr_history = []\<rparr>"

definition kept_count :: "assembled_context \<Rightarrow> nat" where
  "kept_count ac = length (filter cd_kept (ac_decisions ac))"

definition passthrough :: "string \<Rightarrow> string option \<Rightarrow> chat_message list" where
  "passthrough prompt system =
     (if truthy system then [\<lparr>cm_role = SYSTEM, cm_content = the system\<rparr>] else [])
     @ [\<lparr>cm_role = USER, cm_content = prompt\<rparr>]"

text \<open>The messages, the number of memory blocks injected and the tokens assembled.\<close>

definition assemble_stage ::
  "platform \<Rightarrow> readings \<Rightarrow> ('s, 'c, 'w) pipeline \<Rightarrow> security_context \<Rightarrow> string \<Rightarrow> string \<Rightarrow> int \<Rightarrow>
   string option \<Rightarrow> memory_candidate list \<Rightarrow> trace_span \<Rightarrow> ('s, 'c, 'w) pipe_state \<Rightarrow>
   (chat_message list \<times> nat \<times> int) result \<times> trace_span \<times> ('s, 'c, 'w) pipe_state" where
  "assemble_stage pf rg P ctx prompt model max_tokens system candidates sp st =
     (case pl_assembler P of
        Some E \<Rightarrow>
          (let budget = pipe_budget P prompt max_tokens system
           in case assemble E budget (pipe_sources prompt system candidates) (pl_weights P)
                     (Some (pl_tokenizer P)) PIPE_MMR_LAMBDA of
                Inl e \<Rightarrow> (Inl e, sp, st)
              | Inr ac \<Rightarrow>
                  (let injected = kept_count ac;
                       (bundle_cid, bundles) =
                         (if pl_replay P
                          then case capture (pf_b2 pf) (pf_repr pf) (rg_trace_id rg) ctx (or_else system []) prompt
                                      candidates (pl_weights P) PIPE_MMR_LAMBDA budget model
                                      (bundle_messages (ac_messages ac))
                                      (render_prompt_hash (pf_sha pf) (ac_messages ac)) (rg_bundle rg)
                                      (ps_bundles st) of
                                 (b, s') \<Rightarrow> (bu_bundle_cid b, s')
                          else (''-'', ps_bundles st))
                   in (Inr (ac_messages ac, injected, ac_used_tokens ac),
                       record_decision sp (''assembled '' @ str_of_nat (length (ac_messages ac)) @ '' msg(s); ''
                           @ str_of_nat injected @ '' memory block(s) injected'')
                         [(''used_tokens'', str_of_int (ac_used_tokens ac)),
                          (''soft_budget'', str_of_int (soft_budget budget)),
                          (''injected'', str_of_nat injected), (''bundle_cid'', bundle_cid)],
                       st\<lparr>ps_bundles := bundles\<rparr>)))
      | None \<Rightarrow> (Inr (passthrough prompt system, 0, pl_tokenizer P prompt + pl_tokenizer P (or_else system [])),
          record_decision sp ''passthrough (no assembler configured)'' [], st))"

definition route_stage ::
  "readings \<Rightarrow> ('s, 'c, 'w) pipeline \<Rightarrow> security_context \<Rightarrow> string \<Rightarrow> string \<Rightarrow> int \<Rightarrow>
   trace_span \<Rightarrow> ('s, 'c, 'w) pipe_state \<Rightarrow>
   (route_decision option \<times> string) result \<times> trace_span \<times> ('s, 'c, 'w) pipe_state" where
  "route_stage rg P ctx prompt model assembled_tokens sp st =
     (if pl_router P \<noteq> None \<and> ps_backends st \<noteq> []
      then case route (the (pl_router P)) ctx prompt assembled_tokens no_demand (rg_route rg) (ps_backends st) of
             Inl e \<Rightarrow> (Inl e, sp, st)
           | Inr d \<Rightarrow> (Inr (Some d, rd_model_id d),
               record_decision sp (''routed -> '' @ rd_backend d @ '' ('' @ rd_model_id d @ '')'')
                 [(''backend'', rd_backend d), (''model'', rd_model_id d),
                  (''utility'', fmt_fixed 4 (rd_utility d)), (''difficulty'', fmt_fixed 2 (rd_difficulty d)),
                  (''from_safe_default'', str_of_bool (rd_from_safe_default d)),
                  (''fallback'', join '','' (rd_fallback_chain d))], st)
      else (Inr (None, model),
        record_decision sp (''single-backend -> '' @ ad_name (pl_adapter P)) [(''model'', model)], st))"

section \<open>The routed invocation\<close>

text \<open>\<^verbatim>\<open>rg_attempt k\<close> are the readings that the breaker of the k-th name makes of its clock, to allow
  the call and to record its failure.\<close>

definition set_breaker :: "string \<Rightarrow> 'w registry_entry \<Rightarrow> breaker \<Rightarrow> 'w registry \<Rightarrow> 'w registry" where
  "set_breaker name e b reg = dset name (e\<lparr>re_breaker := b\<rparr>) reg"

fun invoke_loop ::
  "(nat \<Rightarrow> int \<times> int) \<Rightarrow> chat_message list \<Rightarrow> int \<Rightarrow> nat \<Rightarrow> string list \<Rightarrow> 'w registry \<Rightarrow> 'w \<Rightarrow>
   (chat_response \<times> string \<times> string) result \<times> 'w registry \<times> 'w" where
  "invoke_loop clk messages max_tokens k [] reg w =
     (Inl (BackendUnavailable ''all routed backends failed or are breaker-open''), reg, w)"
| "invoke_loop clk messages max_tokens k (name # names) reg w =
     (case registry_get reg name of
        None \<Rightarrow> invoke_loop clk messages max_tokens (Suc k) names reg w
      | Some e \<Rightarrow>
          if \<not> allows (fst (clk k)) (re_breaker e)
          then invoke_loop clk messages max_tokens (Suc k) names reg w
          else case ad_generate (re_adapter e) (mk_request (bs_model_id (re_spec e)) messages max_tokens) w of
                 (Inr resp, w') \<Rightarrow>
                   (Inr (resp, name, bs_model_id (re_spec e)),
                    set_breaker name e (record_success (re_breaker e)) reg, w')
               | (Inl err, w') \<Rightarrow>
                   invoke_loop clk messages max_tokens (Suc k) names
                     (set_breaker name e (record_failure (snd (clk k)) (re_breaker e)) reg) w')"

definition invoke_routed ::
  "readings \<Rightarrow> route_decision \<Rightarrow> chat_message list \<Rightarrow> int \<Rightarrow> 'w registry \<Rightarrow> 'w \<Rightarrow>
   (chat_response \<times> string \<times> string) result \<times> 'w registry \<times> 'w" where
  "invoke_routed rg d messages max_tokens reg w =
     invoke_loop (rg_attempt rg) messages max_tokens 0 (rd_backend d # rd_fallback_chain d) reg w"

definition invoke_stage ::
  "readings \<Rightarrow> ('s, 'c, 'w) pipeline \<Rightarrow> route_decision option \<Rightarrow> string \<Rightarrow> chat_message list \<Rightarrow> int \<Rightarrow>
   trace_span \<Rightarrow> ('s, 'c, 'w) pipe_state \<Rightarrow>
   (chat_response \<times> string) result \<times> trace_span \<times> ('s, 'c, 'w) pipe_state" where
  "invoke_stage rg P decision model messages max_tokens sp st =
     (let (res, reg', w') =
        (case decision of
           Some d \<Rightarrow> invoke_routed rg d messages max_tokens (ps_backends st) (ps_world st)
         | None \<Rightarrow>
             (case ad_generate (pl_adapter P) (mk_request model messages max_tokens) (ps_world st) of
                (Inl e, w') \<Rightarrow> (Inl e, ps_backends st, w')
              | (Inr resp, w') \<Rightarrow> (Inr (resp, ad_name (pl_adapter P), model), ps_backends st, w')));
          st' = st\<lparr>ps_backends := reg', ps_world := w'\<rparr>
      in case res of
           Inl e \<Rightarrow> (Inl e, sp, st')
         | Inr (resp, used, model') \<Rightarrow>
             (Inr (resp, model'), record_decision sp (''generated via '' @ used)
                [(''finish_reason'', str_of_opt (rs_finish_reason resp)),
                 (''prompt_tokens'', str_of_int (us_prompt_tokens (rs_usage resp))),
                 (''completion_tokens'', str_of_int (us_completion_tokens (rs_usage resp)))], st'))"

definition writeback_op ::
  "readings \<Rightarrow> security_context \<Rightarrow> string \<Rightarrow> string \<Rightarrow> string \<Rightarrow> string \<Rightarrow> bool \<Rightarrow> store_op" where
  "writeback_op rg ctx prompt text model sysver non_cacheable = \<lparr>so_ctx = ctx, so_query = prompt,
     so_response = text, so_model = model, so_spv = sysver, so_sfv = STABLE_FACTS,
     so_non_cacheable = non_cacheable, so_ttl = None, so_created = fst (rg_store rg), so_now = snd (rg_store rg)\<rparr>"

definition writeback_stage ::
  "platform \<Rightarrow> readings \<Rightarrow> ('s, 'c, 'w) pipeline \<Rightarrow> security_context \<Rightarrow> string \<Rightarrow> string \<Rightarrow> string \<Rightarrow> nat \<Rightarrow>
   chat_response \<Rightarrow> trace_span \<Rightarrow> ('s, 'c, 'w) pipe_state \<Rightarrow>
   unit result \<times> trace_span \<times> ('s, 'c, 'w) pipe_state" where
  "writeback_stage pf rg P ctx prompt model sysver injected resp sp st =
     (let committed = (rs_finish_reason resp \<noteq> None);
          (cached, c') =
            (case pl_cache P of
               Some sc \<Rightarrow> if committed
                 then store (cache_backend sc) (pf_sha pf) (cache_embedder sc) (cache_ttl sc)
                        (writeback_op rg ctx prompt (rs_text resp) model sysver (0 < injected)) (ps_cache st)
                 else (False, ps_cache st)
             | None \<Rightarrow> (False, ps_cache st));
          bundles = (if pl_replay P \<and> committed
            then snd (bundle_attach ctx (rg_trace_id rg) (rs_text resp) (ps_bundles st)) else ps_bundles st);
          ledger = (if pl_cost P \<and> committed
            then snd (ledger_record ctx model (rs_usage resp) (ps_ledger st)) else ps_ledger st)
      in (Inr (),
          record_decision sp (if committed then ''committed'' else ''discarded (no terminal event)'')
            [(''cached'', str_of_bool cached), (''non_cacheable'', str_of_bool (0 < injected))],
          st\<lparr>ps_cache := c', ps_bundles := bundles, ps_ledger := ledger\<rparr>))"

section \<open>The request\<close>

text \<open>What follows a cache miss: each stage, and what follows it.\<close>

definition run_write ::
  "platform \<Rightarrow> readings \<Rightarrow> ('s, 'c, 'w) pipeline \<Rightarrow> security_context \<Rightarrow> string \<Rightarrow> string option \<Rightarrow> nat \<Rightarrow>
   chat_response \<Rightarrow> string \<Rightarrow> trace \<Rightarrow> ('s, 'c, 'w) pipe_state \<Rightarrow> (chat_result, ('s, 'c, 'w) pipe_state) outcome" where
  "run_write pf rg P ctx prompt system injected resp model tr st =
     seq (with_span rg 7 ''writeback'' ''enqueue-async''
         (writeback_stage pf rg P ctx prompt model (system_version pf system) injected resp) tr st)
       (\<lambda>_ tr st. (Inr \<lparr>res_text = rs_text resp, res_trace_id = tr_trace_id tr, res_model = rs_model resp,
          res_usage = rs_usage resp\<rparr>, tr, st))"

definition run_invoke ::
  "platform \<Rightarrow> readings \<Rightarrow> ('s, 'c, 'w) pipeline \<Rightarrow> security_context \<Rightarrow> string \<Rightarrow> int \<Rightarrow> string option \<Rightarrow>
   chat_message list \<Rightarrow> nat \<Rightarrow> route_decision option \<Rightarrow> string \<Rightarrow> trace \<Rightarrow> ('s, 'c, 'w) pipe_state \<Rightarrow>
   (chat_result, ('s, 'c, 'w) pipe_state) outcome" where
  "run_invoke pf rg P ctx prompt max_tokens system messages injected decision model tr st =
     seq (with_span rg 6 ''backend.invoke'' ''adapter.generate''
         (invoke_stage rg P decision model messages max_tokens) tr st)
       (\<lambda>(resp, model) tr st. run_write pf rg P ctx prompt system injected resp model tr st)"

definition run_route ::
  "platform \<Rightarrow> readings \<Rightarrow> ('s, 'c, 'w) pipeline \<Rightarrow> security_context \<Rightarrow> string \<Rightarrow> string \<Rightarrow> int \<Rightarrow> string option \<Rightarrow>
   chat_message list \<Rightarrow> nat \<Rightarrow> int \<Rightarrow> trace \<Rightarrow> ('s, 'c, 'w) pipe_state \<Rightarrow>
   (chat_result, ('s, 'c, 'w) pipe_state) outcome" where
  "run_route pf rg P ctx prompt model max_tokens system messages injected assembled_tokens tr st =
     seq (with_span rg 5 ''route'' ''model-router'' (route_stage rg P ctx prompt model assembled_tokens) tr st)
       (\<lambda>(decision, model) tr st.
          run_invoke pf rg P ctx prompt max_tokens system messages injected decision model tr st)"

definition run_assemble ::
  "platform \<Rightarrow> readings \<Rightarrow> ('s, 'c, 'w) pipeline \<Rightarrow> security_context \<Rightarrow> string \<Rightarrow> string \<Rightarrow> int \<Rightarrow> string option \<Rightarrow>
   memory_candidate list \<Rightarrow> trace \<Rightarrow> ('s, 'c, 'w) pipe_state \<Rightarrow> (chat_result, ('s, 'c, 'w) pipe_state) outcome" where
  "run_assemble pf rg P ctx prompt model max_tokens system candidates tr st =
     seq (with_span rg 4 ''assemble'' ''context-assembly''
         (assemble_stage pf rg P ctx prompt model max_tokens system candidates) tr st)
       (\<lambda>(messages, injected, assembled_tokens) tr st.
          run_route pf rg P ctx prompt model max_tokens system messages injected assembled_tokens tr st)"

definition run_miss ::
  "platform \<Rightarrow> readings \<Rightarrow> ('s, 'c, 'w) pipeline \<Rightarrow> security_context \<Rightarrow> string \<Rightarrow> string \<Rightarrow> int \<Rightarrow>
   string option \<Rightarrow> trace \<Rightarrow> ('s, 'c, 'w) pipe_state \<Rightarrow> (chat_result, ('s, 'c, 'w) pipe_state) outcome" where
  "run_miss pf rg P ctx prompt model max_tokens system tr st =
     seq (with_span rg 2 ''retrieve'' ''memory-retrieve'' (retrieve_stage pf rg P ctx prompt) tr st)
       (\<lambda>retrieved tr st.
     seq (with_span rg 3 ''compress'' ''context-compression'' (compress_stage P prompt retrieved) tr st)
       (\<lambda>candidates tr st. run_assemble pf rg P ctx prompt model max_tokens system candidates tr st))"

lemmas run_miss_unfold = run_miss_def run_assemble_def run_route_def run_invoke_def run_write_def

definition run_hit ::
  "readings \<Rightarrow> string \<Rightarrow> cache_hit \<Rightarrow> trace \<Rightarrow> ('s, 'c, 'w) pipe_state \<Rightarrow>
   (chat_result, ('s, 'c, 'w) pipe_state) outcome" where
  "run_hit rg model hit tr st =
     seq (with_span rg 2 ''writeback'' ''served-from-cache'' served_stage tr st)
       (\<lambda>_ tr st. (Inr \<lparr>res_text = ch_response_text hit, res_trace_id = tr_trace_id tr, res_model = model,
          res_usage = zero_usage\<rparr>, tr, st))"

definition run_traced ::
  "platform \<Rightarrow> readings \<Rightarrow> ('s, 'c, 'w) pipeline \<Rightarrow> security_context \<Rightarrow> string \<Rightarrow> string option \<Rightarrow> int \<Rightarrow>
   string option \<Rightarrow> trace \<Rightarrow> ('s, 'c, 'w) pipe_state \<Rightarrow> (chat_result, ('s, 'c, 'w) pipe_state) outcome" where
  "run_traced pf rg P ctx prompt model max_tokens system tr st =
     (let chosen = or_else model (pl_default_model P)
      in seq (with_span rg 0 ''auth'' ''resolve+authorize'' (auth_stage P ctx) tr st)
       (\<lambda>_ tr st.
     seq (with_span rg 1 ''cache'' ''semantic-cache-lookup''
         (cache_stage pf rg P ctx prompt chosen (system_version pf system)) tr st)
       (\<lambda>hit tr st.
     case hit of
       Some h \<Rightarrow> run_hit rg chosen h tr st
     | None \<Rightarrow> run_miss pf rg P ctx prompt chosen max_tokens system tr st)))"

definition run ::
  "platform \<Rightarrow> readings \<Rightarrow> ('s, 'c, 'w) pipeline \<Rightarrow> security_context \<Rightarrow> string \<Rightarrow> string option \<Rightarrow> int \<Rightarrow>
   string option \<Rightarrow> ('s, 'c, 'w) pipe_state \<Rightarrow> chat_result result \<times> ('s, 'c, 'w) pipe_state" where
  "run pf rg P ctx prompt model max_tokens system st =
     (case tracer_start ctx (rg_trace_id rg) (ps_traces st) of
        (tr, traces) \<Rightarrow>
          (case run_traced pf rg P ctx prompt model max_tokens system tr (st\<lparr>ps_traces := traces\<rparr>) of
             (res, _, st') \<Rightarrow> (res, st')))"

end
