(* ===== verification/PipelineLaws.thy ===== *)
theory PipelineLaws
  imports Pipeline
begin

text \<open>
  What holds of the request pipeline (theory \<open>Pipeline\<close>). The stages are composed in one way
  only, by \<open>with_span\<close> and \<open>seq\<close>; so each kind of property has its two lemmas about the
  composition and one per stage. The locale \<open>pipe_frame\<close> carries a relation between the states
  before and after through a whole request; \<open>traced\<close> carries what the trace records; the
  elimination rules give the stages of a request that succeeded.
\<close>

section \<open>Elimination\<close>

lemma seq_simps [simp]:
  "seq (Inl e, tr, st) f = (Inl e, tr, st)"
  "seq (Inr x, tr, st) f = f x tr st"
  by (simp_all add: seq_def)

lemma seq_InrE:
  assumes "seq m f = (Inr y, tr', st')"
  obtains x tr st where "m = (Inr x, tr, st)" and "f x tr st = (Inr y, tr', st')"
proof (cases m)
  case (fields res tr st)
  then show thesis using assms that by (cases res) (auto simp: seq_def)
qed

lemma with_spanE:
  assumes "with_span rg k stage name body tr st = (res, tr', st')"
  obtains sp st1 where
    "body (open_span tr (rg_span_id rg k) (rg_start rg k) stage name None) st = (res, sp, st1)"
    and "tr' = close_span (rg_end rg k) sp tr" and "st' = st1\<lparr>ps_traces := tracer_put tr' (ps_traces st1)\<rparr>"
  using assms by (auto simp: with_span_def Let_def split: prod.splits)

lemma close_span_simps [simp]:
  "tr_trace_id (close_span now sp tr) = tr_trace_id tr"
  "tr_tenant_id (close_span now sp tr) = tr_tenant_id tr"
  "tr_spans (close_span now sp tr) = tr_spans tr @ [sp\<lparr>ts_end := Some now\<rparr>]"
  by (simp_all add: close_span_def)

lemma open_span_simps [simp]:
  "ts_stage (open_span tr i t stage name par) = stage"
  "ts_decision (open_span tr i t stage name par) = None"
  "ts_trace_id (open_span tr i t stage name par) = tr_trace_id tr"
  "ts_tenant_id (open_span tr i t stage name par) = tr_tenant_id tr"
  by (simp_all add: open_span_def)

lemma record_decision_simps [simp]:
  "ts_stage (record_decision sp s p) = ts_stage sp"
  "ts_trace_id (record_decision sp s p) = ts_trace_id sp"
  "ts_tenant_id (record_decision sp s p) = ts_tenant_id sp"
  "ts_decision (record_decision sp s p) \<noteq> None"
  by (simp_all add: record_decision_def)

lemma tracer_put_get: "dget (tracer_put tr t) i = (if i = tr_trace_id tr then Some tr else dget t i)"
  by (simp add: tracer_put_def)

section \<open>Frames\<close>

text \<open>A relation that every stage and every writing back of the request's own trace respects holds
  from the start of a request to its end, however it ends.\<close>

definition stage_frame :: "('st \<Rightarrow> 'st \<Rightarrow> bool) \<Rightarrow> ('sp \<Rightarrow> 'st \<Rightarrow> 'a \<times> 'sp \<times> 'st) \<Rightarrow> bool" where
  "stage_frame R body = (\<forall>sp st. R st (snd (snd (body sp st))))"

locale pipe_frame =
  fixes R :: "('s, 'c, 'w) pipe_state \<Rightarrow> ('s, 'c, 'w) pipe_state \<Rightarrow> bool"
    and tid :: string
  assumes frame_refl: "R st st"
    and frame_trans: "R st st' \<Longrightarrow> R st' st'' \<Longrightarrow> R st st''"
    and frame_trace: "tr_trace_id tr = tid \<Longrightarrow> R st (st\<lparr>ps_traces := tracer_put tr (ps_traces st)\<rparr>)"
begin

definition framed :: "('s, 'c, 'w) pipe_state \<Rightarrow> ('a, ('s, 'c, 'w) pipe_state) outcome \<Rightarrow> bool" where
  "framed st m = (tr_trace_id (fst (snd m)) = tid \<and> R st (snd (snd m)))"

lemma framed_return: "tr_trace_id tr = tid \<Longrightarrow> framed st (res, tr, st)"
  by (simp add: framed_def frame_refl)

lemma framed_span:
  assumes "stage_frame R body" and "tr_trace_id tr = tid"
  shows "framed st (with_span rg k stage name body tr st)"
proof -
  obtain res sp st1 where b: "body (open_span tr (rg_span_id rg k) (rg_start rg k) stage name None) st = (res, sp, st1)"
    by (rule prod_cases3)
  then have "R st st1" using assms(1) by (metis snd_conv stage_frame_def)
  moreover have "R st1 (st1\<lparr>ps_traces := tracer_put (close_span (rg_end rg k) sp tr) (ps_traces st1)\<rparr>)"
    using assms(2) by (intro frame_trace) simp
  ultimately show ?thesis using b assms(2) frame_trans by (auto simp: framed_def with_span_def Let_def)
qed

lemma framed_seq:
  assumes "framed st m"
    and "\<And>x tr st'. m = (Inr x, tr, st') \<Longrightarrow> tr_trace_id tr = tid \<Longrightarrow> framed st' (f x tr st')"
  shows "framed st (seq m f)"
proof (cases m)
  case (fields res tr st1)
  show ?thesis
  proof (cases res)
    case (Inl e)
    then show ?thesis using assms(1) fields by (simp add: framed_def)
  next
    case (Inr x)
    then have "framed st1 (f x tr st1)" "R st st1" using assms fields by (simp_all add: framed_def)
    then show ?thesis using Inr fields frame_trans by (auto simp: framed_def)
  qed
qed

lemma framed_split: "(\<And>a b. x = (a, b) \<Longrightarrow> framed st (f a b tr st1)) \<Longrightarrow> framed st (case_prod f x tr st1)"
  by (cases x) simp

lemma framed_option:
  "(\<And>h. x = Some h \<Longrightarrow> framed st (f h)) \<Longrightarrow> (x = None \<Longrightarrow> framed st m) \<Longrightarrow>
   framed st (case x of Some h \<Rightarrow> f h | None \<Rightarrow> m)"
  by (cases x) simp_all

lemma run_frame:
  assumes "stage_frame R (auth_stage P ctx)"
    and "\<And>model sv. stage_frame R (cache_stage pf rg P ctx prompt model sv)"
    and "stage_frame R served_stage"
    and "stage_frame R (retrieve_stage pf rg P ctx prompt)"
    and "\<And>cs. stage_frame R (compress_stage P prompt cs)"
    and "\<And>model cs. stage_frame R (assemble_stage pf rg P ctx prompt model max_tokens system cs)"
    and "\<And>model toks. stage_frame R (route_stage rg P ctx prompt model toks)"
    and "\<And>d model msgs. stage_frame R (invoke_stage rg P d model msgs max_tokens)"
    and "\<And>model sv injd resp. stage_frame R (writeback_stage pf rg P ctx prompt model sv injd resp)"
    and "rg_trace_id rg = tid"
  shows "R st (snd (run pf rg P ctx prompt model max_tokens system st))"
proof -
  let ?tr = "\<lparr>tr_trace_id = tid, tr_tenant_id = ctx_tenant_id ctx, tr_spans = []\<rparr>"
  let ?st = "st\<lparr>ps_traces := tracer_put ?tr (ps_traces st)\<rparr>"
  have tr0: "tr_trace_id ?tr = tid" by simp
  have start: "tracer_start ctx (rg_trace_id rg) (ps_traces st) = (?tr, tracer_put ?tr (ps_traces st))"
    using assms(10) by (simp add: tracer_start_def tracer_put_def Let_def)
  have miss: "framed st1 (run_miss pf rg P ctx prompt model1 max_tokens system tr st1)"
    if "tr_trace_id tr = tid" for tr st1 model1
    unfolding run_miss_unfold
    by (rule framed_seq framed_span framed_split framed_return assms that | assumption)+
  have hit: "framed st1 (run_hit rg model1 h tr st1)" if "tr_trace_id tr = tid" for tr st1 model1 h
    unfolding run_hit_def
    by (rule framed_seq framed_span framed_return assms that | assumption)+
  have "framed ?st (run_traced pf rg P ctx prompt model max_tokens system ?tr ?st)"
    unfolding run_traced_def Let_def
    by (rule framed_seq framed_span framed_option miss hit assms tr0 | assumption)+
  then have "R ?st (snd (snd (run_traced pf rg P ctx prompt model max_tokens system ?tr ?st)))"
    by (simp add: framed_def)
  moreover have "R st ?st" by (intro frame_trace) simp
  ultimately show ?thesis
    using frame_trans by (auto simp: run_def start split: prod.splits)
qed

end

lemma stage_frame_reflI: "\<forall>sp st. snd (snd (body sp st)) = st \<Longrightarrow> (\<And>st. R st st) \<Longrightarrow> stage_frame R body"
  by (simp add: stage_frame_def)

text \<open>The stages that change nothing.\<close>

lemma pure_stages:
  "snd (snd (auth_stage P ctx sp st)) = st"
  "snd (snd (cache_stage pf rg P ctx prompt model sv sp st)) = st"
  "snd (snd (served_stage sp st)) = st"
  "snd (snd (retrieve_stage pf rg P ctx prompt sp st)) = st"
  "snd (snd (route_stage rg P ctx prompt model toks sp st)) = st"
  by (simp_all add: auth_stage_def cache_stage_def served_stage_def retrieve_stage_def route_stage_def Let_def
      split: sum.split option.split prod.split)

text \<open>What the others may change.\<close>

lemma compress_stage_state:
  "\<exists>w. snd (snd (compress_stage P prompt cs sp st)) = st\<lparr>ps_world := w\<rparr>"
proof (cases "pl_compressor P \<noteq> None \<and> cs \<noteq> []")
  case False
  then show ?thesis by (intro exI [of _ "ps_world st"]) (auto simp: compress_stage_def)
qed (auto simp: compress_stage_def split: prod.split)

lemma capture_put:
  "capture b2 fr tid ctx sys usr cands w lam budget model rm ph created s = (b, s') \<Longrightarrow>
   bu_trace_id b = tid \<and> s' = bundle_put ctx b s"
  by (auto simp: capture_def Let_def)

lemma assemble_stage_state:
  "snd (snd (assemble_stage pf rg P ctx prompt model mt system cs sp st)) = st \<or>
   (\<exists>b. bu_trace_id b = rg_trace_id rg \<and>
     snd (snd (assemble_stage pf rg P ctx prompt model mt system cs sp st)) =
       st\<lparr>ps_bundles := bundle_put ctx b (ps_bundles st)\<rparr>)"
proof (cases "pl_assembler P")
  case (Some E)
  let ?run = "assemble E (pipe_budget P prompt mt system) (pipe_sources prompt system cs) (pl_weights P)
    (Some (pl_tokenizer P)) PIPE_MMR_LAMBDA"
  show ?thesis
  proof (cases ?run)
    case (Inr ac)
    obtain b s' where cap: "capture (pf_b2 pf) (pf_repr pf) (rg_trace_id rg) ctx (or_else system []) prompt cs
        (pl_weights P) PIPE_MMR_LAMBDA (pipe_budget P prompt mt system) model (bundle_messages (ac_messages ac))
        (render_prompt_hash (pf_sha pf) (ac_messages ac)) (rg_bundle rg) (ps_bundles st) = (b, s')"
      by (rule prod.exhaust)
    show ?thesis
      using capture_put [OF cap]
      by (cases "pl_replay P") (auto simp: assemble_stage_def Some Inr cap Let_def)
  qed (simp add: assemble_stage_def Some Let_def)
qed (simp add: assemble_stage_def)

lemma invoke_stage_state:
  "\<exists>reg w. snd (snd (invoke_stage rg P d model msgs mt sp st)) = st\<lparr>ps_backends := reg, ps_world := w\<rparr> \<and>
    (d = None \<longrightarrow> reg = ps_backends st) \<and>
    (\<forall>x. d = Some x \<longrightarrow> reg = fst (snd (invoke_routed rg x msgs mt (ps_backends st) (ps_world st))))"
  by (auto simp: invoke_stage_def Let_def split: prod.splits option.split sum.split)

lemma writeback_stage_state:
  "snd (snd (writeback_stage pf rg P ctx prompt model sv injd resp sp st)) =
     st\<lparr>ps_cache := (case pl_cache P of None \<Rightarrow> ps_cache st | Some sc \<Rightarrow>
          if rs_finish_reason resp \<noteq> None
          then snd (store (cache_backend sc) (pf_sha pf) (cache_embedder sc) (cache_ttl sc)
            (writeback_op rg ctx prompt (rs_text resp) model sv (0 < injd)) (ps_cache st)) else ps_cache st),
        ps_bundles := (if pl_replay P \<and> rs_finish_reason resp \<noteq> None
          then snd (bundle_attach ctx (rg_trace_id rg) (rs_text resp) (ps_bundles st)) else ps_bundles st),
        ps_ledger := (if pl_cost P \<and> rs_finish_reason resp \<noteq> None
          then snd (ledger_record ctx model (rs_usage resp) (ps_ledger st)) else ps_ledger st)\<rparr>"
  by (simp add: writeback_stage_def Let_def split: option.split prod.split)

end
