(* ===== verification/PipelineStages.thy ===== *)
theory PipelineStages
  imports PipelineLaws
begin

text \<open>
  Lemmas about a whole request: what it leaves alone (two instances of the locale \<open>pipe_frame\<close>),
  what its trace records (\<open>traced\<close>), the three ways it can begin (\<open>run_denied\<close>,
  \<open>run_admitted\<close> with \<open>run_hit\<close> or \<open>run_miss\<close>), and what the stages of an answered request
  computed (\<open>retrieves\<close> to \<open>invokes\<close>).
\<close>

lemma compress_stage_frame:
  "(\<And>st w. R st (st\<lparr>ps_world := w\<rparr>)) \<Longrightarrow> stage_frame R (compress_stage P prompt cs)"
  unfolding stage_frame_def using compress_stage_state [of P prompt cs] by metis

lemma assemble_stage_frame:
  "(\<And>st. R st st) \<Longrightarrow> (\<And>st b. R st (st\<lparr>ps_bundles := bundle_put ctx b (ps_bundles st)\<rparr>)) \<Longrightarrow>
   stage_frame R (assemble_stage pf rg P ctx prompt model mt system cs)"
  unfolding stage_frame_def using assemble_stage_state [of pf rg P ctx prompt model mt system cs] by metis

section \<open>What a request leaves alone\<close>

text \<open>The state of everyone else: the memories, the partitions of the other tenants, their bundles,
  their records in the ledger and its prices, the other traces, and the backends registered.\<close>

definition specs_of :: "'w registry \<Rightarrow> (string \<times> backend_spec \<times> 'w adapter) list" where
  "specs_of reg = map (\<lambda>(n, e). (n, re_spec e, re_adapter e)) reg"

definition others_unchanged ::
  "string \<Rightarrow> string \<Rightarrow> ('s, cache_store, 'w) pipe_state \<Rightarrow> ('s, cache_store, 'w) pipe_state \<Rightarrow> bool" where
  "others_unchanged tenant tid st st' =
     (ps_store st' = ps_store st \<and>
      (\<forall>t. t \<noteq> tenant \<longrightarrow> part (ps_cache st') t = part (ps_cache st) t \<and>
         part (ps_bundles st') t = part (ps_bundles st) t \<and>
         tenant_records (ps_ledger st') t = tenant_records (ps_ledger st) t) \<and>
      lg_prices (ps_ledger st') = lg_prices (ps_ledger st) \<and>
      (\<forall>i. i \<noteq> tid \<longrightarrow> dget (ps_traces st') i = dget (ps_traces st) i))"

interpretation others: pipe_frame "others_unchanged tenant tid" tid for tenant tid
  by unfold_locales (auto simp: others_unchanged_def tracer_put_get)

lemma others_bundle_put:
  "ctx_tenant_id ctx = tenant \<Longrightarrow>
   others_unchanged tenant tid st (st\<lparr>ps_bundles := bundle_put ctx b (ps_bundles st)\<rparr>)"
  by (simp add: others_unchanged_def bundle_put_def)

lemma tenant_records_other:
  "t \<noteq> ctx_tenant_id ctx \<Longrightarrow> tenant_records (snd (ledger_record ctx m u lg)) t = tenant_records lg t"
  "lg_prices (snd (ledger_record ctx m u lg)) = lg_prices lg"
  using tenant_records_step [of ctx m u lg t] ledger_step_prices [of "(ctx, m, u)" lg]
  by (auto simp: ledger_step_def)

lemma part_store_other:
  "so_ctx op = ctx \<Longrightarrow> t \<noteq> ctx_tenant_id ctx \<Longrightarrow> part (snd (store mem_cache sha E ttl op c)) t = part c t"
  using cache_iso.local_respect [of op t sha E ttl c] by (simp add: op_owner_def cache_step_def)

lemma part_attach_other:
  "t \<noteq> ctx_tenant_id ctx \<Longrightarrow> part (snd (bundle_attach ctx tid out s)) t = part s t"
  by (simp add: bundle_attach_def split: option.split)

lemma others_writeback:
  assumes "ctx_tenant_id ctx = tenant" and "\<forall>sc. pl_cache P = Some sc \<longrightarrow> cache_backend sc = mem_cache"
  shows "stage_frame (others_unchanged tenant tid) (writeback_stage pf rg P ctx prompt model sv injd resp)"
proof -
  have "part (snd (store (cache_backend sc) (pf_sha pf) (cache_embedder sc) (cache_ttl sc)
      (writeback_op rg ctx prompt answer model sv b) c)) t = part c t"
    if "t \<noteq> tenant" "pl_cache P = Some sc" for t sc answer b c
    using that assms part_store_other [of "writeback_op rg ctx prompt answer model sv b" ctx t]
    by (simp add: writeback_op_def)
  then show ?thesis
    using assms(1) tenant_records_other part_attach_other
    by (simp add: stage_frame_def writeback_stage_state others_unchanged_def split: option.split)
qed

lemma others_world:
  "others_unchanged tenant tid st (st\<lparr>ps_world := w\<rparr>)"
  "others_unchanged tenant tid st (st\<lparr>ps_backends := reg, ps_world := w\<rparr>)"
  by (simp_all add: others_unchanged_def)

lemma run_others:
  fixes P :: "('s, cache_store, 'w) pipeline"
  assumes "\<forall>sc. pl_cache P = Some sc \<longrightarrow> cache_backend sc = mem_cache"
  shows "others_unchanged (ctx_tenant_id ctx) (rg_trace_id rg) st
    (snd (run pf rg P ctx prompt model max_tokens system st))"
proof (rule others.run_frame)
  fix cs show "stage_frame (others_unchanged (ctx_tenant_id ctx) (rg_trace_id rg)) (compress_stage P prompt cs)"
    by (rule compress_stage_frame) (rule others_world)
next
  fix model cs
  show "stage_frame (others_unchanged (ctx_tenant_id ctx) (rg_trace_id rg))
      (assemble_stage pf rg P ctx prompt model max_tokens system cs)"
    by (rule assemble_stage_frame) (simp_all add: others.frame_refl others_bundle_put)
next
  fix d model msgs
  show "stage_frame (others_unchanged (ctx_tenant_id ctx) (rg_trace_id rg)) (invoke_stage rg P d model msgs max_tokens)"
    using invoke_stage_state others_world(2) unfolding stage_frame_def by metis
next
  fix model sv injd resp
  show "stage_frame (others_unchanged (ctx_tenant_id ctx) (rg_trace_id rg))
      (writeback_stage pf rg P ctx prompt model sv injd resp)"
    by (rule others_writeback [OF refl assms])
qed (simp_all add: stage_frame_def pure_stages others.frame_refl)

section \<open>The backends a request leaves registered\<close>

definition same_specs :: "('s, 'c, 'w) pipe_state \<Rightarrow> ('s, 'c, 'w) pipe_state \<Rightarrow> bool" where
  "same_specs st st' = (specs_of (ps_backends st') = specs_of (ps_backends st))"

interpretation specs: pipe_frame same_specs tid for tid
  by unfold_locales (simp_all add: same_specs_def)

lemma specs_set_breaker:
  "registry_get reg name = Some e \<Longrightarrow> specs_of (set_breaker name e b reg) = specs_of reg"
  unfolding specs_of_def set_breaker_def registry_get_def by (induction reg) (auto split: if_splits)

lemma invoke_loop_specs: "specs_of (fst (snd (invoke_loop clk msgs mt k names reg w))) = specs_of reg"
  by (induction clk msgs mt k names reg w rule: invoke_loop.induct)
    (auto simp: specs_set_breaker split: option.split sum.split prod.split)

lemma specs_invoke: "stage_frame same_specs (invoke_stage rg P d model msgs max_tokens)"
  unfolding stage_frame_def
proof (intro allI)
  fix sp st
  obtain reg w where "snd (snd (invoke_stage rg P d model msgs max_tokens sp st)) = st\<lparr>ps_backends := reg, ps_world := w\<rparr>"
    "d = None \<longrightarrow> reg = ps_backends st"
    "\<forall>x. d = Some x \<longrightarrow> reg = fst (snd (invoke_routed rg x msgs max_tokens (ps_backends st) (ps_world st)))"
    using invoke_stage_state [of rg P d model msgs max_tokens sp st] by (elim exE conjE) (rule that)
  then show "same_specs st (snd (snd (invoke_stage rg P d model msgs max_tokens sp st)))"
    by (cases d) (simp_all add: same_specs_def invoke_routed_def invoke_loop_specs del: invoke_loop.simps)
qed

lemma specs_pure: "(\<And>sp st. ps_backends (snd (snd (body sp st))) = ps_backends st) \<Longrightarrow> stage_frame same_specs body"
  by (simp add: stage_frame_def same_specs_def)

lemma run_specs:
  "same_specs st (snd (run pf rg P ctx prompt model max_tokens system st))"
  by (rule specs.run_frame [OF _ _ _ _ compress_stage_frame assemble_stage_frame _ specs_invoke _ refl];
      (rule specs_pure)?) (simp_all only: pure_stages, simp_all add: same_specs_def writeback_stage_state)

section \<open>What the trace records\<close>

text \<open>The stages of a trace, each with whether it recorded a decision.\<close>

definition stage_log :: "trace \<Rightarrow> (string \<times> bool) list" where
  "stage_log tr = map (\<lambda>sp. (ts_stage sp, ts_decision sp \<noteq> None)) (tr_spans tr)"

definition log_of :: "string list \<Rightarrow> 'a result \<Rightarrow> (string \<times> bool) list \<Rightarrow> bool" where
  "log_of stages res lg = (case res of
     Inr _ \<Rightarrow> lg = map (\<lambda>s. (s, True)) stages
   | Inl _ \<Rightarrow> \<exists>k < length stages. lg = map (\<lambda>s. (s, True)) (take k stages) @ [(stages ! k, False)])"

text \<open>An outcome whose trace is filed, closed and complete up to these stages.\<close>

definition trace_ok :: "string \<Rightarrow> string \<Rightarrow> trace \<Rightarrow> bool" where
  "trace_ok tid tenant tr = (tr_trace_id tr = tid \<and> tr_tenant_id tr = tenant \<and>
     (\<forall>sp \<in> set (tr_spans tr). ts_end sp \<noteq> None \<and> ts_trace_id sp = tid \<and> ts_tenant_id sp = tenant))"

definition traced ::
  "string \<Rightarrow> string \<Rightarrow> string list \<Rightarrow> ('a, ('s, 'c, 'w) pipe_state) outcome \<Rightarrow> bool" where
  "traced tid tenant stages m = (case m of (res, tr, st) \<Rightarrow>
     trace_ok tid tenant tr \<and> dget (ps_traces st) tid = Some tr \<and> log_of stages res (stage_log tr))"

text \<open>A stage records its decision just when it does not raise.\<close>

definition decides :: "(trace_span \<Rightarrow> 'st \<Rightarrow> 'a result \<times> trace_span \<times> 'st) \<Rightarrow> bool" where
  "decides body = (\<forall>sp st. case body sp st of (res, sp', st') \<Rightarrow>
     ts_stage sp' = ts_stage sp \<and> ts_trace_id sp' = ts_trace_id sp \<and> ts_tenant_id sp' = ts_tenant_id sp \<and>
     (case res of Inr _ \<Rightarrow> ts_decision sp' \<noteq> None | Inl _ \<Rightarrow> sp' = sp))"

lemma decides_stages:
  "decides (auth_stage P ctx)"
  "decides (cache_stage pf rg P ctx prompt model sv)"
  "decides served_stage"
  "decides (retrieve_stage pf rg P ctx prompt)"
  "decides (compress_stage P prompt cs)"
  "decides (assemble_stage pf rg P ctx prompt model max_tokens system cs)"
  "decides (route_stage rg P ctx prompt model toks)"
  "decides (invoke_stage rg P d model msgs max_tokens)"
  "decides (writeback_stage pf rg P ctx prompt model sv injd resp)"
  by (simp_all add: record_decision_def decides_def auth_stage_def cache_stage_def served_stage_def retrieve_stage_def
      compress_stage_def assemble_stage_def route_stage_def invoke_stage_def writeback_stage_def Let_def
      split: sum.split option.split prod.split)

lemma traced_span:
  assumes "decides body" and "trace_ok tid tenant tr" and "stage_log tr = map (\<lambda>s. (s, True)) stages"
  shows "traced tid tenant (stages @ [stage]) (with_span rg k stage name body tr st)"
proof -
  let ?sp = "open_span tr (rg_span_id rg k) (rg_start rg k) stage name None"
  obtain res sp st1 where b: "body ?sp st = (res, sp, st1)" by (rule prod_cases3)
  have sp: "ts_stage sp = stage" "ts_trace_id sp = tid" "ts_tenant_id sp = tenant"
    "case res of Inr _ \<Rightarrow> ts_decision sp \<noteq> None | Inl _ \<Rightarrow> ts_decision sp = None"
    using assms(1,2) b unfolding decides_def trace_ok_def
    by (auto dest!: spec [of _ ?sp] spec [of _ st] split: sum.splits)
  show ?thesis
    using assms(2,3) sp
    by (auto simp: traced_def with_span_def b Let_def trace_ok_def tracer_put_get stage_log_def log_of_def
        split: sum.splits intro!: exI [of _ "length stages"])
qed

lemma traced_seq:
  assumes "traced tid tenant xs m"
    and "\<And>x tr st. m = (Inr x, tr, st) \<Longrightarrow> trace_ok tid tenant tr \<Longrightarrow> stage_log tr = map (\<lambda>s. (s, True)) xs \<Longrightarrow>
      dget (ps_traces st) tid = Some tr \<Longrightarrow> traced tid tenant (xs @ ys) (f x tr st)"
  shows "traced tid tenant (xs @ ys) (seq m f)"
proof (cases m)
  case (fields res tr st)
  show ?thesis
  proof (cases res)
    case (Inl e)
    then obtain k where "k < length xs" "stage_log tr = map (\<lambda>s. (s, True)) (take k xs) @ [(xs ! k, False)]"
      using assms(1) fields by (auto simp: traced_def log_of_def)
    then have "\<exists>k < length (xs @ ys). stage_log tr = map (\<lambda>s. (s, True)) (take k (xs @ ys)) @ [((xs @ ys) ! k, False)]"
      by (intro exI [of _ k]) (simp add: nth_append)
    then show ?thesis using assms(1) fields Inl by (simp add: traced_def log_of_def)
  next
    case (Inr x)
    then show ?thesis using assms fields by (simp add: traced_def log_of_def)
  qed
qed

text \<open>The chain of stages still to come, as a rule to step through it.\<close>

definition traced_from ::
  "string \<Rightarrow> string \<Rightarrow> string list \<Rightarrow> string list \<Rightarrow> ('a, ('s, 'c, 'w) pipe_state) outcome \<Rightarrow> bool" where
  "traced_from tid tenant past future m = traced tid tenant (past @ future) m"

definition past_ok :: "string \<Rightarrow> string \<Rightarrow> string list \<Rightarrow> trace \<Rightarrow> ('s, 'c, 'w) pipe_state \<Rightarrow> bool" where
  "past_ok tid tenant past tr st = (trace_ok tid tenant tr \<and> stage_log tr = map (\<lambda>s. (s, True)) past \<and>
     dget (ps_traces st) tid = Some tr)"

lemma traced_step:
  assumes "decides body" and "past_ok tid tenant past tr st"
    and "\<And>x tr st. past_ok tid tenant (past @ [stage]) tr st \<Longrightarrow>
      traced_from tid tenant (past @ [stage]) future (f x tr st)"
  shows "traced_from tid tenant past (stage # future) (seq (with_span rg k stage name body tr st) f)"
proof -
  have "traced tid tenant (past @ [stage]) (with_span rg k stage name body tr st)"
    using assms(1,2) by (intro traced_span) (simp_all add: past_ok_def)
  then have "traced tid tenant ((past @ [stage]) @ future) (seq (with_span rg k stage name body tr st) f)"
    by (rule traced_seq) (use assms(3) in \<open>simp add: past_ok_def traced_from_def\<close>)
  then show ?thesis by (simp add: traced_from_def)
qed

lemma traced_split:
  "(\<And>a b. traced_from tid tenant past future (f a b tr st)) \<Longrightarrow> traced_from tid tenant past future (case_prod f x tr st)"
  by (cases x) simp

lemma traced_done: "past_ok tid tenant past tr st \<Longrightarrow> traced_from tid tenant past [] (Inr x, tr, st)"
  by (simp add: traced_from_def past_ok_def traced_def log_of_def)

definition MISS_STAGES :: "string list" where
  "MISS_STAGES = [''retrieve'', ''compress'', ''assemble'', ''route'', ''backend.invoke'', ''writeback'']"

lemma run_miss_traced:
  assumes "past_ok tid tenant [''auth'', ''cache''] tr st"
  shows "traced tid tenant ([''auth'', ''cache''] @ MISS_STAGES) (run_miss pf rg P ctx prompt model mt system tr st)"
  unfolding traced_from_def [symmetric] MISS_STAGES_def run_miss_unfold
  by (rule traced_step traced_split traced_done decides_stages assms | assumption)+

section \<open>The ways into a request\<close>

lemma log_snoc: "stage_log (close_span now sp tr) = stage_log tr @ [(ts_stage sp, ts_decision sp \<noteq> None)]"
  by (simp add: stage_log_def)

lemma trace_ok_close:
  "trace_ok tid tenant tr \<Longrightarrow> ts_trace_id sp = tid \<Longrightarrow> ts_tenant_id sp = tenant \<Longrightarrow>
   trace_ok tid tenant (close_span now sp tr)"
  by (auto simp: trace_ok_def)

lemma pipe_lookup_traces [simp]: "pipe_lookup pf rg P ctx prompt model sv (st\<lparr>ps_traces := t\<rparr>) =
    pipe_lookup pf rg P ctx prompt model sv st"
  by (simp add: pipe_lookup_def split: option.split)

definition start_trace :: "readings \<Rightarrow> security_context \<Rightarrow> trace" where
  "start_trace rg ctx = \<lparr>tr_trace_id = rg_trace_id rg, tr_tenant_id = ctx_tenant_id ctx, tr_spans = []\<rparr>"

lemma start_trace_ok: "trace_ok (rg_trace_id rg) (ctx_tenant_id ctx) (start_trace rg ctx)"
  "stage_log (start_trace rg ctx) = []"
  by (simp_all add: start_trace_def trace_ok_def stage_log_def)

lemma run_start:
  "run pf rg P ctx prompt model mt system st =
     (case run_traced pf rg P ctx prompt model mt system (start_trace rg ctx)
        (st\<lparr>ps_traces := dset (rg_trace_id rg) (start_trace rg ctx) (ps_traces st)\<rparr>) of
      (res, _, st') \<Rightarrow> (res, st'))"
  by (simp add: run_def tracer_start_def start_trace_def Let_def)

lemma run_denied:
  assumes "check (pl_policy P) ctx [(''type'', ''model''), (''tenant_id'', ctx_tenant_id ctx)] ROUTE = Inl e"
  shows "\<exists>tr. run pf rg P ctx prompt model mt system st =
      (Inl e, st\<lparr>ps_traces := dset (rg_trace_id rg) tr (ps_traces st)\<rparr>) \<and>
    trace_ok (rg_trace_id rg) (ctx_tenant_id ctx) tr \<and> stage_log tr = [(''auth'', False)]"
proof -
  let ?tr = "close_span (rg_end rg 0) (open_span (start_trace rg ctx) (rg_span_id rg 0) (rg_start rg 0)
    ''auth'' ''resolve+authorize'' None) (start_trace rg ctx)"
  have "tr_trace_id (start_trace rg ctx) = rg_trace_id rg" "tr_tenant_id (start_trace rg ctx) = ctx_tenant_id ctx"
    by (simp_all add: start_trace_def)
  then show ?thesis
    using start_trace_ok [of rg ctx] assms
    by (intro exI [of _ ?tr])
      (simp add: run_start run_traced_def with_span_def auth_stage_def tracer_put_def trace_ok_close log_snoc Let_def)
qed

text \<open>The first two stages of an admitted request.\<close>

lemma run_admitted:
  assumes "check (pl_policy P) ctx [(''type'', ''model''), (''tenant_id'', ctx_tenant_id ctx)] ROUTE = Inr ()"
  obtains tr where "trace_ok (rg_trace_id rg) (ctx_tenant_id ctx) tr"
    and "stage_log tr = [(''auth'', True), (''cache'', True)]"
    and "run pf rg P ctx prompt model mt system st =
      (case (case pipe_lookup pf rg P ctx prompt (or_else model (pl_default_model P)) (system_version pf system) st of
          Some h \<Rightarrow> run_hit rg (or_else model (pl_default_model P)) h tr
            (st\<lparr>ps_traces := dset (rg_trace_id rg) tr (ps_traces st)\<rparr>)
        | None \<Rightarrow> run_miss pf rg P ctx prompt (or_else model (pl_default_model P)) mt system tr
            (st\<lparr>ps_traces := dset (rg_trace_id rg) tr (ps_traces st)\<rparr>)) of
       (res, _, st') \<Rightarrow> (res, st'))"
proof -
  let ?tid = "rg_trace_id rg" and ?tr0 = "start_trace rg ctx"
  define sp1 where "sp1 = record_decision (open_span ?tr0 (rg_span_id rg 0) (rg_start rg 0) ''auth''
    ''resolve+authorize'' None) ''authorized'' [(''tenant'', ctx_tenant_id ctx), (''namespace'', ctx_namespace ctx)]"
  define tr1 where "tr1 = close_span (rg_end rg 0) sp1 ?tr0"
  define sp2 where "sp2 = fst (snd (cache_stage pf rg P ctx prompt (or_else model (pl_default_model P))
    (system_version pf system) (open_span tr1 (rg_span_id rg 1) (rg_start rg 1) ''cache'' ''semantic-cache-lookup'' None) st))"
  define tr2 where "tr2 = close_span (rg_end rg 1) sp2 tr1"
  have ids: "tr_trace_id ?tr0 = ?tid" "tr_tenant_id ?tr0 = ctx_tenant_id ctx" "tr_trace_id tr1 = ?tid"
    "tr_tenant_id tr1 = ctx_tenant_id ctx" "tr_trace_id tr2 = ?tid"
    by (simp_all add: start_trace_def tr1_def tr2_def)
  have tr1: "trace_ok ?tid (ctx_tenant_id ctx) tr1" "stage_log tr1 = [(''auth'', True)]"
    using start_trace_ok [of rg ctx] ids by (simp_all add: tr1_def sp1_def trace_ok_close log_snoc)
  have sp2: "ts_stage sp2 = ''cache''" "ts_decision sp2 \<noteq> None" "ts_trace_id sp2 = ?tid"
    "ts_tenant_id sp2 = ctx_tenant_id ctx"
    using ids by (simp_all add: sp2_def cache_stage_def record_decision_def Let_def split: option.split)
  have tr2: "trace_ok ?tid (ctx_tenant_id ctx) tr2" "stage_log tr2 = [(''auth'', True), (''cache'', True)]"
    using tr1 sp2 by (simp_all add: tr2_def trace_ok_close log_snoc)
  have auth: "with_span rg 0 ''auth'' ''resolve+authorize'' (auth_stage P ctx) ?tr0 (st\<lparr>ps_traces := dset ?tid ?tr0 (ps_traces st)\<rparr>) =
      (Inr (), tr1, st\<lparr>ps_traces := dset ?tid tr1 (ps_traces st)\<rparr>)"
    unfolding with_span_def auth_stage_def assms using ids(1) by (simp add: tracer_put_def Let_def tr1_def sp1_def)
  have cache: "with_span rg 1 ''cache'' ''semantic-cache-lookup'' (cache_stage pf rg P ctx prompt
        (or_else model (pl_default_model P)) (system_version pf system)) tr1 (st\<lparr>ps_traces := dset ?tid tr1 (ps_traces st)\<rparr>) =
      (Inr (pipe_lookup pf rg P ctx prompt (or_else model (pl_default_model P)) (system_version pf system) st), tr2,
       st\<lparr>ps_traces := dset ?tid tr2 (ps_traces st)\<rparr>)"
    using ids by (simp add: with_span_def cache_stage_def tracer_put_def Let_def tr2_def sp2_def)
  show thesis
    using that [OF tr2] unfolding run_start run_traced_def Let_def auth seq_simps cache by simp
qed

section \<open>The stages of an answered request\<close>

definition hit_result :: "readings \<Rightarrow> string \<Rightarrow> cache_hit \<Rightarrow> chat_result" where
  "hit_result rg model h = \<lparr>res_text = ch_response_text h, res_trace_id = rg_trace_id rg, res_model = model,
     res_usage = zero_usage\<rparr>"

lemma run_hit_state:
  assumes "tr_trace_id tr = rg_trace_id rg"
  obtains tr' where "run_hit rg model h tr st =
      (Inr (hit_result rg model h), tr', st\<lparr>ps_traces := dset (rg_trace_id rg) tr' (ps_traces st)\<rparr>)"
  using assms by (auto simp: run_hit_def with_span_def served_stage_def tracer_put_def hit_result_def Let_def)

lemma run_hits:
  assumes "check (pl_policy P) ctx [(''type'', ''model''), (''tenant_id'', ctx_tenant_id ctx)] ROUTE = Inr ()"
    and "pipe_lookup pf rg P ctx prompt (or_else model (pl_default_model P)) (system_version pf system) st = Some h"
  shows "\<exists>t. run pf rg P ctx prompt model mt system st =
    (Inr (hit_result rg (or_else model (pl_default_model P)) h), st\<lparr>ps_traces := t\<rparr>)"
proof (rule run_admitted [OF assms(1), of rg pf prompt model mt system st])
  fix tr
  let ?st = "st\<lparr>ps_traces := dset (rg_trace_id rg) tr (ps_traces st)\<rparr>"
  assume tr: "trace_ok (rg_trace_id rg) (ctx_tenant_id ctx) tr"
    and run: "run pf rg P ctx prompt model mt system st =
      (case (case pipe_lookup pf rg P ctx prompt (or_else model (pl_default_model P)) (system_version pf system) st of
          Some h \<Rightarrow> run_hit rg (or_else model (pl_default_model P)) h tr ?st
        | None \<Rightarrow> run_miss pf rg P ctx prompt (or_else model (pl_default_model P)) mt system tr ?st) of
       (res, _, st') \<Rightarrow> (res, st'))"
  have "tr_trace_id tr = rg_trace_id rg" using tr by (simp add: trace_ok_def)
  then obtain tr' where "run_hit rg (or_else model (pl_default_model P)) h tr ?st =
      (Inr (hit_result rg (or_else model (pl_default_model P)) h), tr', ?st\<lparr>ps_traces := dset (rg_trace_id rg) tr' (ps_traces ?st)\<rparr>)"
    by (rule run_hit_state)
  then show ?thesis using run assms(2) by auto
qed

lemma run_hit_traced:
  assumes "past_ok tid tenant [''auth'', ''cache''] tr st"
  shows "traced tid tenant ([''auth'', ''cache''] @ [''writeback'']) (run_hit rg model h tr st)"
  unfolding traced_from_def [symmetric] run_hit_def
  by (rule traced_step traced_split traced_done decides_stages assms | assumption)+

text \<open>A stage that succeeded, its state up to the traces.\<close>

definition untraced :: "('s, 'c, 'w) pipe_state \<Rightarrow> ('s, 'c, 'w) pipe_state" where
  "untraced st = st\<lparr>ps_traces := []\<rparr>"

lemma untraced_traces [simp]: "untraced (st\<lparr>ps_traces := t\<rparr>) = untraced st"
  by (simp add: untraced_def)

lemma untraced_fields [simp]:
  "ps_store (untraced st) = ps_store st" "ps_cache (untraced st) = ps_cache st"
  "ps_bundles (untraced st) = ps_bundles st" "ps_ledger (untraced st) = ps_ledger st"
  "ps_backends (untraced st) = ps_backends st" "ps_world (untraced st) = ps_world st"
  by (simp_all add: untraced_def)

lemma span_step:
  assumes "seq (with_span rg k stage name body tr st) f = (Inr y, tr2, st2)"
  obtains sp sp1 x tr1 st1 t where "body sp st = (Inr x, sp1, st1)" and "tr_trace_id tr1 = tr_trace_id tr"
    and "f x tr1 (st1\<lparr>ps_traces := t\<rparr>) = (Inr y, tr2, st2)"
  using assms by (elim seq_InrE with_spanE) (metis close_span_simps(1))

text \<open>What the stages of an answered request computed.\<close>

definition retrieves ::
  "platform \<Rightarrow> readings \<Rightarrow> ('s, 'c, 'w) pipeline \<Rightarrow> security_context \<Rightarrow> string \<Rightarrow> 's \<Rightarrow> memory_candidate list \<Rightarrow> bool" where
  "retrieves pf rg P ctx prompt s cs = (case pl_memory P of
     None \<Rightarrow> cs = []
   | Some (B, E) \<Rightarrow> retrieve B E (pf_libm pf) (pf_set_order pf) ctx prompt RETRIEVE_K (rg_retrieve rg) s = Inr cs)"

definition compresses ::
  "('s, 'c, 'w) pipeline \<Rightarrow> string \<Rightarrow> memory_candidate list \<Rightarrow> 'w \<Rightarrow> memory_candidate list \<Rightarrow> 'w \<Rightarrow> bool" where
  "compresses P prompt cs w cs' w' =
     (if pl_compressor P \<noteq> None \<and> cs \<noteq> []
      then \<exists>saved. compress_loop (the (pl_compressor P)) (pl_compress_target P) (pl_tokenizer P) prompt cs 0 [] w
        = (saved, cs', w')
      else cs' = cs \<and> w' = w)"

definition assembles ::
  "platform \<Rightarrow> readings \<Rightarrow> ('s, 'c, 'w) pipeline \<Rightarrow> security_context \<Rightarrow> string \<Rightarrow> string \<Rightarrow> int \<Rightarrow> string option \<Rightarrow>
   memory_candidate list \<Rightarrow> bundle_store \<Rightarrow> chat_message list \<Rightarrow> nat \<Rightarrow> bundle_store \<Rightarrow> bool" where
  "assembles pf rg P ctx prompt model mt system cs s msgs injected s' = (case pl_assembler P of
     None \<Rightarrow> msgs = passthrough prompt system \<and> injected = 0 \<and> s' = s
   | Some E \<Rightarrow> \<exists>ac. assemble E (pipe_budget P prompt mt system) (pipe_sources prompt system cs) (pl_weights P)
          (Some (pl_tokenizer P)) PIPE_MMR_LAMBDA = Inr ac \<and>
        msgs = ac_messages ac \<and> injected = kept_count ac \<and>
        (if pl_replay P
         then \<exists>b. capture (pf_b2 pf) (pf_repr pf) (rg_trace_id rg) ctx (or_else system []) prompt cs (pl_weights P)
           PIPE_MMR_LAMBDA (pipe_budget P prompt mt system) model (bundle_messages (ac_messages ac))
           (render_prompt_hash (pf_sha pf) (ac_messages ac)) (rg_bundle rg) s = (b, s')
         else s' = s))"

definition routes ::
  "readings \<Rightarrow> ('s, 'c, 'w) pipeline \<Rightarrow> security_context \<Rightarrow> string \<Rightarrow> int \<Rightarrow> 'w registry \<Rightarrow> route_decision option \<Rightarrow> bool" where
  "routes rg P ctx prompt toks reg decision =
     (if pl_router P \<noteq> None \<and> reg \<noteq> []
      then \<exists>d. decision = Some d \<and> route (the (pl_router P)) ctx prompt toks no_demand (rg_route rg) reg = Inr d
      else decision = None)"

definition invokes ::
  "readings \<Rightarrow> ('s, 'c, 'w) pipeline \<Rightarrow> route_decision option \<Rightarrow> string \<Rightarrow> chat_message list \<Rightarrow> int \<Rightarrow>
   'w registry \<Rightarrow> 'w \<Rightarrow> chat_response \<Rightarrow> string \<Rightarrow> 'w registry \<Rightarrow> 'w \<Rightarrow> bool" where
  "invokes rg P decision model msgs mt reg w resp model' reg' w' = (case decision of
     None \<Rightarrow> ad_generate (pl_adapter P) (mk_request model msgs mt) w = (Inr resp, w') \<and> model' = model \<and> reg' = reg
   | Some d \<Rightarrow> \<exists>used. invoke_routed rg d msgs mt reg w = (Inr (resp, used, model'), reg', w'))"

lemma retrieve_stage_Inr:
  "retrieve_stage pf rg P ctx prompt sp st = (Inr cs, sp', st') \<Longrightarrow>
   retrieves pf rg P ctx prompt (ps_store st) cs \<and> st' = st"
  by (auto simp: retrieve_stage_def retrieves_def split: option.splits sum.splits prod.splits)

lemma compress_stage_Inr:
  "compress_stage P prompt cs sp st = (Inr cs', sp', st') \<Longrightarrow>
   compresses P prompt cs (ps_world st) cs' (ps_world st') \<and> st' = st\<lparr>ps_world := ps_world st'\<rparr>"
  by (auto simp: compress_stage_def compresses_def split: if_splits prod.splits)

lemma assemble_stage_Inr:
  "assemble_stage pf rg P ctx prompt model mt system cs sp st = (Inr (msgs, injected, toks), sp', st') \<Longrightarrow>
   assembles pf rg P ctx prompt model mt system cs (ps_bundles st) msgs injected (ps_bundles st') \<and>
   st' = st\<lparr>ps_bundles := ps_bundles st'\<rparr>"
  by (auto simp: assemble_stage_def assembles_def Let_def split: option.splits sum.splits if_splits prod.splits)

lemma route_stage_Inr:
  "route_stage rg P ctx prompt model toks sp st = (Inr (decision, model'), sp', st') \<Longrightarrow>
   routes rg P ctx prompt toks (ps_backends st) decision \<and> st' = st \<and> (decision = None \<longrightarrow> model' = model)"
  by (auto simp: route_stage_def routes_def split: if_splits sum.splits)

lemma invoke_stage_Inr:
  "invoke_stage rg P decision model msgs mt sp st = (Inr (resp, model'), sp', st') \<Longrightarrow>
   invokes rg P decision model msgs mt (ps_backends st) (ps_world st) resp model' (ps_backends st') (ps_world st') \<and>
   st' = st\<lparr>ps_backends := ps_backends st', ps_world := ps_world st'\<rparr>"
  by (auto simp: invoke_stage_def invokes_def Let_def split: option.splits sum.splits prod.splits)

text \<open>The stages of an answered request in a row, and the state it leaves.\<close>

definition written_cache ::
  "platform \<Rightarrow> readings \<Rightarrow> ('s, 'c, 'w) pipeline \<Rightarrow> security_context \<Rightarrow> string \<Rightarrow> string option \<Rightarrow> nat \<Rightarrow>
   chat_response \<Rightarrow> string \<Rightarrow> 'c \<Rightarrow> 'c" where
  "written_cache pf rg P ctx prompt system injected resp model c = (case pl_cache P of
     None \<Rightarrow> c
   | Some sc \<Rightarrow> if rs_finish_reason resp \<noteq> None
       then snd (store (cache_backend sc) (pf_sha pf) (cache_embedder sc) (cache_ttl sc)
         (writeback_op rg ctx prompt (rs_text resp) model (system_version pf system) (0 < injected)) c)
       else c)"

definition written_bundles ::
  "readings \<Rightarrow> ('s, 'c, 'w) pipeline \<Rightarrow> security_context \<Rightarrow> chat_response \<Rightarrow> bundle_store \<Rightarrow> bundle_store" where
  "written_bundles rg P ctx resp s = (if pl_replay P \<and> rs_finish_reason resp \<noteq> None
     then snd (bundle_attach ctx (rg_trace_id rg) (rs_text resp) s) else s)"

definition written_ledger ::
  "('s, 'c, 'w) pipeline \<Rightarrow> security_context \<Rightarrow> chat_response \<Rightarrow> string \<Rightarrow> ledger \<Rightarrow> ledger" where
  "written_ledger P ctx resp model lg = (if pl_cost P \<and> rs_finish_reason resp \<noteq> None
     then snd (ledger_record ctx model (rs_usage resp) lg) else lg)"

definition finishes ::
  "platform \<Rightarrow> readings \<Rightarrow> ('s, 'c, 'w) pipeline \<Rightarrow> security_context \<Rightarrow> string \<Rightarrow> string option \<Rightarrow> nat \<Rightarrow>
   chat_response \<Rightarrow> string \<Rightarrow> ('s, 'c, 'w) pipe_state \<Rightarrow> ('s, 'c, 'w) pipe_state \<Rightarrow> bool" where
  "finishes pf rg P ctx prompt system injected resp model st st' =
     (ps_store st' = ps_store st \<and> ps_backends st' = ps_backends st \<and> ps_world st' = ps_world st \<and>
      ps_cache st' = written_cache pf rg P ctx prompt system injected resp model (ps_cache st) \<and>
      ps_bundles st' = written_bundles rg P ctx resp (ps_bundles st) \<and>
      ps_ledger st' = written_ledger P ctx resp model (ps_ledger st))"

definition answer_of :: "trace \<Rightarrow> chat_response \<Rightarrow> chat_result" where
  "answer_of tr resp = \<lparr>res_text = rs_text resp, res_trace_id = tr_trace_id tr, res_model = rs_model resp,
     res_usage = rs_usage resp\<rparr>"

lemma finishes_traces [simp]:
  "finishes pf rg P ctx prompt system injected resp model (st\<lparr>ps_traces := t\<rparr>) st' =
   finishes pf rg P ctx prompt system injected resp model st st'"
  by (simp add: finishes_def)

lemma run_write_Inr:
  assumes "run_write pf rg P ctx prompt system injected resp model tr st = (Inr r, tr', st')"
  shows "finishes pf rg P ctx prompt system injected resp model st st' \<and> r = answer_of tr resp"
proof -
  obtain sp sp1 x tr1 st1 t where 1: "writeback_stage pf rg P ctx prompt model (system_version pf system) injected resp
      sp st = (Inr x, sp1, st1)" "tr_trace_id tr1 = tr_trace_id tr"
    and 2: "(\<lambda>_ tr st. (Inr \<lparr>res_text = rs_text resp, res_trace_id = tr_trace_id tr, res_model = rs_model resp,
      res_usage = rs_usage resp\<rparr>, tr, st)) x tr1 (st1\<lparr>ps_traces := t\<rparr>) = (Inr r, tr', st')"
    by (rule span_step [OF assms [unfolded run_write_def]]) blast
  have "st1 = snd (snd (writeback_stage pf rg P ctx prompt model (system_version pf system) injected resp sp st))"
    using 1(1) by simp
  then have "finishes pf rg P ctx prompt system injected resp model st st1"
    by (simp only: writeback_stage_state) (simp add: finishes_def written_cache_def written_bundles_def written_ledger_def split: option.split)
  moreover have "st' = st1\<lparr>ps_traces := t\<rparr>" "r = answer_of tr resp" using 1(2) 2 by (auto simp: answer_of_def)
  ultimately show ?thesis by (simp add: finishes_def)
qed

lemma run_invoke_Inr:
  assumes "run_invoke pf rg P ctx prompt mt system msgs injected decision model tr st = (Inr r, tr', st')"
  shows "\<exists>resp model' reg w. invokes rg P decision model msgs mt (ps_backends st) (ps_world st) resp model' reg w \<and>
    finishes pf rg P ctx prompt system injected resp model' (st\<lparr>ps_backends := reg, ps_world := w\<rparr>) st' \<and>
    r = answer_of tr resp"
proof -
  obtain sp sp1 x tr1 st1 t where 1: "invoke_stage rg P decision model msgs mt sp st = (Inr x, sp1, st1)"
    "tr_trace_id tr1 = tr_trace_id tr"
    and 2: "(\<lambda>(resp, model) tr st. run_write pf rg P ctx prompt system injected resp model tr st) x tr1
      (st1\<lparr>ps_traces := t\<rparr>) = (Inr r, tr', st')"
    by (rule span_step [OF assms [unfolded run_invoke_def]])
  obtain resp model' where x: "x = (resp, model')" by (rule prod.exhaust)
  show ?thesis
    using invoke_stage_Inr [OF 1(1) [unfolded x]] run_write_Inr [OF 2 [unfolded x prod.case]] 1(2)
    by (metis answer_of_def finishes_traces)
qed

lemma run_route_Inr:
  assumes "run_route pf rg P ctx prompt model mt system msgs injected toks tr st = (Inr r, tr', st')"
  shows "\<exists>decision model1 resp model' reg w. routes rg P ctx prompt toks (ps_backends st) decision \<and>
    (decision = None \<longrightarrow> model1 = model) \<and>
    invokes rg P decision model1 msgs mt (ps_backends st) (ps_world st) resp model' reg w \<and>
    finishes pf rg P ctx prompt system injected resp model' (st\<lparr>ps_backends := reg, ps_world := w\<rparr>) st' \<and>
    r = answer_of tr resp"
proof -
  obtain sp sp1 x tr1 st1 t where 1: "route_stage rg P ctx prompt model toks sp st = (Inr x, sp1, st1)"
    "tr_trace_id tr1 = tr_trace_id tr"
    and 2: "(\<lambda>(decision, model) tr st. run_invoke pf rg P ctx prompt mt system msgs injected decision model tr st) x tr1
      (st1\<lparr>ps_traces := t\<rparr>) = (Inr r, tr', st')"
    by (rule span_step [OF assms [unfolded run_route_def]])
  obtain decision model1 where x: "x = (decision, model1)" by (rule prod.exhaust)
  have r: "routes rg P ctx prompt toks (ps_backends st) decision" "st1 = st" "decision = None \<longrightarrow> model1 = model"
    using route_stage_Inr [OF 1(1) [unfolded x]] by simp_all
  obtain resp model' reg w where
    i: "invokes rg P decision model1 msgs mt (ps_backends st) (ps_world st) resp model' reg w"
    and f: "finishes pf rg P ctx prompt system injected resp model' (st\<lparr>ps_traces := t, ps_backends := reg, ps_world := w\<rparr>) st'"
    and a: "r = answer_of tr1 resp"
    using run_invoke_Inr [OF 2 [unfolded x prod.case]] r(2) by auto
  have "finishes pf rg P ctx prompt system injected resp model' (st\<lparr>ps_backends := reg, ps_world := w\<rparr>) st'"
    using f by (simp add: finishes_def)
  then show ?thesis using r(1,3) i a 1(2) by (metis answer_of_def)
qed

lemma run_assemble_Inr:
  assumes "run_assemble pf rg P ctx prompt model mt system cs tr st = (Inr r, tr', st')"
  shows "\<exists>msgs injected bundles toks decision model1 resp model' reg w.
    assembles pf rg P ctx prompt model mt system cs (ps_bundles st) msgs injected bundles \<and>
    routes rg P ctx prompt toks (ps_backends st) decision \<and> (decision = None \<longrightarrow> model1 = model) \<and>
    invokes rg P decision model1 msgs mt (ps_backends st) (ps_world st) resp model' reg w \<and>
    finishes pf rg P ctx prompt system injected resp model'
      (st\<lparr>ps_bundles := bundles, ps_backends := reg, ps_world := w\<rparr>) st' \<and>
    r = answer_of tr resp"
proof -
  obtain sp sp1 x tr1 st1 t where 1: "assemble_stage pf rg P ctx prompt model mt system cs sp st = (Inr x, sp1, st1)"
    "tr_trace_id tr1 = tr_trace_id tr"
    and 2: "(\<lambda>(msgs, injected, toks) tr st. run_route pf rg P ctx prompt model mt system msgs injected toks tr st) x tr1
      (st1\<lparr>ps_traces := t\<rparr>) = (Inr r, tr', st')"
    by (rule span_step [OF assms [unfolded run_assemble_def]])
  obtain msgs injected toks where x: "x = (msgs, injected, toks)" by (rule prod_cases3)
  have a: "assembles pf rg P ctx prompt model mt system cs (ps_bundles st) msgs injected (ps_bundles st1)"
    and st1: "st1 = st\<lparr>ps_bundles := ps_bundles st1\<rparr>"
    using assemble_stage_Inr [OF 1(1) [unfolded x]] by simp_all
  have f1: "ps_backends st1 = ps_backends st" "ps_world st1 = ps_world st" "ps_store st1 = ps_store st"
    "ps_cache st1 = ps_cache st" "ps_ledger st1 = ps_ledger st"
    by (subst st1, simp)+
  then have f1t: "ps_backends (st1\<lparr>ps_traces := t\<rparr>) = ps_backends st" "ps_world (st1\<lparr>ps_traces := t\<rparr>) = ps_world st"
    by simp_all
  obtain decision model1 resp model' reg w where
    "routes rg P ctx prompt toks (ps_backends st) decision" "decision = None \<longrightarrow> model1 = model"
    "invokes rg P decision model1 msgs mt (ps_backends st) (ps_world st) resp model' reg w"
    "finishes pf rg P ctx prompt system injected resp model' (st1\<lparr>ps_traces := t, ps_backends := reg, ps_world := w\<rparr>) st'"
    "r = answer_of tr1 resp"
    using run_route_Inr [OF 2 [unfolded x prod.case]] unfolding f1t by (elim exE conjE) (rule that)
  then show ?thesis
    using a 1(2)
    by (intro exI [of _ msgs] exI [of _ injected] exI [of _ "ps_bundles st1"] exI [of _ toks] exI [of _ decision]
        exI [of _ model1] exI [of _ resp] exI [of _ model'] exI [of _ reg] exI [of _ w])
      (simp add: finishes_def f1 answer_of_def)
qed

text \<open>An answered request that missed the cache.\<close>

lemma run_miss_InrE:
  assumes "run_miss pf rg P ctx prompt model mt system tr st = (Inr r, tr', st')"
  obtains retrieved cs w1 msgs injected bundles toks decision model1 resp model' reg w where
    "retrieves pf rg P ctx prompt (ps_store st) retrieved"
    and "compresses P prompt retrieved (ps_world st) cs w1"
    and "assembles pf rg P ctx prompt model mt system cs (ps_bundles st) msgs injected bundles"
    and "routes rg P ctx prompt toks (ps_backends st) decision" and "decision = None \<longrightarrow> model1 = model"
    and "invokes rg P decision model1 msgs mt (ps_backends st) w1 resp model' reg w"
    and "finishes pf rg P ctx prompt system injected resp model'
      (st\<lparr>ps_bundles := bundles, ps_backends := reg, ps_world := w\<rparr>) st'"
    and "r = answer_of tr resp"
proof -
  obtain sp sp1 retrieved tr1 st1 t where 1: "retrieve_stage pf rg P ctx prompt sp st = (Inr retrieved, sp1, st1)"
    "tr_trace_id tr1 = tr_trace_id tr"
    and 2: "seq (with_span rg 3 ''compress'' ''context-compression'' (compress_stage P prompt retrieved) tr1 (st1\<lparr>ps_traces := t\<rparr>))
      (\<lambda>candidates tr st. run_assemble pf rg P ctx prompt model mt system candidates tr st) = (Inr r, tr', st')"
    by (rule span_step [OF assms [unfolded run_miss_def]])
  obtain sp sp2 cs tr2 st2 t2 where 3: "compress_stage P prompt retrieved sp (st1\<lparr>ps_traces := t\<rparr>) = (Inr cs, sp2, st2)"
    "tr_trace_id tr2 = tr_trace_id tr1"
    and 4: "run_assemble pf rg P ctx prompt model mt system cs tr2 (st2\<lparr>ps_traces := t2\<rparr>) = (Inr r, tr', st')"
    by (rule span_step [OF 2])
  have ret: "retrieves pf rg P ctx prompt (ps_store st) retrieved" and st1: "st1 = st"
    using retrieve_stage_Inr [OF 1(1)] by simp_all
  have comp: "compresses P prompt retrieved (ps_world st) cs (ps_world st2)"
    and st2: "st2 = st\<lparr>ps_traces := t, ps_world := ps_world st2\<rparr>"
    using compress_stage_Inr [OF 3(1)] st1 by simp_all
  have f2: "ps_backends st2 = ps_backends st" "ps_store st2 = ps_store st" "ps_cache st2 = ps_cache st"
    "ps_bundles st2 = ps_bundles st" "ps_ledger st2 = ps_ledger st"
    by (subst st2, simp)+
  have ans: "answer_of tr2 resp = answer_of tr resp" for resp using 1(2) 3(2) by (simp add: answer_of_def)
  show thesis
    using run_assemble_Inr [OF 4] ret comp
    by (elim exE conjE) (rule that, (simp_all add: f2 ans finishes_def)+)
qed

end
