(* ===== verification/Failover.thy ===== *)
theory Failover
  imports Pipeline
begin

text \<open>
  \<^verbatim>\<open>Pipeline._invoke_routed\<close>: the walk over the routed backends. \<open>invoke_loop_spec\<close> is its
  behaviour backend by backend; the properties compose it with the routing decision.
\<close>

section \<open>The walk, backend by backend\<close>

lemma registry_get_set_breaker [simp]:
  "registry_get (set_breaker name e b reg) n = (if n = name then Some (e\<lparr>re_breaker := b\<rparr>) else registry_get reg n)"
  by (simp add: registry_get_def set_breaker_def)

text \<open>A backend that was offered the call and did not answer: passed over while its breaker is open,
  and otherwise one failure further.\<close>

definition tried :: "int \<times> int \<Rightarrow> 'w registry_entry \<Rightarrow> 'w registry_entry" where
  "tried clk e = (if allows (fst clk) (re_breaker e)
     then e\<lparr>re_breaker := record_failure (snd clk) (re_breaker e)\<rparr> else e)"

definition all_tried ::
  "(nat \<Rightarrow> int \<times> int) \<Rightarrow> nat \<Rightarrow> string list \<Rightarrow> 'w registry \<Rightarrow> 'w registry \<Rightarrow> bool" where
  "all_tried clk k names reg reg' =
     (\<forall>i < length names. registry_get reg' (names ! i) = map_option (tried (clk (k + i))) (registry_get reg (names ! i)))"

lemma all_tried_Cons:
  "all_tried clk k (n # ns) reg reg' \<longleftrightarrow>
     registry_get reg' n = map_option (tried (clk k)) (registry_get reg n) \<and> all_tried clk (Suc k) ns reg reg'"
  by (auto simp: all_tried_def less_Suc_eq_0_disj)

lemma all_tried_cong:
  "(\<And>n. n \<in> set ns \<Longrightarrow> registry_get reg1 n = registry_get reg2 n) \<Longrightarrow>
   all_tried clk k ns reg1 reg' = all_tried clk k ns reg2 reg'"
  by (auto simp: all_tried_def)

text \<open>The answering backend: its entry, and the call it answered.\<close>

definition answered_by ::
  "int \<times> int \<Rightarrow> chat_message list \<Rightarrow> int \<Rightarrow> 'w registry_entry \<Rightarrow> chat_response \<Rightarrow> string \<Rightarrow> 'w \<Rightarrow> bool" where
  "answered_by clk msgs mt e resp model w' =
     (allows (fst clk) (re_breaker e) \<and> model = bs_model_id (re_spec e) \<and>
      (\<exists>w. ad_generate (re_adapter e) (mk_request model msgs mt) w = (Inr resp, w')))"

lemma invoke_loop_frame:
  "n \<notin> set names \<Longrightarrow> registry_get (fst (snd (invoke_loop clk msgs mt k names reg w))) n = registry_get reg n"
  by (induction clk msgs mt k names reg w rule: invoke_loop.induct)
    (auto split: option.split sum.split prod.split)

text \<open>The outcome of a walk over \<open>names\<close> whose first attempt is the \<open>k\<close>-th.\<close>

definition walk_spec ::
  "(nat \<Rightarrow> int \<times> int) \<Rightarrow> chat_message list \<Rightarrow> int \<Rightarrow> nat \<Rightarrow> string list \<Rightarrow> 'w registry \<Rightarrow>
   (chat_response \<times> string \<times> string) result \<times> 'w registry \<times> 'w \<Rightarrow> bool" where
  "walk_spec clk msgs mt k names reg outcome = (case outcome of
      (Inl err, reg', w') \<Rightarrow> (\<exists>msg. err = BackendUnavailable msg) \<and> all_tried clk k names reg reg'
    | (Inr (resp, used, model), reg', w') \<Rightarrow>
        \<exists>pre post e. names = pre @ used # post \<and> all_tried clk k pre reg reg' \<and>
          registry_get reg used = Some e \<and> answered_by (clk (k + length pre)) msgs mt e resp model w' \<and>
          registry_get reg' used = Some (e\<lparr>re_breaker := record_success (re_breaker e)\<rparr>) \<and>
          (\<forall>n \<in> set post. registry_get reg' n = registry_get reg n))"

lemma walk_spec_pass:
  assumes "distinct (name # names)" and "\<And>n. n \<noteq> name \<Longrightarrow> registry_get reg1 n = registry_get reg n"
    and "registry_get reg1 name = map_option (tried (clk k)) (registry_get reg name)"
    and "walk_spec clk msgs mt (Suc k) names reg1 (invoke_loop clk msgs mt (Suc k) names reg1 w)"
  shows "walk_spec clk msgs mt k (name # names) reg (invoke_loop clk msgs mt (Suc k) names reg1 w)"
proof -
  have same: "registry_get reg1 n = registry_get reg n" if "n \<in> set names" for n
    using assms(1) assms(2) [of n] that by (cases "n = name") simp_all
  obtain res reg' w' where r: "invoke_loop clk msgs mt (Suc k) names reg1 w = (res, reg', w')" by (rule prod_cases3)
  have name': "registry_get reg' name = map_option (tried (clk k)) (registry_get reg name)"
    using invoke_loop_frame [of name names clk msgs mt "Suc k" reg1 w] assms(1,3) r by simp
  show ?thesis
  proof (cases res)
    case (Inl err)
    then show ?thesis
      using assms(4) name' all_tried_cong [of names reg1 reg] same by (simp add: walk_spec_def r all_tried_Cons)
  next
    case (Inr ans)
    obtain resp used model where ans: "ans = (resp, used, model)" by (rule prod_cases3)
    obtain pre post e where s: "names = pre @ used # post" "all_tried clk (Suc k) pre reg1 reg'"
      "registry_get reg1 used = Some e" "answered_by (clk (Suc k + length pre)) msgs mt e resp model w'"
      "registry_get reg' used = Some (e\<lparr>re_breaker := record_success (re_breaker e)\<rparr>)"
      "\<forall>n \<in> set post. registry_get reg' n = registry_get reg1 n"
      using assms(4) by (auto simp: walk_spec_def r Inr ans)
    have "name # names = (name # pre) @ used # post" "all_tried clk k (name # pre) reg reg'"
      "registry_get reg used = Some e" "answered_by (clk (k + length (name # pre))) msgs mt e resp model w'"
      "\<forall>n \<in> set post. registry_get reg' n = registry_get reg n"
      using s same name' all_tried_cong [of pre reg1 reg] by (auto simp: all_tried_Cons)
    then show ?thesis using s(5) unfolding walk_spec_def r Inr ans prod.case sum.case by blast
  qed
qed

lemma invoke_loop_spec:
  "distinct names \<Longrightarrow> walk_spec clk msgs mt k names reg (invoke_loop clk msgs mt k names reg w)"
proof (induction names arbitrary: k reg w)
  case Nil
  then show ?case by (simp add: walk_spec_def all_tried_def)
next
  case (Cons name names)
  have "distinct names" using Cons.prems by simp
  note pass = walk_spec_pass [OF Cons.prems _ _ Cons.IH [OF this]]
  show ?case
  proof (cases "registry_get reg name")
    case None
    then have "registry_get reg name = map_option (tried (clk k)) (registry_get reg name)" by simp
    from pass [OF _ this] show ?thesis using None by simp
  next
    case (Some e)
    obtain res w' where g: "ad_generate (re_adapter e) (mk_request (bs_model_id (re_spec e)) msgs mt) w = (res, w')"
      by (rule prod.exhaust)
    consider (closed) "\<not> allows (fst (clk k)) (re_breaker e)"
      | (raised) err where "allows (fst (clk k)) (re_breaker e)" "res = Inl err"
      | (answered) resp where "allows (fst (clk k)) (re_breaker e)" "res = Inr resp"
      by (cases res) auto
    then show ?thesis
    proof cases
      case closed
      then have "registry_get reg name = map_option (tried (clk k)) (registry_get reg name)"
        using Some by (simp add: tried_def)
      from pass [OF _ this] show ?thesis using Some closed by simp
    next
      case raised
      let ?reg = "set_breaker name e (record_failure (snd (clk k)) (re_breaker e)) reg"
      have "registry_get ?reg name = map_option (tried (clk k)) (registry_get reg name)"
        using Some raised by (simp add: tried_def)
      from pass [OF _ this] show ?thesis using Some g raised by simp
    next
      case answered
      have run: "invoke_loop clk msgs mt k (name # names) reg w =
          (Inr (resp, name, bs_model_id (re_spec e)), set_breaker name e (record_success (re_breaker e)) reg, w')"
        using Some g answered by simp
      show ?thesis
        unfolding run walk_spec_def prod.case sum.case
        by (rule exI [of _ "[]"], rule exI [of _ names], rule exI [of _ e])
          (use Some g answered Cons.prems in \<open>auto simp: answered_by_def all_tried_def\<close>)
    qed
  qed
qed

section \<open>Properties\<close>

text \<open>What a routing decision offers, for the registry it was made over.\<close>

lemma route_names:
  assumes "registry_ok reg" and "route policy ctx query toks demand now reg = Inr d"
  shows "distinct (rd_backend d # rd_fallback_chain d)"
    and "\<forall>n \<in> set (rd_backend d # rd_fallback_chain d). \<exists>e. registry_get reg n = Some e \<and>
      lawful policy ctx demand e \<and> (rd_from_safe_default d \<longrightarrow> \<not> allows (now n) (re_breaker e))"
proof -
  obtain pool best rest where
    pool: "set pool = {e \<in> set (registry_all reg). lawful policy ctx demand e \<and>
      (rd_from_safe_default d \<or> allows (now (bs_name (re_spec e))) (re_breaker e))}"
    and safe: "rd_from_safe_default d \<longleftrightarrow> (\<forall>e \<in> set (registry_all reg). lawful policy ctx demand e \<longrightarrow>
      \<not> allows (now (bs_name (re_spec e))) (re_breaker e))"
    and br: "rank_pool (estimate_difficulty query toks) pool = best # rest"
    and names: "rd_backend d # rd_fallback_chain d = map (\<lambda>e. bs_name (re_spec e)) (best # rest)"
    and dist: "distinct (map (\<lambda>e. bs_name (re_spec e)) (registry_all reg)) \<longrightarrow>
      distinct (rd_backend d # rd_fallback_chain d)"
    using assms(2) by (rule route_InrE)
  have "distinct (dkeys reg)" using assms(1) by (simp add: registry_ok_def)
  then show "distinct (rd_backend d # rd_fallback_chain d)"
    using dist unfolding registry_names [OF assms(1)] by simp
  show "\<forall>n \<in> set (rd_backend d # rd_fallback_chain d). \<exists>e. registry_get reg n = Some e \<and>
      lawful policy ctx demand e \<and> (rd_from_safe_default d \<longrightarrow> \<not> allows (now n) (re_breaker e))"
  proof
    fix n assume "n \<in> set (rd_backend d # rd_fallback_chain d)"
    then have "n \<in> (\<lambda>e. bs_name (re_spec e)) ` set pool"
      unfolding names set_map br [symmetric] set_rank_pool .
    then obtain e where "e \<in> set pool" "n = bs_name (re_spec e)" by blast
    then show "\<exists>e. registry_get reg n = Some e \<and> lawful policy ctx demand e \<and>
        (rd_from_safe_default d \<longrightarrow> \<not> allows (now n) (re_breaker e))"
      using registry_get_all [OF assms(1), of e] pool safe by auto
  qed
qed

text \<open>C21: Failover is lawful and honest. An answer to a routed request comes from a registered backend
  that the policy admits, whose breaker let the call through and is closed by it, and under that
  backend's own model; every backend of the decision ahead of it was passed over with its breaker
  open or failed once more, and no breaker behind it changed; without an answer all were tried so,
  and the error says that none is left.\<close>

theorem routed_failover:
  assumes "registry_ok reg" and "route policy ctx query toks demand now reg = Inr d"
  shows "case invoke_routed rg d msgs mt reg w of
      (Inl err, reg', w') \<Rightarrow> (\<exists>msg. err = BackendUnavailable msg) \<and>
        all_tried (rg_attempt rg) 0 (rd_backend d # rd_fallback_chain d) reg reg'
    | (Inr (resp, used, model), reg', w') \<Rightarrow>
        \<exists>pre post e. rd_backend d # rd_fallback_chain d = pre @ used # post \<and>
          all_tried (rg_attempt rg) 0 pre reg reg' \<and> registry_get reg used = Some e \<and> lawful policy ctx demand e \<and>
          answered_by (rg_attempt rg (length pre)) msgs mt e resp model w' \<and>
          registry_get reg' used = Some (e\<lparr>re_breaker := record_success (re_breaker e)\<rparr>) \<and>
          (\<forall>n \<in> set post. registry_get reg' n = registry_get reg n)"
proof -
  note names = route_names [OF assms]
  obtain res reg' w' where r: "invoke_routed rg d msgs mt reg w = (res, reg', w')" by (rule prod_cases3)
  note spec = invoke_loop_spec [OF names(1), where clk = "rg_attempt rg" and msgs = msgs and mt = mt and k = 0
      and reg = reg and w = w, unfolded r [unfolded invoke_routed_def] walk_spec_def prod.case]
  show ?thesis
  proof (cases res)
    case (Inl err)
    then show ?thesis using spec r by simp
  next
    case (Inr ans)
    obtain resp used model where ans: "ans = (resp, used, model)" by (rule prod_cases3)
    obtain pre post e where s: "rd_backend d # rd_fallback_chain d = pre @ used # post"
      "all_tried (rg_attempt rg) 0 pre reg reg'" "registry_get reg used = Some e"
      "answered_by (rg_attempt rg (0 + length pre)) msgs mt e resp model w'"
      "registry_get reg' used = Some (e\<lparr>re_breaker := record_success (re_breaker e)\<rparr>)"
      "\<forall>n \<in> set post. registry_get reg' n = registry_get reg n"
      using spec by (simp only: Inr ans sum.case prod.case) blast
    then have "lawful policy ctx demand e" using names(2) by auto
    then show ?thesis using s by (auto simp: r Inr ans)
  qed
qed

text \<open>The safe default is never invoked. When every admitted breaker is open the router still
  ranks the backends; but the walk consults the same breakers, and unless one of them cools down
  between the two readings no backend is called, no breaker changes and the request fails.\<close>

theorem safe_default_not_invoked:
  assumes "registry_ok reg" and "route policy ctx query toks demand now reg = Inr d" and "rd_from_safe_default d"
    and "\<And>i. i < length (rd_backend d # rd_fallback_chain d) \<Longrightarrow>
      fst (rg_attempt rg i) = now ((rd_backend d # rd_fallback_chain d) ! i)"
  shows "\<exists>msg. invoke_routed rg d msgs mt reg w = (Inl (BackendUnavailable msg), reg, w)"
proof -
  have closed: "invoke_loop clk msgs mt k ns reg w = (Inl (BackendUnavailable
      ''all routed backends failed or are breaker-open''), reg, w)"
    if "\<forall>i < length ns. \<exists>e. registry_get reg (ns ! i) = Some e \<and> \<not> allows (fst (clk (k + i))) (re_breaker e)"
    for clk k and ns :: "string list"
    using that
  proof (induction ns arbitrary: k)
    case (Cons n ns)
    have "\<forall>i < length ns. \<exists>e. registry_get reg (ns ! i) = Some e \<and> \<not> allows (fst (clk (Suc k + i))) (re_breaker e)"
      using Cons.prems by (metis Suc_less_eq add_Suc_shift length_Cons nth_Cons_Suc)
    moreover obtain e where "registry_get reg n = Some e" "\<not> allows (fst (clk k)) (re_breaker e)"
      using Cons.prems by (metis add_0_right length_greater_0_conv list.distinct(1) nth_Cons_0)
    ultimately show ?case using Cons.IH [of "Suc k"] by simp
  qed simp
  let ?names = "rd_backend d # rd_fallback_chain d"
  have "\<exists>e. registry_get reg (?names ! i) = Some e \<and> \<not> allows (fst (rg_attempt rg (0 + i))) (re_breaker e)"
    if "i < length ?names" for i
    using route_names(2) [OF assms(1,2)] assms(3) assms(4) [of i] that nth_mem [OF that] by fastforce
  then show ?thesis using closed [where ns = ?names and clk = "rg_attempt rg" and k = 0] by (auto simp: invoke_routed_def simp del: invoke_loop.simps)
qed

section \<open>Witnesses\<close>

definition fx_readings :: readings where
  "fx_readings = \<lparr>rg_trace_id = ''t1'', rg_span_id = (\<lambda>k. str_of_nat k), rg_start = (\<lambda>_. 0), rg_end = (\<lambda>_. 1),
     rg_lookup = (\<lambda>_. 0), rg_retrieve = 0, rg_bundle = 0, rg_route = (\<lambda>_. 0), rg_attempt = (\<lambda>_. (0, 0)),
     rg_store = (0, 0)\<rparr>"

lemma routed_failover_witness:
  "\<exists>d. route None (fx_ctx ''acme'' ''user:1'') ''hello'' 5 no_demand (\<lambda>_. 0) fx_registry = Inr d \<and>
    (case invoke_routed fx_readings d [] 10 fx_registry () of
       (Inl err, _) \<Rightarrow> \<exists>msg. err = BackendUnavailable msg
     | (Inr (resp, used, model), _) \<Rightarrow> used \<in> set (rd_backend d # rd_fallback_chain d))"
proof -
  obtain d where d: "route None (fx_ctx ''acme'' ''user:1'') ''hello'' 5 no_demand (\<lambda>_. 0) fx_registry = Inr d"
    using fx_routed by blast
  show ?thesis
    using routed_failover [OF fx_registry_ok d, of fx_readings "[]" 10 "()"] d
    unfolding in_set_conv_decomp by (intro exI [of _ d], auto split: prod.splits sum.splits, blast)
qed

text \<open>A registry whose only backend has just failed with a threshold of one.\<close>

definition fx_down :: "unit registry" where
  "fx_down = register (fx_spec ''big'' 10 1) (fake_adapter DEFAULT_REPLY)
     (Some (record_failure 0 (new_breaker 1 30))) []"

lemma fx_down_ok: "registry_ok fx_down"
  unfolding fx_down_def by (intro registry_ok_register) (simp add: registry_ok_def)

lemma safe_default_not_invoked_witness:
  "\<exists>d msg. route None (fx_ctx ''acme'' ''user:1'') ''hello'' 5 no_demand (\<lambda>_. 0) fx_down = Inr d \<and>
    rd_from_safe_default d \<and> invoke_routed fx_readings d [] 10 fx_down () = (Inl (BackendUnavailable msg), fx_down, ())"
proof -
  let ?r = "route None (fx_ctx ''acme'' ''user:1'') ''hello'' 5 no_demand (\<lambda>_. 0) fx_down"
  have law: "lawful None (fx_ctx ''acme'' ''user:1'') no_demand e" for e :: "unit registry_entry"
    by (simp add: lawful_def permits_def same_tenant_def no_demand_def)
  have all: "registry_all fx_down \<noteq> []" by (simp add: fx_down_def register_def registry_all_def)
  have shut: "\<not> allows 0 (re_breaker e)" if "e \<in> set (registry_all fx_down)" for e
  proof -
    have "re_breaker e = record_failure 0 (new_breaker 1 30)"
      using that by (simp add: fx_down_def register_def registry_all_def)
    moreover have "td_seconds 30 = 30000000" by code_simp
    ultimately show ?thesis by (simp add: record_failure_def new_breaker_def allows_def breaker_state_def Let_def)
  qed
  obtain d where d: "?r = Inr d"
    using route_Inl_iff [of None "fx_ctx ''acme'' ''user:1''" "''hello''" 5 no_demand "\<lambda>_. 0" fx_down]
      set_eligible_entries [of None "fx_ctx ''acme'' ''user:1''" no_demand fx_down] law all
    by (cases ?r) (auto simp: set_empty [symmetric] simp del: set_empty)
  have safe: "rd_from_safe_default d"
    using route_InrE [OF d] shut by metis
  show ?thesis
    using safe_default_not_invoked [OF fx_down_ok d safe, of fx_readings "[]" 10 "()"] d safe
    by (auto simp: fx_readings_def)
qed

end
