(* ===== verification/Requests.thy ===== *)
theory Requests
  imports PipelineStages Failover
begin

text \<open>
  The properties of a request, from the lemmas of \<open>PipelineStages\<close>: where it stops, what it leaves
  alone, what its trace records, what of it may be cached, what its bundle holds and replays, and
  when it is answered at all.
\<close>

section \<open>Answered requests\<close>

abbreviation admits :: "('s, 'c, 'w) pipeline \<Rightarrow> security_context \<Rightarrow> bool" where
  "admits P ctx \<equiv> allowed (evaluate (pl_policy P) ctx [(''type'', ''model''), (''tenant_id'', ctx_tenant_id ctx)] ROUTE)"

abbreviation chosen_model :: "('s, 'c, 'w) pipeline \<Rightarrow> string option \<Rightarrow> string" where
  "chosen_model P model \<equiv> or_else model (pl_default_model P)"

abbreviation looked_up ::
  "platform \<Rightarrow> readings \<Rightarrow> ('s, 'c, 'w) pipeline \<Rightarrow> security_context \<Rightarrow> string \<Rightarrow> string option \<Rightarrow> string option \<Rightarrow>
   ('s, 'c, 'w) pipe_state \<Rightarrow> cache_hit option" where
  "looked_up pf rg P ctx prompt model system st \<equiv>
     pipe_lookup pf rg P ctx prompt (chosen_model P model) (system_version pf system) st"

lemma check_admits:
  "check (pl_policy P) ctx [(''type'', ''model''), (''tenant_id'', ctx_tenant_id ctx)] ROUTE = Inr () \<longleftrightarrow> admits P ctx"
  by (simp add: check_def Let_def)

lemma run_answeredE:
  assumes "run pf rg P ctx prompt model mt system st = (Inr r, st')"
  obtains (hit) h t where "looked_up pf rg P ctx prompt model system st = Some h"
      "r = hit_result rg (chosen_model P model) h" "st' = st\<lparr>ps_traces := t\<rparr>"
  | (miss) tr tr' t where "looked_up pf rg P ctx prompt model system st = None"
      "trace_ok (rg_trace_id rg) (ctx_tenant_id ctx) tr" "stage_log tr = [(''auth'', True), (''cache'', True)]"
      "run_miss pf rg P ctx prompt (chosen_model P model) mt system tr (st\<lparr>ps_traces := t\<rparr>) = (Inr r, tr', st')"
proof (cases "check (pl_policy P) ctx [(''type'', ''model''), (''tenant_id'', ctx_tenant_id ctx)] ROUTE")
  case (Inl e)
  then show thesis
    using run_denied [OF Inl, of pf rg prompt model mt system st] assms by auto
next
  case (Inr u)
  then have ok: "check (pl_policy P) ctx [(''type'', ''model''), (''tenant_id'', ctx_tenant_id ctx)] ROUTE = Inr ()"
    by (cases u) (simp only:)
  obtain tr where tr: "trace_ok (rg_trace_id rg) (ctx_tenant_id ctx) tr"
    "stage_log tr = [(''auth'', True), (''cache'', True)]"
    and run: "run pf rg P ctx prompt model mt system st =
      (case (case looked_up pf rg P ctx prompt model system st of
          Some h \<Rightarrow> run_hit rg (chosen_model P model) h tr (st\<lparr>ps_traces := dset (rg_trace_id rg) tr (ps_traces st)\<rparr>)
        | None \<Rightarrow> run_miss pf rg P ctx prompt (chosen_model P model) mt system tr
            (st\<lparr>ps_traces := dset (rg_trace_id rg) tr (ps_traces st)\<rparr>)) of
       (res, _, st') \<Rightarrow> (res, st'))"
    by (rule run_admitted [OF ok])
  show thesis
  proof (cases "looked_up pf rg P ctx prompt model system st")
    case None
    then show thesis
      using miss [OF None tr] run assms
      by (cases "run_miss pf rg P ctx prompt (chosen_model P model) mt system tr
          (st\<lparr>ps_traces := dset (rg_trace_id rg) tr (ps_traces st)\<rparr>)") auto
  next
    case (Some h)
    show thesis using run_hits [OF ok Some, of mt] hit [OF Some] assms by auto
  qed
qed

text \<open>The adapters a request may call.\<close>

definition adapters_of :: "('s, 'c, 'w) pipeline \<Rightarrow> 'w registry \<Rightarrow> 'w adapter set" where
  "adapters_of P reg = insert (pl_adapter P) (re_adapter ` set (registry_all reg))"

lemma adapters_set_breaker:
  assumes "registry_get reg name = Some e"
  shows "re_adapter ` set (registry_all (set_breaker name e b reg)) \<subseteq> re_adapter ` set (registry_all reg)"
    and "re_adapter e \<in> re_adapter ` set (registry_all reg)"
proof -
  show e: "re_adapter e \<in> re_adapter ` set (registry_all reg)"
    using assms by (force simp: registry_all_def registry_get_def dest: map_of_SomeD)
  show "re_adapter ` set (registry_all (set_breaker name e b reg)) \<subseteq> re_adapter ` set (registry_all reg)"
  proof
    fix a assume "a \<in> re_adapter ` set (registry_all (set_breaker name e b reg))"
    then obtain x where x: "x \<in> set (dvalues (dset name (e\<lparr>re_breaker := b\<rparr>) reg))" "a = re_adapter x"
      by (auto simp: registry_all_def set_breaker_def)
    from set_dvalues_dset [OF x(1)] show "a \<in> re_adapter ` set (registry_all reg)"
    proof
      assume "x = e\<lparr>re_breaker := b\<rparr>"
      then show ?thesis using x(2) e by simp
    next
      assume "x \<in> set (dvalues reg)"
      then show ?thesis unfolding x(2) registry_all_def by (rule imageI)
    qed
  qed
qed

lemma invoke_loop_adapter:
  "invoke_loop clk msgs mt k names reg w = (Inr (resp, used, model), reg', w') \<Longrightarrow>
   \<exists>a \<in> re_adapter ` set (registry_all reg). \<exists>m w1. ad_generate a (mk_request m msgs mt) w1 = (Inr resp, w')"
proof (induction clk msgs mt k names reg w rule: invoke_loop.induct)
  case (2 clk msgs mt k name names reg w)
  show ?case
  proof (cases "registry_get reg name")
    case None
    then show ?thesis using 2 by simp
  next
    case (Some e)
    note sub = adapters_set_breaker [OF Some]
    obtain res w1 where g: "ad_generate (re_adapter e) (mk_request (bs_model_id (re_spec e)) msgs mt) w = (res, w1)"
      by (rule prod.exhaust)
    show ?thesis
    proof (cases "allows (fst (clk k)) (re_breaker e)")
      case False
      then show ?thesis using 2(2) [OF Some False] 2(4) Some by simp
    next
      case True
      show ?thesis
      proof (cases res)
        case (Inl err)
        then have "\<exists>a \<in> re_adapter ` set (registry_all (set_breaker name e (record_failure (snd (clk k)) (re_breaker e)) reg)).
            \<exists>m w1. ad_generate a (mk_request m msgs mt) w1 = (Inr resp, w')"
          using 2(3) [OF Some _ g [symmetric] Inl] 2(4) Some True g by simp
        then show ?thesis using sub(1) by (meson subsetD)
      next
        case (Inr x)
        then have "ad_generate (re_adapter e) (mk_request (bs_model_id (re_spec e)) msgs mt) w = (Inr resp, w')"
          using 2(4) Some True g by simp
        then show ?thesis using sub(2) by blast
      qed
    qed
  qed
qed simp

lemma invokes_adapter:
  "invokes rg P decision model msgs mt reg w resp model' reg' w' \<Longrightarrow>
   \<exists>a \<in> adapters_of P reg. \<exists>m w1. ad_generate a (mk_request m msgs mt) w1 = (Inr resp, w')"
  unfolding invokes_def adapters_of_def invoke_routed_def
  by (auto split: option.splits dest!: invoke_loop_adapter simp del: invoke_loop.simps)

text \<open>A request that fails has stored nothing in the cache, attached no output and billed nothing.\<close>

definition unbilled :: "('s, 'c, 'w) pipe_state \<Rightarrow> ('s, 'c, 'w) pipe_state \<Rightarrow> bool" where
  "unbilled st st' = (ps_cache st' = ps_cache st \<and> ps_ledger st' = ps_ledger st)"

definition fails_unbilled :: "('s, 'c, 'w) pipe_state \<Rightarrow> ('a, ('s, 'c, 'w) pipe_state) outcome \<Rightarrow> bool" where
  "fails_unbilled st m = (case m of (Inl e, tr, st') \<Rightarrow> unbilled st st' | _ \<Rightarrow> True)"

lemma unbilled_trans: "unbilled st st' \<Longrightarrow> unbilled st' st'' \<Longrightarrow> unbilled st st''"
  by (simp add: unbilled_def)

lemma unbilled_seq:
  assumes "unbilled st (snd (snd m))"
    and "\<And>x tr st'. m = (Inr x, tr, st') \<Longrightarrow> fails_unbilled st' (f x tr st')"
  shows "fails_unbilled st (seq m f)"
  using assms unbilled_trans
  by (cases m; cases "fst m") (auto simp: fails_unbilled_def seq_def split: prod.splits sum.splits)

lemma unbilled_span:
  "(\<And>sp. unbilled st (snd (snd (body sp st)))) \<Longrightarrow> unbilled st (snd (snd (with_span rg k stage name body tr st)))"
  by (auto simp: with_span_def unbilled_def Let_def split: prod.split)
    (metis prod.sel(2))+

lemma unbilled_stages:
  "unbilled st (snd (snd (retrieve_stage pf rg P ctx prompt sp st)))"
  "unbilled st (snd (snd (compress_stage P prompt cs sp st)))"
  "unbilled st (snd (snd (assemble_stage pf rg P ctx prompt model mt system cs sp st)))"
  "unbilled st (snd (snd (route_stage rg P ctx prompt model toks sp st)))"
  "unbilled st (snd (snd (invoke_stage rg P d model msgs mt sp st)))"
proof -
  show "unbilled st (snd (snd (compress_stage P prompt cs sp st)))"
    using compress_stage_state [of P prompt cs sp st] by (auto simp: unbilled_def)
  show "unbilled st (snd (snd (assemble_stage pf rg P ctx prompt model mt system cs sp st)))"
    using assemble_stage_state [of pf rg P ctx prompt model mt system cs sp st] by (auto simp: unbilled_def)
  show "unbilled st (snd (snd (invoke_stage rg P d model msgs mt sp st)))"
    using invoke_stage_state [of rg P d model msgs mt sp st] by (auto simp: unbilled_def)
qed (simp_all add: pure_stages unbilled_def)

lemma writeback_stage_Inr: "fst (writeback_stage pf rg P ctx prompt model sv injd resp sp st) = Inr ()"
  by (simp add: writeback_stage_def Let_def split: prod.split)

lemma run_write_fst: "\<exists>r. fst (run_write pf rg P ctx prompt system injected resp model tr st) = Inr r"
proof -
  let ?sp = "open_span tr (rg_span_id rg 7) (rg_start rg 7) ''writeback'' ''enqueue-async'' None"
  obtain res sp st1 where w: "writeback_stage pf rg P ctx prompt model (system_version pf system) injected resp ?sp st = (res, sp, st1)"
    by (rule prod_cases3)
  then have "res = Inr ()"
    using writeback_stage_Inr [of pf rg P ctx prompt model "system_version pf system" injected resp ?sp st] by simp
  then show ?thesis using w by (simp add: run_write_def with_span_def Let_def)
qed

lemma run_miss_unbilled:
  "fails_unbilled st (run_miss pf rg P ctx prompt model mt system tr st)"
proof -
  have w: "fails_unbilled st (run_write pf rg P ctx prompt system injected resp model tr st)" for injected resp model tr st
    using run_write_fst [of pf rg P ctx prompt system injected resp model tr st]
    by (auto simp: fails_unbilled_def split: prod.split sum.split)
  have i: "fails_unbilled st (run_invoke pf rg P ctx prompt mt system msgs injected d model tr st)"
    for msgs injected d model tr st
    unfolding run_invoke_def by (rule unbilled_seq [OF unbilled_span [OF unbilled_stages(5)]]) (simp add: w split: prod.split)
  have r: "fails_unbilled st (run_route pf rg P ctx prompt model mt system msgs injected toks tr st)"
    for msgs injected toks model tr st
    unfolding run_route_def by (rule unbilled_seq [OF unbilled_span [OF unbilled_stages(4)]]) (simp add: i split: prod.split)
  have a: "fails_unbilled st (run_assemble pf rg P ctx prompt model mt system cs tr st)" for cs tr st
    unfolding run_assemble_def by (rule unbilled_seq [OF unbilled_span [OF unbilled_stages(3)]]) (simp add: r split: prod.split)
  have c: "fails_unbilled st (seq (with_span rg 3 ''compress'' ''context-compression'' (compress_stage P prompt cs) tr st)
      (\<lambda>candidates tr st. run_assemble pf rg P ctx prompt model mt system candidates tr st))" for cs tr st
    by (rule unbilled_seq [OF unbilled_span [OF unbilled_stages(2)]]) (rule a)
  show ?thesis
    unfolding run_miss_def by (rule unbilled_seq [OF unbilled_span [OF unbilled_stages(1)]]) (rule c)
qed

section \<open>Where a request stops\<close>

text \<open>C14: A request stops where it must. A tenant whose policy denies the routing action gets that error,
  a prompt the cache can answer gets the stored text with no usage, and in both cases nothing but
  the trace has changed; and any other answer is the answer of a backend that the pipeline has.\<close>

theorem run_outcomes:
  "case check (pl_policy P) ctx [(''type'', ''model''), (''tenant_id'', ctx_tenant_id ctx)] ROUTE of
     Inl e \<Rightarrow> \<exists>t. run pf rg P ctx prompt model mt system st = (Inl e, st\<lparr>ps_traces := t\<rparr>)
   | Inr _ \<Rightarrow>
       (case looked_up pf rg P ctx prompt model system st of
          Some h \<Rightarrow> \<exists>t. run pf rg P ctx prompt model mt system st =
            (Inr \<lparr>res_text = ch_response_text h, res_trace_id = rg_trace_id rg, res_model = chosen_model P model,
               res_usage = zero_usage\<rparr>, st\<lparr>ps_traces := t\<rparr>)
        | None \<Rightarrow>
            (case run pf rg P ctx prompt model mt system st of
               (Inl e, st') \<Rightarrow> ps_cache st' = ps_cache st \<and> ps_ledger st' = ps_ledger st
             | (Inr r, st') \<Rightarrow> \<exists>a req w w' resp. a \<in> adapters_of P (ps_backends st) \<and>
                 ad_generate a req w = (Inr resp, w') \<and> res_text r = rs_text resp \<and>
                 res_usage r = rs_usage resp \<and> res_trace_id r = rg_trace_id rg))"
proof (cases "check (pl_policy P) ctx [(''type'', ''model''), (''tenant_id'', ctx_tenant_id ctx)] ROUTE")
  case (Inl e)
  then show ?thesis using run_denied [OF Inl, of pf rg prompt model mt system st] by auto
next
  case (Inr u)
  then have ok: "check (pl_policy P) ctx [(''type'', ''model''), (''tenant_id'', ctx_tenant_id ctx)] ROUTE = Inr ()"
    by (cases u) (simp only:)
  obtain tr where tr: "trace_ok (rg_trace_id rg) (ctx_tenant_id ctx) tr"
    and run: "run pf rg P ctx prompt model mt system st =
      (case (case looked_up pf rg P ctx prompt model system st of
          Some h \<Rightarrow> run_hit rg (chosen_model P model) h tr (st\<lparr>ps_traces := dset (rg_trace_id rg) tr (ps_traces st)\<rparr>)
        | None \<Rightarrow> run_miss pf rg P ctx prompt (chosen_model P model) mt system tr
            (st\<lparr>ps_traces := dset (rg_trace_id rg) tr (ps_traces st)\<rparr>)) of
       (res, _, st') \<Rightarrow> (res, st'))"
    by (rule run_admitted [OF ok])
  let ?st = "st\<lparr>ps_traces := dset (rg_trace_id rg) tr (ps_traces st)\<rparr>"
  have tid: "tr_trace_id tr = rg_trace_id rg" using tr by (simp add: trace_ok_def)
  show ?thesis
  proof (cases "looked_up pf rg P ctx prompt model system st")
    case (Some h)
    then show ?thesis
      using run_hits [OF ok Some, of mt] unfolding Inr sum.case hit_result_def by simp
  next
    case None
    obtain res tr' st' where m: "run_miss pf rg P ctx prompt (chosen_model P model) mt system tr ?st = (res, tr', st')"
      by (rule prod_cases3)
    then have r: "run pf rg P ctx prompt model mt system st = (res, st')" using run None by simp
    show ?thesis
    proof (cases res)
      case (Inl e)
      then show ?thesis
        using run_miss_unbilled [of ?st pf rg P ctx prompt "chosen_model P model" mt system tr] m
        by (simp add: Inr None r fails_unbilled_def unbilled_def)
    next
      case res: (Inr x)
      obtain decision model1 msgs w1 resp model' reg w where
        i: "invokes rg P decision model1 msgs mt (ps_backends ?st) w1 resp model' reg w" and x: "x = answer_of tr resp"
        by (rule run_miss_InrE [OF m [unfolded res]], rule that, assumption+)
      obtain a m' w1 where "a \<in> adapters_of P (ps_backends st)" "ad_generate a (mk_request m' msgs mt) w1 = (Inr resp, w)"
        using invokes_adapter [OF i] by auto
      then show ?thesis
        unfolding Inr None r res x answer_of_def sum.case option.case prod.case chat_result.simps tid
        by blast
    qed
  qed
qed

section \<open>What a request leaves alone\<close>

lemma lookup_part:
  "part c' (ctx_tenant_id ctx) = part c (ctx_tenant_id ctx) \<Longrightarrow>
   lookup mem_cache sha E thr ctx q model spv sfv clk c' = lookup mem_cache sha E thr ctx q model spv sfv clk c"
  by (simp only: lookup_def mem_cache_def cache_backend.simps get_exact_def search_semantic_def)

text \<open>C7: A request is invisible to every other tenant and writes no memory. Over the in-memory cache,
  whatever it answers or raises: no stored memory is added, changed or lost; another tenant's cache
  lookups, bundles, bill and traces are what they were; and the same backends stay registered
  under the same specifications.\<close>

theorem run_isolated:
  assumes "\<And>sc. pl_cache P = Some sc \<Longrightarrow> cache_backend sc = mem_cache"
    and "ctx_tenant_id other \<noteq> ctx_tenant_id ctx"
  shows "case run pf rg P ctx prompt model mt system st of (res, st') \<Rightarrow>
    ps_store st' = ps_store st \<and>
    lookup mem_cache sha E thr other q m spv sfv clk (ps_cache st') =
      lookup mem_cache sha E thr other q m spv sfv clk (ps_cache st) \<and>
    bundle_get other tid (ps_bundles st') = bundle_get other tid (ps_bundles st) \<and>
    ledger_summary other (ps_ledger st') = ledger_summary other (ps_ledger st) \<and>
    (tid = rg_trace_id rg \<or> tracer_get other tid (ps_traces st') = tracer_get other tid (ps_traces st)) \<and>
    specs_of (ps_backends st') = specs_of (ps_backends st)"
proof -
  obtain res st' where r: "run pf rg P ctx prompt model mt system st = (res, st')" by (rule prod.exhaust)
  have "others_unchanged (ctx_tenant_id ctx) (rg_trace_id rg) st st'"
    using run_others [of P ctx rg st pf prompt model mt system] assms(1) r by simp
  then have o: "ps_store st' = ps_store st" "part (ps_cache st') (ctx_tenant_id other) = part (ps_cache st) (ctx_tenant_id other)"
    "part (ps_bundles st') (ctx_tenant_id other) = part (ps_bundles st) (ctx_tenant_id other)"
    "tenant_records (ps_ledger st') (ctx_tenant_id other) = tenant_records (ps_ledger st) (ctx_tenant_id other)"
    "tid \<noteq> rg_trace_id rg \<Longrightarrow> dget (ps_traces st') tid = dget (ps_traces st) tid"
    using assms(2) by (auto simp: others_unchanged_def)
  have "specs_of (ps_backends st') = specs_of (ps_backends st)"
    using run_specs [of st pf rg P ctx prompt model mt system] r by (simp add: same_specs_def)
  moreover have "tid = rg_trace_id rg \<or> tracer_get other tid (ps_traces st') = tracer_get other tid (ps_traces st)"
    using o(5) by (cases "tid = rg_trace_id rg") (simp_all add: tracer_get_def)
  ultimately show ?thesis
    using o(1) lookup_part [OF o(2)] by (simp add: r bundle_get_def ledger_summary_def o(3,4))
qed

section \<open>What the trace records\<close>

lemma run_files_trace:
  "case run pf rg P ctx prompt model mt system st of (res, st') \<Rightarrow>
    \<exists>tr. tracer_get ctx (rg_trace_id rg) (ps_traces st') = Some tr \<and>
      trace_ok (rg_trace_id rg) (ctx_tenant_id ctx) tr \<and>
      (log_of ([''auth'', ''cache''] @ MISS_STAGES) res (stage_log tr) \<or>
       log_of [''auth'', ''cache'', ''writeback''] res (stage_log tr))"
proof (cases "check (pl_policy P) ctx [(''type'', ''model''), (''tenant_id'', ctx_tenant_id ctx)] ROUTE")
  case (Inl e)
  obtain tr where "run pf rg P ctx prompt model mt system st =
      (Inl e, st\<lparr>ps_traces := dset (rg_trace_id rg) tr (ps_traces st)\<rparr>)"
    "trace_ok (rg_trace_id rg) (ctx_tenant_id ctx) tr" "stage_log tr = [(''auth'', False)]"
    using run_denied [OF Inl] by blast
  moreover have "log_of ([''auth'', ''cache''] @ MISS_STAGES) (Inl e) [(''auth'', False)]"
    by (simp add: log_of_def)
  ultimately show ?thesis by (auto simp: tracer_get_def trace_ok_def)
next
  case (Inr u)
  then have ok: "check (pl_policy P) ctx [(''type'', ''model''), (''tenant_id'', ctx_tenant_id ctx)] ROUTE = Inr ()"
    by (cases u) (simp only:)
  obtain tr where tr: "trace_ok (rg_trace_id rg) (ctx_tenant_id ctx) tr" "stage_log tr = [(''auth'', True), (''cache'', True)]"
    and run: "run pf rg P ctx prompt model mt system st =
      (case (case looked_up pf rg P ctx prompt model system st of
          Some h \<Rightarrow> run_hit rg (chosen_model P model) h tr (st\<lparr>ps_traces := dset (rg_trace_id rg) tr (ps_traces st)\<rparr>)
        | None \<Rightarrow> run_miss pf rg P ctx prompt (chosen_model P model) mt system tr
            (st\<lparr>ps_traces := dset (rg_trace_id rg) tr (ps_traces st)\<rparr>)) of
       (res, _, st') \<Rightarrow> (res, st'))"
    by (rule run_admitted [OF ok])
  let ?st = "st\<lparr>ps_traces := dset (rg_trace_id rg) tr (ps_traces st)\<rparr>"
  have past: "past_ok (rg_trace_id rg) (ctx_tenant_id ctx) [''auth'', ''cache''] tr ?st"
    using tr by (simp add: past_ok_def)
  obtain res tr' st' stages where "run pf rg P ctx prompt model mt system st = (res, st')"
    "traced (rg_trace_id rg) (ctx_tenant_id ctx) ([''auth'', ''cache''] @ stages) (res, tr', st')"
    "stages = MISS_STAGES \<or> stages = [''writeback'']"
  proof (cases "looked_up pf rg P ctx prompt model system st")
    case None
    obtain res tr' st' where m: "run_miss pf rg P ctx prompt (chosen_model P model) mt system tr ?st = (res, tr', st')"
      by (rule prod_cases3)
    show thesis
      by (rule that [of res st' MISS_STAGES tr'])
        (use run None m run_miss_traced [OF past, of pf rg P ctx prompt "chosen_model P model" mt system] in simp_all)
  next
    case (Some h)
    obtain res tr' st' where m: "run_hit rg (chosen_model P model) h tr ?st = (res, tr', st')" by (rule prod_cases3)
    show thesis
      by (rule that [of res st' "[''writeback'']" tr'])
        (use run Some m run_hit_traced [OF past, of rg "chosen_model P model" h] in simp_all)
  qed
  then show ?thesis by (auto simp: traced_def tracer_get_def trace_ok_def)
qed

text \<open>C13: Every request is traced, also the one that fails. Afterwards the tracer returns to the tenant a
  trace whose spans are all ended and carry its ids. Of an answered request they are the eight
  stages in order, or the three of a cache hit, each with its decision; of a failed one they are an
  initial part of the eight, and exactly the last, where it failed, has no decision.\<close>

theorem run_trace_complete:
  "case run pf rg P ctx prompt model mt system st of (res, st') \<Rightarrow>
    \<exists>tr. tracer_get ctx (rg_trace_id rg) (ps_traces st') = Some tr \<and>
      trace_ok (rg_trace_id rg) (ctx_tenant_id ctx) tr \<and>
      (log_of ([''auth'', ''cache''] @ MISS_STAGES) res (stage_log tr) \<or>
       log_of [''auth'', ''cache'', ''writeback''] res (stage_log tr))"
  by (rule run_files_trace)

end
