(* ===== verification/Grounding.thy ===== *)
theory Grounding
  imports Requests
begin

text \<open>
  What an answered request is grounded in: the memories its prompt may contain, what of it may be
  cached, what its bundle replays; and when a request is answered at all.
\<close>

section \<open>Compression in the request\<close>

definition shortened :: "memory_candidate \<Rightarrow> memory_candidate \<Rightarrow> bool" where
  "shortened c c' = (mc_memory_id c' = mc_memory_id c \<and> mc_tenant_id c' = mc_tenant_id c \<and>
     mc_namespace c' = mc_namespace c \<and> facts (mc_content c') \<subseteq> facts (mc_content c))"

lemma compress_loop_shortens:
  "compress_loop llm target cnt prompt cs saved acc w = (s, out, w') \<Longrightarrow>
   \<exists>cs'. out = acc @ cs' \<and> list_all2 shortened cs cs'"
proof (induction llm target cnt prompt cs saved acc w rule: compress_loop.induct)
  case (2 llm target cnt prompt c cs saved acc w)
  obtain block w1 where b: "compress (mc_content c) target cnt (Some prompt) llm w = (block, w1)" by (rule prod.exhaust)
  have f: "facts (cb_text block) \<subseteq> facts (mc_content c)"
    using compress_guarded [of "mc_content c" target cnt "Some prompt" llm w] by (simp add: b)
  show ?case
  proof (cases "cb_compressed_tokens block < cb_original_tokens block")
    case True
    obtain cs' where "out = (acc @ [c\<lparr>mc_content := cb_text block\<rparr>]) @ cs'" "list_all2 shortened cs cs'"
      using 2(1) [OF b [symmetric] True] 2(3) b True by auto
    moreover have "shortened c (c\<lparr>mc_content := cb_text block\<rparr>)" by (simp add: shortened_def f)
    ultimately show ?thesis by (intro exI [of _ "c\<lparr>mc_content := cb_text block\<rparr> # cs'"]) simp
  next
    case False
    obtain cs' where "out = (acc @ [c]) @ cs'" "list_all2 shortened cs cs'"
      using 2(2) [OF b [symmetric] False] 2(3) b False by auto
    moreover have "shortened c c" by (simp add: shortened_def)
    ultimately show ?thesis by (intro exI [of _ "c # cs'"]) simp
  qed
qed simp

lemma compresses_shortens:
  "compresses P prompt cs w cs' w' \<Longrightarrow> list_all2 shortened cs cs'"
  by (auto simp: compresses_def shortened_def list_all2_same split: if_splits dest!: compress_loop_shortens)

lemma compress_loop_world:
  "compress_loop None target cnt prompt cs saved acc w = (s, out, w') \<Longrightarrow> w' = w"
proof (induction cs arbitrary: saved acc)
  case (Cons c cs)
  obtain block w1 where b: "compress (mc_content c) target cnt (Some prompt) None w = (block, w1)" by (rule prod.exhaust)
  have "w1 = w" using b by (auto simp: compress_def Let_def split: if_splits)
  then show ?case using Cons b by (auto split: if_splits)
qed simp

section \<open>A prompt without memory\<close>

lemma kept_count_surv:
  assumes "pack cnt soft used sel = (surv, decs)"
  shows "length (filter cd_kept decs) = length surv"
  using arg_cong [OF pack_kept [of cnt soft used sel], of length] assms by simp

lemma kept_none_passthrough:
  assumes "assemble E budget (pipe_sources prompt system cs) w tok lam = Inr ac" and "kept_count ac = 0"
  shows "ac_messages ac = passthrough prompt system"
proof -
  obtain selected surv decs where a: "pack (token_count tok) (soft_budget budget) 0 selected = (surv, decs)"
    "ac_messages ac = render_messages (pipe_sources prompt system cs) (edge_load surv)"
    "ac_decisions ac = place (edge_load surv) (decs @ below_topk (blend (sr_candidates (pipe_sources prompt system cs)) w) selected)"
    by (rule assemble_InrE [OF assms(1)])
  have "length surv = 0"
    using assms(2) kept_count_surv [OF a(1)]
    by (simp add: kept_count_def a(3) place_kept_length below_topk_not_kept)
  then show ?thesis
    by (auto simp: a(2) render_messages_def pipe_sources_def passthrough_def truthy_def or_else_def split: option.split)
qed

section \<open>The answered request, by its parts\<close>

lemma run_miss_answeredE:
  assumes "run pf rg P ctx prompt model mt system st = (Inr r, st')"
    and "looked_up pf rg P ctx prompt model system st = None"
  obtains retrieved cs w1 msgs injected bundles decision model1 resp model' reg w where
    "retrieves pf rg P ctx prompt (ps_store st) retrieved" and "list_all2 shortened retrieved cs"
    and "compresses P prompt retrieved (ps_world st) cs w1"
    and "assembles pf rg P ctx prompt (chosen_model P model) mt system cs (ps_bundles st) msgs injected bundles"
    and "invokes rg P decision model1 msgs mt (ps_backends st) w1 resp model' reg w"
    and "ps_cache st' = written_cache pf rg P ctx prompt system injected resp model' (ps_cache st)"
    and "ps_bundles st' = written_bundles rg P ctx resp bundles"
    and "ps_ledger st' = written_ledger P ctx resp model' (ps_ledger st)"
    and "res_text r = rs_text resp" and "res_trace_id r = rg_trace_id rg"
  using assms(1)
proof (cases rule: run_answeredE)
  case (hit h t)
  then show thesis using assms(2) by simp
next
  case (miss tr tr' t)
  show thesis
  proof (rule run_miss_InrE [OF miss(4)])
    fix retrieved cs w1 msgs injected bundles toks decision model1 resp model' reg w
    assume r: "retrieves pf rg P ctx prompt (ps_store (st\<lparr>ps_traces := t\<rparr>)) retrieved"
      and c: "compresses P prompt retrieved (ps_world (st\<lparr>ps_traces := t\<rparr>)) cs w1"
      and a: "assembles pf rg P ctx prompt (chosen_model P model) mt system cs (ps_bundles (st\<lparr>ps_traces := t\<rparr>)) msgs injected bundles"
      and i: "invokes rg P decision model1 msgs mt (ps_backends (st\<lparr>ps_traces := t\<rparr>)) w1 resp model' reg w"
      and f: "finishes pf rg P ctx prompt system injected resp model'
        (st\<lparr>ps_traces := t, ps_bundles := bundles, ps_backends := reg, ps_world := w\<rparr>) st'"
      and x: "r = answer_of tr resp"
    show thesis
      by (rule that [of retrieved cs w1 msgs injected bundles decision model1 resp model' reg w])
        (use r c compresses_shortens [OF c] a i f x miss(2) in \<open>simp_all add: finishes_def answer_of_def trace_ok_def\<close>)
  qed
qed

text \<open>What was captured, as it is after the write-back.\<close>

lemma captured_bundle:
  assumes "assembles pf rg P ctx prompt model mt system cs s msgs injected bundles"
    and "pl_assembler P = Some E" and "pl_replay P"
  obtains ac b b' where "assemble E (pipe_budget P prompt mt system) \<lparr>sr_system_prompt = or_else system [],
      sr_latest_user_turn = prompt, sr_candidates = cs, sr_history = []\<rparr> (pl_weights P) (Some (pl_tokenizer P))
      PIPE_MMR_LAMBDA = Inr ac"
    and "capture (pf_b2 pf) (pf_repr pf) (rg_trace_id rg) ctx (or_else system []) prompt cs (pl_weights P)
      PIPE_MMR_LAMBDA (pipe_budget P prompt mt system) model (bundle_messages (ac_messages ac))
      (render_prompt_hash (pf_sha pf) (ac_messages ac)) (rg_bundle rg) s = (b, bundles)"
    and "bundle_get ctx (rg_trace_id rg) (written_bundles rg P ctx resp bundles) = Some b'" and "same_bundle b b'"
    and "bu_candidates b' = cs" and "bu_recorded_output b' \<in> {None, Some (rs_text resp)}"
proof -
  obtain ac b where a: "assemble E (pipe_budget P prompt mt system) (pipe_sources prompt system cs) (pl_weights P)
      (Some (pl_tokenizer P)) PIPE_MMR_LAMBDA = Inr ac"
    and cap: "capture (pf_b2 pf) (pf_repr pf) (rg_trace_id rg) ctx (or_else system []) prompt cs (pl_weights P)
      PIPE_MMR_LAMBDA (pipe_budget P prompt mt system) model (bundle_messages (ac_messages ac))
      (render_prompt_hash (pf_sha pf) (ac_messages ac)) (rg_bundle rg) s = (b, bundles)"
    using assms by (auto simp: assembles_def)
  note got = capture_get [OF cap]
  have out: "bu_recorded_output b = None" using cap by (auto simp: capture_def Let_def)
  let ?b' = "if rs_finish_reason resp \<noteq> None then b\<lparr>bu_recorded_output := Some (rs_text resp)\<rparr> else b"
  have "bundle_get ctx (rg_trace_id rg) (written_bundles rg P ctx resp bundles) = Some ?b'"
    using got assms(3) by (simp add: written_bundles_def bundle_attach_def bundle_get_def)
  moreover have "same_bundle b ?b'"
    using same_bundle_refl [of b] same_bundle_attach [OF same_bundle_refl, of b] by simp
  ultimately show thesis
    by (rule that [OF a [unfolded pipe_sources_def] cap]) (use got out in simp_all)
qed

lemma answered_replays:
  assumes "run pf rg P ctx prompt model mt system st = (Inr r, st')"
    and "looked_up pf rg P ctx prompt model system st = None" and "pl_assembler P = Some E" and "pl_replay P"
  shows "\<exists>rr. replay (pf_sha pf) E (pl_tokenizer P) ctx (rg_trace_id rg) RECORDED_OUTPUT (ps_bundles st') = Inr (Some rr) \<and>
    rr_prompt_equal rr \<and> rr_output_equal rr = Some True \<and> rr_recorded_output rr \<in> {None, Some (res_text r)}"
proof -
  obtain cs msgs injected bundles resp where
    a: "assembles pf rg P ctx prompt (chosen_model P model) mt system cs (ps_bundles st) msgs injected bundles"
    and b: "ps_bundles st' = written_bundles rg P ctx resp bundles" and t: "res_text r = rs_text resp"
    by (rule run_miss_answeredE [OF assms(1,2)])
  obtain ac bu b' where c: "assemble E (pipe_budget P prompt mt system) \<lparr>sr_system_prompt = or_else system [],
      sr_latest_user_turn = prompt, sr_candidates = cs, sr_history = []\<rparr> (pl_weights P) (Some (pl_tokenizer P))
      PIPE_MMR_LAMBDA = Inr ac"
    "capture (pf_b2 pf) (pf_repr pf) (rg_trace_id rg) ctx (or_else system []) prompt cs (pl_weights P)
      PIPE_MMR_LAMBDA (pipe_budget P prompt mt system) (chosen_model P model) (bundle_messages (ac_messages ac))
      (render_prompt_hash (pf_sha pf) (ac_messages ac)) (rg_bundle rg) (ps_bundles st) = (bu, bundles)"
    "bundle_get ctx (rg_trace_id rg) (written_bundles rg P ctx resp bundles) = Some b'" "same_bundle bu b'"
    "bu_recorded_output b' \<in> {None, Some (rs_text resp)}"
    by (rule captured_bundle [OF a assms(3,4), of resp])
  show ?thesis
    using replay_same_bundle [OF c(1,2) c(3) [folded b] c(4), of RECORDED_OUTPUT] c(5) t by auto
qed

section \<open>Properties\<close>

text \<open>C20: What is cached is free of memory. If a request changed the cache, its answer is one that a
  backend gave to the bare prompt, the system prompt and the user's turn and nothing else: no
  stored memory went into it.\<close>

theorem cached_memory_free:
  assumes "run pf rg P ctx prompt model mt system st = (Inr r, st')" and "ps_cache st' \<noteq> ps_cache st"
  shows "\<exists>a m w w' resp. a \<in> adapters_of P (ps_backends st) \<and>
    ad_generate a (mk_request m (passthrough prompt system) mt) w = (Inr resp, w') \<and> res_text r = rs_text resp"
proof (cases "looked_up pf rg P ctx prompt model system st")
  case (Some h)
  from assms(1) have "ps_cache st' = ps_cache st" by (cases rule: run_answeredE) (use Some in simp_all)
  then show ?thesis using assms(2) by simp
next
  case None
  obtain cs msgs injected bundles decision model1 w1 resp model' reg w where
    a: "assembles pf rg P ctx prompt (chosen_model P model) mt system cs (ps_bundles st) msgs injected bundles"
    and i: "invokes rg P decision model1 msgs mt (ps_backends st) w1 resp model' reg w"
    and c: "ps_cache st' = written_cache pf rg P ctx prompt system injected resp model' (ps_cache st)"
    and t: "res_text r = rs_text resp"
    by (rule run_miss_answeredE [OF assms(1) None])
  have "injected = 0"
  proof (rule ccontr)
    assume "injected \<noteq> 0"
    then have "ps_cache st' = ps_cache st"
      by (simp add: c written_cache_def writeback_op_def store_def split: option.split)
    then show False using assms(2) by simp
  qed
  then have "msgs = passthrough prompt system"
    using a kept_none_passthrough by (auto simp: assembles_def split: option.splits)
  moreover obtain a' m' w2 where "a' \<in> adapters_of P (ps_backends st)" "ad_generate a' (mk_request m' msgs mt) w2 = (Inr resp, w)"
    using invokes_adapter [OF i] by auto
  ultimately show ?thesis using t by blast
qed

text \<open>C12: An answered request can be replayed. With an assembler and a replay debugger over the same
  embedder and tokenizer, an answer that did not come from the cache leaves a bundle under its trace
  id from which the debugger assembles the very same prompt; and the output recorded, if any, is the
  answer's text.\<close>

theorem run_replayable:
  assumes "run pf rg P ctx prompt model mt system st = (Inr r, st')"
    and "looked_up pf rg P ctx prompt model system st = None" and "pl_assembler P = Some E" and "pl_replay P"
  shows "\<exists>rr. replay (pf_sha pf) E (pl_tokenizer P) ctx (rg_trace_id rg) RECORDED_OUTPUT (ps_bundles st') = Inr (Some rr) \<and>
    rr_prompt_equal rr \<and> rr_output_equal rr = Some True \<and> rr_recorded_output rr \<in> {None, Some (res_text r)}"
  by (rule answered_replays [OF assms])


end
