(* ===== verification/Answers.thy ===== *)
theory Answers
  imports Grounding
begin

text \<open>
  When a request is answered: over the in-process components a request fails only by its policy, by
  its budget or by its backend. The witnesses of the pipeline's properties are requests to such a
  pipeline.
\<close>

section \<open>Stages that cannot fail\<close>

definition succeeds :: "('a, 'st) outcome \<Rightarrow> bool" where
  "succeeds m = (case m of (Inr _, _, _) \<Rightarrow> True | _ \<Rightarrow> False)"

lemma succeeds_span:
  assumes "\<And>sp. \<exists>x sp' st1. body sp st = (Inr x, sp', st1)"
    and "\<And>sp x sp' st1 tr' t. body sp st = (Inr x, sp', st1) \<Longrightarrow> succeeds (f x tr' (st1\<lparr>ps_traces := t\<rparr>))"
  shows "succeeds (seq (with_span rg k stage name body tr st) f)"
proof -
  let ?sp = "open_span tr (rg_span_id rg k) (rg_start rg k) stage name None"
  obtain x sp' st1 where b: "body ?sp st = (Inr x, sp', st1)" using assms(1) by blast
  then show ?thesis using assms(2) [OF b] by (simp add: with_span_def Let_def)
qed

lemma run_write_succeeds: "succeeds (run_write pf rg P ctx prompt system injected resp model tr st)"
  using run_write_fst [of pf rg P ctx prompt system injected resp model tr st]
  by (auto simp: succeeds_def split: prod.split sum.split)

lemma run_invoke_succeeds:
  assumes "\<And>req w. \<exists>resp w'. ad_generate (pl_adapter P) req w = (Inr resp, w')"
  shows "succeeds (run_invoke pf rg P ctx prompt mt system msgs injected None model tr st)"
  unfolding run_invoke_def
proof (rule succeeds_span)
  fix sp
  obtain resp w' where "ad_generate (pl_adapter P) (mk_request model msgs mt) (ps_world st) = (Inr resp, w')"
    using assms by blast
  then show "\<exists>x sp' st1. invoke_stage rg P None model msgs mt sp st = (Inr x, sp', st1)"
    by (simp add: invoke_stage_def Let_def)
qed (simp add: run_write_succeeds split: prod.split)

lemma run_route_succeeds:
  assumes "\<And>req w. \<exists>resp w'. ad_generate (pl_adapter P) req w = (Inr resp, w')" and "pl_router P = None"
  shows "succeeds (run_route pf rg P ctx prompt model mt system msgs injected toks tr st)"
  unfolding run_route_def
proof (rule succeeds_span)
  show "\<exists>x sp' st1. route_stage rg P ctx prompt model toks sp st = (Inr x, sp', st1)" for sp
    by (simp add: route_stage_def assms(2))
qed (auto simp: route_stage_def assms(2) intro!: run_invoke_succeeds [OF assms(1)])

definition assembles_always :: "('s, 'c, 'w) pipeline \<Rightarrow> string \<Rightarrow> int \<Rightarrow> string option \<Rightarrow> bool" where
  "assembles_always P prompt mt system = (case pl_assembler P of None \<Rightarrow> True
     | Some E \<Rightarrow> (\<exists>blake. E = hashing_provider blake DEFAULT_DIM) \<and> validate_weights (pl_weights P) = Inr () \<and>
         hard_floor (pipe_budget P prompt mt system) \<le> tb_window_tokens (pipe_budget P prompt mt system))"

lemma assembles_always_Inr:
  assumes "assembles_always P prompt mt system" and "pl_assembler P = Some E"
  shows "\<exists>ac. assemble E (pipe_budget P prompt mt system) src (pl_weights P) tok lam = Inr ac"
proof -
  obtain blake where "E = hashing_provider blake DEFAULT_DIM" "validate_weights (pl_weights P) = Inr ()"
    "hard_floor (pipe_budget P prompt mt system) \<le> tb_window_tokens (pipe_budget P prompt mt system)"
    using assms by (auto simp: assembles_always_def)
  then show ?thesis
    using hashing.assemble_outcome [of blake "pipe_budget P prompt mt system" src "pl_weights P" tok lam]
    by (auto simp: validate_weights_def Let_def split: if_splits)
qed

lemma run_assemble_succeeds:
  assumes "\<And>req w. \<exists>resp w'. ad_generate (pl_adapter P) req w = (Inr resp, w')" and "pl_router P = None"
    and "assembles_always P prompt mt system"
  shows "succeeds (run_assemble pf rg P ctx prompt model mt system cs tr st)"
  unfolding run_assemble_def
proof (rule succeeds_span)
  fix sp
  show "\<exists>x sp' st1. assemble_stage pf rg P ctx prompt model mt system cs sp st = (Inr x, sp', st1)"
  proof (cases "pl_assembler P")
    case (Some E)
    then obtain ac where "assemble E (pipe_budget P prompt mt system) (pipe_sources prompt system cs) (pl_weights P)
        (Some (pl_tokenizer P)) PIPE_MMR_LAMBDA = Inr ac"
      using assembles_always_Inr [OF assms(3)] by blast
    then show ?thesis by (simp add: assemble_stage_def Some Let_def split: prod.split)
  qed (simp add: assemble_stage_def)
qed (simp add: run_route_succeeds [OF assms(1,2)] split: prod.split)

definition retrieves_always :: "(mem_store, 'c, 'w) pipeline \<Rightarrow> mem_store \<Rightarrow> bool" where
  "retrieves_always P s = (case pl_memory P of None \<Rightarrow> True
     | Some (B, E) \<Rightarrow> B = inmem \<and> (\<exists>blake. E = hashing_provider blake DEFAULT_DIM) \<and> store_inv s)"

lemma run_miss_succeeds:
  assumes "\<And>req w. \<exists>resp w'. ad_generate (pl_adapter P) req w = (Inr resp, w')" and "pl_router P = None"
    and "assembles_always P prompt mt system" and "retrieves_always P (ps_store st)"
  shows "succeeds (run_miss pf rg P ctx prompt model mt system tr st)"
  unfolding run_miss_def
proof (rule succeeds_span)
  fix sp
  show "\<exists>x sp' st1. retrieve_stage pf rg P ctx prompt sp st = (Inr x, sp', st1)"
  proof (cases "pl_memory P")
    case (Some BE)
    then obtain blake where BE: "BE = (inmem, hashing_provider blake DEFAULT_DIM)" and inv: "store_inv (ps_store st)"
      using assms(4) by (cases BE) (auto simp: retrieves_always_def)
    obtain cs where "retrieve inmem (hashing_provider blake DEFAULT_DIM) (pf_libm pf) (pf_set_order pf) ctx prompt
        RETRIEVE_K (rg_retrieve rg) (ps_store st) = Inr cs"
      by (rule engine.retrieve_ok [OF inv])
    then show ?thesis by (simp add: retrieve_stage_def Some BE)
  qed (simp add: retrieve_stage_def)
next
  fix x tr' st1 t
  show "succeeds (seq (with_span rg 3 ''compress'' ''context-compression'' (compress_stage P prompt x) tr' (st1\<lparr>ps_traces := t\<rparr>))
      (\<lambda>candidates tr st. run_assemble pf rg P ctx prompt model mt system candidates tr st))"
  proof (rule succeeds_span)
    show "\<exists>y sp' st2. compress_stage P prompt x sp (st1\<lparr>ps_traces := t\<rparr>) = (Inr y, sp', st2)" for sp
      by (simp add: compress_stage_def split: prod.split)
  qed (rule run_assemble_succeeds [OF assms(1-3)])
qed

lemma run_succeeds:
  assumes "\<And>req w. \<exists>resp w'. ad_generate (pl_adapter P) req w = (Inr resp, w')" and "pl_router P = None"
    and "assembles_always P prompt mt system" and "retrieves_always P (ps_store st)" and "admits P ctx"
  shows "\<exists>r st'. run pf rg P ctx prompt model mt system st = (Inr r, st')"
proof -
  obtain tr where tr: "trace_ok (rg_trace_id rg) (ctx_tenant_id ctx) tr"
    and run: "run pf rg P ctx prompt model mt system st =
      (case (case looked_up pf rg P ctx prompt model system st of
          Some h \<Rightarrow> run_hit rg (chosen_model P model) h tr (st\<lparr>ps_traces := dset (rg_trace_id rg) tr (ps_traces st)\<rparr>)
        | None \<Rightarrow> run_miss pf rg P ctx prompt (chosen_model P model) mt system tr
            (st\<lparr>ps_traces := dset (rg_trace_id rg) tr (ps_traces st)\<rparr>)) of
       (res, _, st') \<Rightarrow> (res, st'))"
    by (rule run_admitted [OF iffD2 [OF check_admits assms(5)]])
  let ?st = "st\<lparr>ps_traces := dset (rg_trace_id rg) tr (ps_traces st)\<rparr>"
  have tid: "tr_trace_id tr = rg_trace_id rg" using tr by (simp add: trace_ok_def)
  show ?thesis
  proof (cases "looked_up pf rg P ctx prompt model system st")
    case None
    have "succeeds (run_miss pf rg P ctx prompt (chosen_model P model) mt system tr ?st)"
      using assms by (intro run_miss_succeeds) simp_all
    then show ?thesis
      using run None
      by (cases "run_miss pf rg P ctx prompt (chosen_model P model) mt system tr ?st")
        (auto simp: succeeds_def split: sum.splits)
  next
    case (Some h)
    show ?thesis using run_hits [OF iffD2 [OF check_admits assms(5)] Some, of mt] by blast
  qed
qed

section \<open>Requests that do not fit\<close>

text \<open>A stage that fails, and the stages before it, leave the state as it was.\<close>

definition fails_with :: "pyexn \<Rightarrow> ('s, 'c, 'w) pipe_state \<Rightarrow> ('a, ('s, 'c, 'w) pipe_state) outcome \<Rightarrow> bool" where
  "fails_with e st m = (\<exists>tr t. m = (Inl e, tr, st\<lparr>ps_traces := t\<rparr>))"

lemma fails_with_traces [simp]: "fails_with e (st\<lparr>ps_traces := t\<rparr>) m = fails_with e st m"
  by (simp add: fails_with_def)

lemma fails_with_pass:
  assumes "\<And>sp. \<exists>x sp'. body sp st = (Inr x, sp', st)" and "\<And>x tr t. fails_with e st (f x tr (st\<lparr>ps_traces := t\<rparr>))"
  shows "fails_with e st (seq (with_span rg k stage name body tr st) f)"
proof -
  obtain x sp' where "body (open_span tr (rg_span_id rg k) (rg_start rg k) stage name None) st = (Inr x, sp', st)"
    using assms(1) by blast
  then show ?thesis using assms(2) by (simp add: with_span_def Let_def)
qed

lemma fails_with_here:
  assumes "\<And>sp. body sp st = (Inl e, sp, st)"
  shows "fails_with e st (seq (with_span rg k stage name body tr st) f)"
  by (auto simp: with_span_def assms Let_def fails_with_def)

text \<open>A prompt that cannot fit fails closed. When the reserves for the answer, the system prompt and
  the user's turn exceed the window, the request raises the overflow with both numbers; no backend
  has been called, and of the whole state only the trace has changed.\<close>

lemma run_overflow:
  fixes P :: "(mem_store, 'c, 'w) pipeline"
  assumes "tb_window_tokens (pipe_budget P prompt mt system) < hard_floor (pipe_budget P prompt mt system)"
    and "pl_assembler P = Some E" and "validate_weights (pl_weights P) = Inr ()"
    and "pl_compressor P \<in> {None, Some None}" and "retrieves_always P (ps_store st)" and "admits P ctx"
    and "looked_up pf rg P ctx prompt model system st = None"
  shows "\<exists>t. run pf rg P ctx prompt model mt system st = (Inl (ContextOverflow
      (hard_floor (pipe_budget P prompt mt system)) (pl_window_tokens P)), st\<lparr>ps_traces := t\<rparr>)"
proof -
  let ?e = "ContextOverflow (hard_floor (pipe_budget P prompt mt system)) (pl_window_tokens P)"
  obtain tr where run: "run pf rg P ctx prompt model mt system st =
      (case (case looked_up pf rg P ctx prompt model system st of
          Some h \<Rightarrow> run_hit rg (chosen_model P model) h tr (st\<lparr>ps_traces := dset (rg_trace_id rg) tr (ps_traces st)\<rparr>)
        | None \<Rightarrow> run_miss pf rg P ctx prompt (chosen_model P model) mt system tr
            (st\<lparr>ps_traces := dset (rg_trace_id rg) tr (ps_traces st)\<rparr>)) of
       (res, _, st') \<Rightarrow> (res, st'))"
    by (rule run_admitted [OF iffD2 [OF check_admits assms(6)]])
  let ?st = "st\<lparr>ps_traces := dset (rg_trace_id rg) tr (ps_traces st)\<rparr>"
  have asm: "fails_with ?e st1 (run_assemble pf rg P ctx prompt m mt system cs tr1 st1)" for m cs tr1 and st1 :: "(mem_store, 'c, 'w) pipe_state"
    unfolding run_assemble_def
  proof (rule fails_with_here)
    have "assemble E (pipe_budget P prompt mt system) (pipe_sources prompt system cs) (pl_weights P)
        (Some (pl_tokenizer P)) PIPE_MMR_LAMBDA = Inl ?e"
      using assms(1,3) by (simp add: assemble_def check_hard_reserves_def pipe_budget_def)
    then show "assemble_stage pf rg P ctx prompt m mt system cs sp st1 = (Inl ?e, sp, st1)" for sp
      by (simp add: assemble_stage_def assms(2) Let_def)
  qed
  have comp: "fails_with ?e st1 (seq (with_span rg 3 ''compress'' ''context-compression'' (compress_stage P prompt cs) tr1 st1)
      (\<lambda>candidates tr st. run_assemble pf rg P ctx prompt m mt system candidates tr st))"
    for m cs tr1 and st1 :: "(mem_store, 'c, 'w) pipe_state"
  proof (rule fails_with_pass)
    fix sp
    obtain s out w' where c: "compress_loop None (pl_compress_target P) (pl_tokenizer P) prompt cs 0 [] (ps_world st1) = (s, out, w')"
      by (rule prod_cases3)
    then show "\<exists>x sp'. compress_stage P prompt cs sp st1 = (Inr x, sp', st1)"
      using compress_loop_world [OF c] assms(4) by (auto simp: compress_stage_def)
  next
    fix x tr2 t
    show "fails_with ?e st1 (run_assemble pf rg P ctx prompt m mt system x tr2 (st1\<lparr>ps_traces := t\<rparr>))"
      using asm [of "st1\<lparr>ps_traces := t\<rparr>" m x tr2] by simp
  qed
  have "fails_with ?e ?st (run_miss pf rg P ctx prompt (chosen_model P model) mt system tr ?st)"
    unfolding run_miss_def
  proof (rule fails_with_pass)
    fix sp
    show "\<exists>x sp'. retrieve_stage pf rg P ctx prompt sp ?st = (Inr x, sp', ?st)"
    proof (cases "pl_memory P")
      case (Some BE)
      then obtain blake where BE: "BE = (inmem, hashing_provider blake DEFAULT_DIM)" and inv: "store_inv (ps_store st)"
        using assms(5) by (cases BE) (auto simp: retrieves_always_def)
      obtain cs where "retrieve inmem (hashing_provider blake DEFAULT_DIM) (pf_libm pf) (pf_set_order pf) ctx prompt
          RETRIEVE_K (rg_retrieve rg) (ps_store st) = Inr cs"
        by (rule engine.retrieve_ok [OF inv])
      then show ?thesis by (simp add: retrieve_stage_def Some BE)
    qed (simp add: retrieve_stage_def)
  next
    fix cs tr2 t
    show "fails_with ?e ?st (seq (with_span rg 3 ''compress'' ''context-compression'' (compress_stage P prompt cs) tr2
        (?st\<lparr>ps_traces := t\<rparr>)) (\<lambda>candidates tr st. run_assemble pf rg P ctx prompt (chosen_model P model) mt system candidates tr st))"
      using comp [of "?st\<lparr>ps_traces := t\<rparr>" cs tr2 "chosen_model P model"] by simp
  qed
  then show ?thesis using run assms(7) by (auto simp: fails_with_def)
qed

section \<open>Witnesses\<close>

definition fx_platform :: platform where
  "fx_platform = \<lparr>pf_sha = id, pf_b2 = id, pf_repr = (\<lambda>_. ''x''), pf_libm = fx_libm, pf_set_order = id\<rparr>"

abbreviation fx_embedder :: embedder where "fx_embedder \<equiv> hashing_provider fx_blake DEFAULT_DIM"

definition fx_cache :: "cache_store semantic_cache" where
  "fx_cache = \<lparr>cache_backend = mem_cache, cache_embedder = fx_embedder, cache_threshold = DEFAULT_TAU, cache_ttl = 60\<rparr>"

definition fx_plain :: "(mem_store, cache_store, unit) pipeline" where
  "fx_plain = (default_pipeline (fake_adapter DEFAULT_REPLY) None)\<lparr>pl_cache := Some fx_cache, pl_tokenizer := fx_count\<rparr>"

definition fx_pipeline :: "(mem_store, cache_store, unit) pipeline" where
  "fx_pipeline = fx_plain\<lparr>pl_memory := Some (inmem, fx_embedder), pl_assembler := Some fx_embedder,
     pl_compressor := Some None, pl_replay := True, pl_cost := True\<rparr>"

definition fx_state :: "(mem_store, cache_store, unit) pipe_state" where
  "fx_state = \<lparr>ps_traces = [], ps_store = empty_store, ps_cache = [], ps_bundles = [], ps_ledger = new_ledger None,
     ps_backends = [], ps_world = ()\<rparr>"

abbreviation fx_alice :: security_context where "fx_alice \<equiv> fx_ctx ''acme'' ''user:1''"

lemmas fx_pipe_defs = fx_pipeline_def fx_plain_def default_pipeline_def

lemma fx_pipe_simps [simp]:
  "pl_assembler fx_pipeline = Some fx_embedder" "pl_replay fx_pipeline"
  "pl_memory fx_pipeline = Some (inmem, fx_embedder)" "pl_router fx_pipeline = None"
  "pl_compressor fx_pipeline = Some None" "pl_weights fx_pipeline = default_weights"
  "pl_cache fx_pipeline = Some fx_cache" "pl_cache fx_plain = Some fx_cache" "pl_assembler fx_plain = None"
  "pl_memory fx_plain = None" "pl_router fx_plain = None" "pl_policy fx_pipeline = None" "pl_policy fx_plain = None"
  "pl_adapter fx_pipeline = fake_adapter DEFAULT_REPLY" "pl_adapter fx_plain = fake_adapter DEFAULT_REPLY"
  "pl_tokenizer fx_pipeline = fx_count" "pl_window_tokens fx_pipeline = 6000"
  "cache_backend fx_cache = mem_cache"
  by (simp_all add: fx_pipe_defs fx_cache_def)

lemma fx_state_simps [simp]:
  "ps_store fx_state = empty_store" "ps_cache fx_state = []" "ps_bundles fx_state = []" "ps_backends fx_state = []"
  by (simp_all add: fx_state_def)

lemma fx_trace_id [simp]: "rg_trace_id fx_readings = ''t1''"
  by (simp add: fx_readings_def)

lemma fake_always:
  "\<exists>resp w'. ad_generate (fake_adapter reply) req w = (Inr resp, w')"
  "\<exists>resp. ad_generate (fake_adapter reply) req () = (Inr resp, ())"
  by (simp_all add: fake_adapter_def)

lemma fx_admits: "admits fx_pipeline fx_alice" "admits fx_plain fx_alice"
proof -
  have "permits None fx_alice [(''type'', ''model''), (''tenant_id'', ''acme'')] ROUTE"
    by (simp add: permits_def same_tenant_def)
  then show "admits fx_pipeline fx_alice" "admits fx_plain fx_alice"
    by (simp_all add: evaluate_allowed_iff)
qed

lemma fx_budget_fits:
  "hard_floor (pipe_budget fx_pipeline ''hi'' 10 None) \<le> tb_window_tokens (pipe_budget fx_pipeline ''hi'' 10 None)"
  by (simp add: pipe_budget_def hard_floor_def fx_count_def or_else_def)

lemma fx_always:
  "assembles_always fx_pipeline ''hi'' 10 None" "assembles_always fx_plain ''hi'' 10 None"
  "retrieves_always fx_pipeline (ps_store fx_state)" "retrieves_always fx_plain (ps_store fx_state)"
  using fx_budget_fits
  by (auto simp: assembles_always_def retrieves_always_def validate_default_weights store_inv_empty)

lemma fx_run: "\<exists>r st'. run fx_platform fx_readings fx_pipeline fx_alice ''hi'' None 10 None fx_state = (Inr r, st')"
  by (rule run_succeeds) (simp_all add: fake_always fx_always [simplified] fx_admits [simplified])

lemma fx_run_plain: "\<exists>r st'. run fx_platform fx_readings fx_plain fx_alice ''hi'' None 10 None fx_state = (Inr r, st')"
  by (rule run_succeeds) (simp_all add: fake_always fx_always [simplified] fx_admits [simplified])

lemma lookup_empty: "lookup mem_cache sha (hashing_provider blake DEFAULT_DIM) thr ctx q m spv sfv clk [] = None"
proof -
  obtain v where "em_embed (hashing_provider blake DEFAULT_DIM) (normalize_query q) = Inr v"
    using hashing.embed_total by blast
  then show ?thesis
    by (simp add: lookup_def mem_cache_def get_exact_def search_semantic_def part_def Let_def)
qed

lemma fx_missed:
  "looked_up pf rg fx_pipeline ctx prompt model system fx_state = None"
  "looked_up pf rg fx_plain ctx prompt model system fx_state = None"
  by (simp_all add: pipe_lookup_def lookup_empty) (simp_all add: fx_cache_def lookup_empty)

lemma run_isolated_witness:
  "case run fx_platform fx_readings fx_pipeline fx_alice ''hi'' None 10 None fx_state of (res, st') \<Rightarrow>
    ps_store st' = empty_store \<and> bundle_get (fx_ctx ''globex'' ''user:1'') ''t1'' (ps_bundles st') = None"
  using run_isolated [where P = fx_pipeline and other = "fx_ctx ''globex'' ''user:1''" and ctx = fx_alice
      and pf = fx_platform and rg = fx_readings and prompt = "''hi''" and model = None and mt = 10 and system = None
      and st = fx_state and tid = "''t1''"]
  by (auto simp: bundle_get_def part_def split: prod.splits)

lemma run_replayable_witness:
  "\<exists>r st' rr. run fx_platform fx_readings fx_pipeline fx_alice ''hi'' None 10 None fx_state = (Inr r, st') \<and>
    replay id fx_embedder fx_count fx_alice ''t1'' RECORDED_OUTPUT (ps_bundles st') = Inr (Some rr) \<and> rr_prompt_equal rr"
proof -
  obtain r st' where r: "run fx_platform fx_readings fx_pipeline fx_alice ''hi'' None 10 None fx_state = (Inr r, st')"
    using fx_run by blast
  show ?thesis
    using run_replayable [OF r fx_missed(1)] r by (auto simp: fx_platform_def)
qed

text \<open>The same request after a memory has been written.\<close>

definition fx_known :: "(mem_store, cache_store, unit) pipe_state" where
  "fx_known = fx_state\<lparr>ps_store := snd (add_memory fx_alice (fx_memory ''acme'' ''user:1'' ''m1'' ''likes tea'') empty_store)\<rparr>"

lemma fx_known_inv: "store_inv (ps_store fx_known)"
  by (simp add: fx_known_def store_inv_add store_inv_empty)

lemma fx_known_missed: "looked_up pf rg fx_pipeline ctx prompt model system fx_known = None"
  using fx_missed(1) by (simp add: pipe_lookup_def fx_known_def)


text \<open>Without memory the answer is cached.\<close>

lemma cached_memory_free_witness:
  "\<exists>r st' a m w w' resp. run fx_platform fx_readings fx_plain fx_alice ''hi'' None 10 None fx_state = (Inr r, st') \<and>
    ps_cache st' \<noteq> [] \<and> a \<in> adapters_of fx_plain [] \<and>
    ad_generate a (mk_request m (passthrough ''hi'' None) 10) w = (Inr resp, w') \<and> res_text r = rs_text resp"
proof -
  obtain r st' where r: "run fx_platform fx_readings fx_plain fx_alice ''hi'' None 10 None fx_state = (Inr r, st')"
    using fx_run_plain by blast
  obtain cs msgs injected bundles decision model1 w1 resp model' reg w where
    a: "assembles fx_platform fx_readings fx_plain fx_alice ''hi'' (chosen_model fx_plain None) 10 None cs [] msgs injected bundles"
    and i: "invokes fx_readings fx_plain decision model1 msgs 10 [] w1 resp model' reg w"
    and c: "ps_cache st' = written_cache fx_platform fx_readings fx_plain fx_alice ''hi'' None injected resp model' []"
    by (rule run_miss_answeredE [OF r fx_missed(2)]) simp
  have inj: "injected = 0" using a by (simp add: assembles_def)
  have "rs_finish_reason resp \<noteq> None"
    using i by (cases decision)
      (auto simp: invokes_def fake_adapter_def fake_generate_def invoke_routed_def registry_get_def registry_all_def Let_def dest!: invoke_loop_adapter
        split: option.splits)
  moreover obtain v where "em_embed fx_embedder (normalize_query ''hi'') = Inr v"
    using hashing.embed_total by blast
  ultimately have "ps_cache st' \<noteq> []"
    by (simp add: c inj written_cache_def fx_cache_def writeback_op_def store_def or_ttl_def add_seconds_def fx_readings_def
        DATETIME_MIN_def DATETIME_MAX_def mem_cache_def cache_put_def tput_def)
  then have "ps_cache st' \<noteq> ps_cache fx_state" by simp
  from cached_memory_free [OF r this] show ?thesis
    using r \<open>ps_cache st' \<noteq> []\<close> unfolding fx_state_simps by blast
qed

end
