(* ===== verification/Versioning.thy ===== *)
theory Versioning
  imports Memory Fixtures
begin

text \<open>
  \<^verbatim>\<open>versioning/engine.py\<close>: commits of the memory state of a scope, branch heads, diffs and the
  append-only rollback. The engine below is any storage backend; the client lemmas are proved once
  in the \<open>storage\<close> locale and used on the in-memory store. The abstract view of a scope is the map
  from ids to readable memories: a rollback refines map override by the snapshot's missing rows.
\<close>

section \<open>Instants as text\<close>

text \<open>\<^verbatim>\<open>to_rfc3339\<close>: the proleptic Gregorian date of an instant in microseconds, from the day number
  of the civil calendar with years that start in March; microseconds only when there are any.\<close>

definition civil :: "int \<Rightarrow> int \<times> int \<times> int" where
  "civil days =
     (let z = days + 719468; era = z div 146097; doe = z mod 146097;
          yoe = (doe - doe div 1460 + doe div 36524 - doe div 146096) div 365;
          doy = doe - (365 * yoe + yoe div 4 - yoe div 100);
          mp = (5 * doy + 2) div 153;
          d = doy - (153 * mp + 2) div 5 + 1;
          m = (if mp < 10 then mp + 3 else mp - 9)
      in (yoe + era * 400 + (if m \<le> 2 then 1 else 0), m, d))"

definition pad :: "nat \<Rightarrow> int \<Rightarrow> string" where
  "pad k n = (let s = str_of_int n in replicate (k - length s) CHR ''0'' @ s)"

definition to_rfc3339 :: "int \<Rightarrow> string" where
  "to_rfc3339 us =
     (let (y, m, d) = civil (us div 86400000000); t = us mod 86400000000;
          frac = t mod 1000000; sec = t div 1000000
      in pad 4 y @ ''-'' @ pad 2 m @ ''-'' @ pad 2 d @ ''T'' @ pad 2 (sec div 3600) @ '':''
         @ pad 2 (sec div 60 mod 60) @ '':'' @ pad 2 (sec mod 60)
         @ (if frac = 0 then [] else ''.'' @ pad 6 frac) @ ''Z'')"

section \<open>Commits and branches\<close>

definition COMMIT_LIMIT :: nat where "COMMIT_LIMIT = 4096"

record commit =
  co_cid :: string
  co_branch :: string
  co_label :: string
  co_created_at :: string
  co_snapshot :: "memory_object list"

record versioning =
  vs_commits :: "(string, (string, commit) dict) dict"
  vs_branches :: "(string, (string, string option) dict) dict"

definition new_versioning :: versioning where
  "new_versioning = \<lparr>vs_commits = [], vs_branches = []\<rparr>"

definition commit_memories ::
  "'s storage_backend \<Rightarrow> security_context \<Rightarrow> string \<Rightarrow> string \<Rightarrow> string \<Rightarrow> int \<Rightarrow> 's \<Rightarrow> versioning \<Rightarrow>
   string \<times> versioning" where
  "commit_memories B ctx label branch ulid now s vs =
     (let c = \<lparr>co_cid = ulid, co_branch = branch, co_label = label, co_created_at = to_rfc3339 now,
            co_snapshot = all_memories B ctx COMMIT_LIMIT s\<rparr>
      in (ulid, \<lparr>vs_commits = tput (ctx_tenant_id ctx) ulid c (vs_commits vs),
           vs_branches = tput (ctx_tenant_id ctx) branch (Some ulid) (vs_branches vs)\<rparr>))"

text \<open>\<^verbatim>\<open>heads[name] = heads.get(from_branch)\<close>.\<close>

definition branch_from :: "security_context \<Rightarrow> string \<Rightarrow> string \<Rightarrow> versioning \<Rightarrow> versioning" where
  "branch_from ctx name from_branch vs =
     (let head = (case dget (part (vs_branches vs) (ctx_tenant_id ctx)) from_branch of
            None \<Rightarrow> None | Some h \<Rightarrow> h)
      in vs\<lparr>vs_branches := tput (ctx_tenant_id ctx) name head (vs_branches vs)\<rparr>)"

definition branches :: "security_context \<Rightarrow> versioning \<Rightarrow> (string, string option) dict" where
  "branches ctx vs = part (vs_branches vs) (ctx_tenant_id ctx)"

definition commit_get :: "security_context \<Rightarrow> string \<Rightarrow> versioning \<Rightarrow> commit option" where
  "commit_get ctx cid vs = dget (part (vs_commits vs) (ctx_tenant_id ctx)) cid"

section \<open>Diff\<close>

record memory_diff =
  md_added :: "string list"
  md_removed :: "string list"
  md_changed :: "string list"

text \<open>\<^verbatim>\<open>{m.id: m.content for m in snapshot}\<close>.\<close>

definition content_map :: "memory_object list \<Rightarrow> (string, string) dict" where
  "content_map ms = foldl (\<lambda>d m. dset (mo_id m) (mo_content m) d) [] ms"

definition diff_snapshots :: "memory_object list \<Rightarrow> memory_object list \<Rightarrow> memory_diff" where
  "diff_snapshots a b =
     (let a_map = content_map a; b_map = content_map b
      in \<lparr>md_added = sort (filter (\<lambda>i. dget a_map i = None) (dkeys b_map)),
          md_removed = sort (filter (\<lambda>i. dget b_map i = None) (dkeys a_map)),
          md_changed = sort (filter (\<lambda>i. dget b_map i \<noteq> None \<and> dget a_map i \<noteq> dget b_map i) (dkeys a_map))\<rparr>)"

definition diff_commits :: "security_context \<Rightarrow> string \<Rightarrow> string \<Rightarrow> versioning \<Rightarrow> memory_diff result" where
  "diff_commits ctx a_cid b_cid vs =
     (case (commit_get ctx a_cid vs, commit_get ctx b_cid vs) of
        (Some a, Some b) \<Rightarrow> Inr (diff_snapshots (co_snapshot a) (co_snapshot b))
      | _ \<Rightarrow> Inl (UnknownCommit ''unknown commit for this tenant''))"

section \<open>Rollback\<close>

fun rollback_loop ::
  "'s storage_backend \<Rightarrow> security_context \<Rightarrow> string set \<Rightarrow> memory_object list \<Rightarrow> nat \<Rightarrow> 's \<Rightarrow> nat result \<times> 's" where
  "rollback_loop B ctx present [] restored s = (Inr restored, s)"
| "rollback_loop B ctx present (m # ms) restored s =
     (if mo_id m \<in> present then rollback_loop B ctx present ms restored s
      else case mem_put B ctx m s of
          (Inl e, s') \<Rightarrow> (Inl e, s')
        | (Inr _, s') \<Rightarrow> rollback_loop B ctx present ms (Suc restored) s')"

definition rollback ::
  "'s storage_backend \<Rightarrow> security_context \<Rightarrow> string \<Rightarrow> versioning \<Rightarrow> 's \<Rightarrow> nat result \<times> 's" where
  "rollback B ctx cid vs s =
     (case commit_get ctx cid vs of
        None \<Rightarrow> (Inl (UnknownCommit ''unknown commit for this tenant''), s)
      | Some c \<Rightarrow> rollback_loop B ctx (set (map mo_id (all_memories B ctx COMMIT_LIMIT s)))
          (co_snapshot c) 0 s)"

section \<open>Rollback restores the missing rows\<close>

text \<open>What a context can read, as a map.\<close>

definition snapshot_map :: "memory_object list \<Rightarrow> string \<Rightarrow> memory_object option" where
  "snapshot_map ms i = find (\<lambda>m. mo_id m = i) ms"

context storage
begin

definition readable :: "security_context \<Rightarrow> 's \<Rightarrow> string \<Rightarrow> memory_object option" where
  "readable ctx s i = sb_get_memory B ctx i s"

lemma rollback_loop_ok:
  assumes "\<forall>m \<in> set ms. in_scope ctx m" and "distinct (map mo_id ms)"
  shows "\<exists>s'. rollback_loop B ctx present ms n s =
      (Inr (n + length (filter (\<lambda>m. mo_id m \<notin> present) ms)), s') \<and> (inv s \<longrightarrow> inv s') \<and>
    (\<forall>i. readable ctx s' i = (case snapshot_map (filter (\<lambda>m. mo_id m \<notin> present) ms) i of
       Some m \<Rightarrow> Some m | None \<Rightarrow> readable ctx s i))"
  using assms
proof (induction ms arbitrary: n s)
  case Nil
  then show ?case by (simp add: snapshot_map_def)
next
  case (Cons m ms)
  show ?case
  proof (cases "mo_id m \<in> present")
    case True
    then show ?thesis using Cons by simp
  next
    case False
    obtain s1 where s1: "sb_add_memory B ctx m s = (Inr m, s1)"
      using add_cases [of ctx m s] Cons.prems(1) by (metis list.set_intros(1))
    obtain s' where s': "rollback_loop B ctx present ms (Suc n) s1 =
        (Inr (Suc n + length (filter (\<lambda>m. mo_id m \<notin> present) ms)), s')" "inv s1 \<longrightarrow> inv s'"
      "\<And>i. readable ctx s' i = (case snapshot_map (filter (\<lambda>m. mo_id m \<notin> present) ms) i of
         Some m \<Rightarrow> Some m | None \<Rightarrow> readable ctx s1 i)"
      using Cons.IH [of "Suc n" s1] Cons.prems by auto
    have "inv s \<longrightarrow> inv s1" using add_inv [of s ctx m] s1 by simp
    moreover have "readable ctx s1 i = (if i = mo_id m then Some m else readable ctx s i)" for i
      using get_after_add [of ctx m s] get_after_add_other [of i m ctx ctx s] Cons.prems(1) s1
      by (simp add: readable_def)
    moreover have "find (\<lambda>x. mo_id x = mo_id m) (filter (\<lambda>m. mo_id m \<notin> present) ms) = None"
      using Cons.prems(2) by (auto simp: find_None_iff) (metis image_eqI)
    ultimately show ?thesis using s' s1 False
      by (auto simp: mem_put_def snapshot_map_def split: option.splits)
  qed
qed

end

section \<open>Tenants do not share a history\<close>

datatype version_op =
    VCommit security_context string string string int mem_store
  | VBranch security_context string string

fun version_step :: "version_op \<Rightarrow> versioning \<Rightarrow> versioning" where
  "version_step (VCommit ctx label branch ulid now s) vs =
     snd (commit_memories inmem ctx label branch ulid now s vs)"
| "version_step (VBranch ctx name from_branch) vs = branch_from ctx name from_branch vs"

fun version_owner :: "version_op \<Rightarrow> string" where
  "version_owner (VCommit ctx label branch ulid now s) = ctx_tenant_id ctx"
| "version_owner (VBranch ctx name from_branch) = ctx_tenant_id ctx"

interpretation version_iso: tenant_scoped "\<lambda>t vs. (part (vs_commits vs) t, part (vs_branches vs) t)"
  version_step version_owner
proof
  fix op t and vs vs' :: versioning
  let ?view = "\<lambda>vs. (part (vs_commits vs) t, part (vs_branches vs) t)"
  show "version_owner op \<noteq> t \<Longrightarrow> ?view (version_step op vs) = ?view vs"
    by (cases op) (auto simp: commit_memories_def branch_from_def Let_def)
  show "version_owner op = t \<Longrightarrow> ?view vs = ?view vs' \<Longrightarrow> ?view (version_step op vs) = ?view (version_step op vs')"
    by (cases op) (auto simp: commit_memories_def branch_from_def Let_def)
qed

lemma commit_get_commit:
  "commit_memories B ctx label branch ulid now s vs = (cid, vs') \<Longrightarrow>
   \<exists>c. commit_get ctx cid vs' = Some c \<and> co_snapshot c = all_memories B ctx COMMIT_LIMIT s \<and>
     dget (branches ctx vs') branch = Some (Some cid)"
  by (auto simp: commit_memories_def commit_get_def branches_def Let_def)

section \<open>Snapshots of the in-memory store\<close>

lemma snapshot_map_None: "snapshot_map ms i = None \<longleftrightarrow> i \<notin> set (map mo_id ms)"
  by (auto simp: snapshot_map_def find_None_iff)

lemma snapshot_map_filter:
  "snapshot_map (filter (\<lambda>m. mo_id m \<notin> X) ms) i = (if i \<in> X then None else snapshot_map ms i)"
  by (induction ms) (auto simp: snapshot_map_def)

lemma snapshot_map_list:
  assumes "store_inv s" and "length (list_memories ctx n s) < n"
  shows "snapshot_map (list_memories ctx n s) i = get_memory ctx i s"
proof (cases "get_memory ctx i s")
  case None
  then have "i \<notin> set (map mo_id (list_memories ctx n s))"
    using inmem.list_get [OF assms(1), of _ ctx n] by (fastforce simp: inmem_def)
  then show ?thesis using None snapshot_map_None by metis
next
  case (Some m)
  have get: "\<And>x. x \<in> set (list_memories ctx n s) \<Longrightarrow> get_memory ctx (mo_id x) s = Some x"
    using inmem.list_get [OF assms(1), of _ ctx n] by (simp add: inmem_def)
  have "m \<in> set (list_memories ctx n s)"
    using inmem.list_complete [OF assms(1), of ctx i m n] assms(2) Some by (simp add: inmem_def)
  moreover have "mo_id m = i"
    using inmem.get_scoped [OF assms(1), of ctx i m] Some by (simp add: inmem_def)
  ultimately have "snapshot_map (list_memories ctx n s) i \<noteq> None"
    unfolding snapshot_map_None by auto
  then obtain x where x: "snapshot_map (list_memories ctx n s) i = Some x" by blast
  then have "x \<in> set (list_memories ctx n s)" "mo_id x = i"
    by (auto simp: snapshot_map_def find_Some_iff)
  then show ?thesis using get [of x] x by simp
qed

lemma present_ids:
  assumes "store_inv s" and "length (list_memories ctx n s) < n"
  shows "i \<in> set (map mo_id (list_memories ctx n s)) \<longleftrightarrow> get_memory ctx i s \<noteq> None"
  using snapshot_map_list [OF assms, of i] snapshot_map_None [of "list_memories ctx n s" i] by auto

section \<open>Properties\<close>

text \<open>C28: A rollback refines map override. Rolling a scope back to a commit of its own leaves, for
  every id, the memory readable now if there is one, and otherwise the memory readable when the
  commit was made; it reports the number of rows it wrote, and the store's invariant holds after
  it. Both listings must have been complete, that is shorter than the commit limit.\<close>

theorem rollback_overrides:
  assumes "store_inv s0" and "store_inv s"
    and "length (list_memories ctx COMMIT_LIMIT s0) < COMMIT_LIMIT"
    and "length (list_memories ctx COMMIT_LIMIT s) < COMMIT_LIMIT"
    and "commit_memories inmem ctx label branch ulid now s0 vs = (cid, vs')"
  shows "\<exists>n s'. rollback inmem ctx cid vs' s = (Inr n, s') \<and> store_inv s' \<and>
    (\<lambda>i. get_memory ctx i s') = (\<lambda>i. get_memory ctx i s0) ++ (\<lambda>i. get_memory ctx i s) \<and>
    n = length (filter (\<lambda>m. get_memory ctx (mo_id m) s = None) (list_memories ctx COMMIT_LIMIT s0))"
proof -
  let ?snap = "list_memories ctx COMMIT_LIMIT s0"
  let ?present = "set (map mo_id (list_memories ctx COMMIT_LIMIT s))"
  obtain c where c: "commit_get ctx cid vs' = Some c" "co_snapshot c = ?snap"
    using commit_get_commit [OF assms(5)] by (auto simp: all_memories_def inmem_def)
  have scoped: "\<forall>m \<in> set ?snap. in_scope ctx m"
    using inmem.list_scoped [OF assms(1), of _ ctx COMMIT_LIMIT] by (simp add: inmem_def)
  have dist: "distinct (map mo_id ?snap)"
    using inmem.list_distinct [OF assms(1), of ctx COMMIT_LIMIT] by (simp add: inmem_def)
  obtain s' where loop: "rollback_loop inmem ctx ?present ?snap 0 s =
      (Inr (0 + length (filter (\<lambda>m. mo_id m \<notin> ?present) ?snap)), s')" "store_inv s \<longrightarrow> store_inv s'"
    "\<forall>i. inmem.readable ctx s' i = (case snapshot_map (filter (\<lambda>m. mo_id m \<notin> ?present) ?snap) i of
       Some m \<Rightarrow> Some m | None \<Rightarrow> inmem.readable ctx s i)"
    using inmem.rollback_loop_ok [OF scoped dist, of ?present 0 s] by blast
  have run: "rollback inmem ctx cid vs' s = rollback_loop inmem ctx ?present ?snap 0 s"
    by (simp add: rollback_def c all_memories_def inmem_def)
  have get: "get_memory ctx i s' = ((\<lambda>i. get_memory ctx i s0) ++ (\<lambda>i. get_memory ctx i s)) i" for i
  proof -
    have r: "inmem.readable ctx x = (\<lambda>i. get_memory ctx i x)" for x
      unfolding inmem.readable_def by (simp add: inmem_def)
    have "get_memory ctx i s' = (case snapshot_map (filter (\<lambda>m. mo_id m \<notin> ?present) ?snap) i of
       Some m \<Rightarrow> Some m | None \<Rightarrow> get_memory ctx i s)"
      using loop(3) unfolding r by blast
    then have "get_memory ctx i s' = (case if get_memory ctx i s \<noteq> None then None else get_memory ctx i s0 of
       Some m \<Rightarrow> Some m | None \<Rightarrow> get_memory ctx i s)"
      unfolding snapshot_map_filter unfolding snapshot_map_list [OF assms(1,3)] present_ids [OF assms(2,4)] .
    then show ?thesis
      by (auto simp: map_add_def split: option.splits)
  qed
  have cnt: "filter (\<lambda>m. mo_id m \<notin> ?present) ?snap = filter (\<lambda>m. get_memory ctx (mo_id m) s = None) ?snap"
    unfolding present_ids [OF assms(2,4)] by simp
  show ?thesis
    using run loop(1,2) assms(2) get unfolding cnt by (intro exI [of _ s'] exI) (simp add: fun_eq_iff)
qed

text \<open>A commit belongs to a tenant but its rows to a namespace: rolled back from another namespace
  of the tenant, a commit whose first row is not readable there raises an access error and
  changes nothing.\<close>

theorem rollback_foreign_namespace:
  assumes "commit_get ctx cid vs = Some c" and "co_snapshot c = m # ms"
    and "mo_namespace m \<noteq> ctx_namespace ctx" and "get_memory ctx (mo_id m) s = None" and "store_inv s"
  shows "\<exists>msg. rollback inmem ctx cid vs s = (Inl (AccessDenied msg), s)"
proof -
  have "mo_id m \<notin> set (map mo_id (list_memories ctx COMMIT_LIMIT s))"
    using inmem.list_get [OF assms(5), of _ ctx COMMIT_LIMIT] assms(4) by (fastforce simp: inmem_def)
  moreover have "\<not> in_scope ctx m" using assms(3) by (simp add: in_scope_def)
  then obtain msg where "sb_add_memory inmem ctx m s = (Inl (AccessDenied msg), s)"
    using inmem.add_out_of_scope by blast
  ultimately show ?thesis
    using assms(1,2) by (simp add: rollback_def all_memories_def inmem_def mem_put_def)
qed

lemma content_map_get:
  "distinct (map mo_id ms) \<Longrightarrow> dget (content_map ms) i = map_option mo_content (snapshot_map ms i)"
  by (simp add: content_map_def dget_foldl_dset snapshot_map_def split: option.splits)

lemma content_map_keys: "distinct (dkeys (content_map ms))"
  unfolding content_map_def by (induction ms rule: rev_induct) (simp_all add: distinct_dkeys_dset)

lemma dkeys_dget: "k \<in> set (dkeys d) \<longleftrightarrow> dget d k \<noteq> None"
  by (simp add: map_of_eq_None_iff)

lemma map_eq_iff_diff:
  "(A :: 'a \<Rightarrow> 'b option) = B \<longleftrightarrow>
     dom B - dom A = {} \<and> dom A - dom B = {} \<and> {i \<in> dom A \<inter> dom B. A i \<noteq> B i} = {}"
proof
  assume R: "dom B - dom A = {} \<and> dom A - dom B = {} \<and> {i \<in> dom A \<inter> dom B. A i \<noteq> B i} = {}"
  show "A = B"
  proof
    fix i
    have "i \<in> dom A \<longleftrightarrow> i \<in> dom B" using R by blast
    then show "A i = B i"
    proof (cases "i \<in> dom A")
      case True
      then have "i \<notin> {i \<in> dom A \<inter> dom B. A i \<noteq> B i}" using R by (simp only: empty_iff) simp
      then show ?thesis using True \<open>i \<in> dom A \<longleftrightarrow> i \<in> dom B\<close> by simp
    next
      case False
      then show ?thesis using \<open>i \<in> dom A \<longleftrightarrow> i \<in> dom B\<close> by (simp add: domIff)
    qed
  qed
qed simp

text \<open>The diff of two commits is exact. Ids are reported as added, removed or changed just when
  they are readable only in the second, only in the first, or in both with other content; swapping
  the commits swaps added and removed and keeps changed; and nothing is reported just when both
  hold the same contents.\<close>

theorem diff_snapshots_exact:
  assumes "distinct (map mo_id a)" and "distinct (map mo_id b)"
  defines "A \<equiv> \<lambda>i. map_option mo_content (snapshot_map a i)"
    and "B \<equiv> \<lambda>i. map_option mo_content (snapshot_map b i)"
  shows "set (md_added (diff_snapshots a b)) = dom B - dom A \<and>
    md_removed (diff_snapshots a b) = md_added (diff_snapshots b a) \<and>
    set (md_changed (diff_snapshots a b)) = {i \<in> dom A \<inter> dom B. A i \<noteq> B i} \<and>
    md_changed (diff_snapshots a b) = md_changed (diff_snapshots b a) \<and>
    (md_added (diff_snapshots a b) @ md_removed (diff_snapshots a b) @ md_changed (diff_snapshots a b) = []
       \<longleftrightarrow> A = B)"
proof -
  have get: "dget (content_map a) = A" "dget (content_map b) = B"
    using content_map_get [OF assms(1)] content_map_get [OF assms(2)] by (auto simp: A_def B_def)
  have keys: "set (dkeys (content_map a)) = dom A" "set (dkeys (content_map b)) = dom B"
    by (rule set_eqI, simp only: dkeys_dget get dom_def mem_Collect_eq)+
  have d: "md_added (diff_snapshots a b) = sort (filter (\<lambda>i. A i = None) (dkeys (content_map b)))"
    "md_removed (diff_snapshots a b) = sort (filter (\<lambda>i. B i = None) (dkeys (content_map a)))"
    "md_changed (diff_snapshots a b) = sort (filter (\<lambda>i. B i \<noteq> None \<and> A i \<noteq> B i) (dkeys (content_map a)))"
    "md_added (diff_snapshots b a) = sort (filter (\<lambda>i. B i = None) (dkeys (content_map a)))"
    "md_changed (diff_snapshots b a) = sort (filter (\<lambda>i. A i \<noteq> None \<and> B i \<noteq> A i) (dkeys (content_map b)))"
    by (simp_all add: diff_snapshots_def Let_def get)
  have sets: "set (md_added (diff_snapshots a b)) = dom B - dom A"
    "set (md_removed (diff_snapshots a b)) = dom A - dom B"
    "set (md_changed (diff_snapshots a b)) = {i \<in> dom A \<inter> dom B. A i \<noteq> B i}"
    "set (md_changed (diff_snapshots b a)) = {i \<in> dom A \<inter> dom B. A i \<noteq> B i}"
    unfolding d set_sort set_filter keys by (auto simp: dom_def)
  have "md_changed (diff_snapshots a b) = md_changed (diff_snapshots b a)"
    by (rule sorted_distinct_set_unique)
      (simp_all only: sets, simp_all only: d sorted_sort distinct_sort distinct_filter content_map_keys)
  moreover have "md_added (diff_snapshots a b) @ md_removed (diff_snapshots a b) @ md_changed (diff_snapshots a b) = []
      \<longleftrightarrow> A = B"
    unfolding map_eq_iff_diff sets [symmetric] by simp
  moreover have "md_removed (diff_snapshots a b) = md_added (diff_snapshots b a)"
    by (simp only: d)
  ultimately show ?thesis using sets by blast
qed

section \<open>Witnesses\<close>

definition fx_store :: "string list \<Rightarrow> mem_store" where
  "fx_store ids = fold (\<lambda>i s. snd (add_memory (fx_ctx ''acme'' ''user:1'')
     (fx_memory ''acme'' ''user:1'' i ''note'') s)) ids empty_store"

lemma fx_store_inv: "store_inv (fx_store ids)"
  unfolding fx_store_def
  by (rule fold_invariant [where Q = "\<lambda>_. True" and P = store_inv]) (simp_all add: store_inv_empty store_inv_add)

lemma fx_store_list:
  "length (list_memories (fx_ctx ''acme'' ''user:1'') COMMIT_LIMIT (fx_store [''a'', ''b''])) < COMMIT_LIMIT"
  "length (list_memories (fx_ctx ''acme'' ''user:1'') COMMIT_LIMIT empty_store) < COMMIT_LIMIT"
  by (simp_all add: fx_store_def add_memory_def list_memories_def COMMIT_LIMIT_def empty_store_def tput_def part_def)

lemma rollback_overrides_witness:
  "\<exists>n s'. rollback inmem (fx_ctx ''acme'' ''user:1'') ''c1''
      (snd (commit_memories inmem (fx_ctx ''acme'' ''user:1'') [] ''main'' ''c1'' 0 (fx_store [''a'', ''b'']) new_versioning))
      empty_store = (Inr n, s') \<and>
    get_memory (fx_ctx ''acme'' ''user:1'') ''a'' s' = Some (fx_memory ''acme'' ''user:1'' ''a'' ''note'')"
proof -
  let ?ctx = "fx_ctx ''acme'' ''user:1''" and ?s = "fx_store [''a'', ''b'']"
  have c: "commit_memories inmem ?ctx [] ''main'' ''c1'' 0 ?s new_versioning =
      (''c1'', snd (commit_memories inmem ?ctx [] ''main'' ''c1'' 0 ?s new_versioning))"
    by (simp add: commit_memories_def Let_def)
  obtain n s' where r: "rollback inmem ?ctx ''c1''
      (snd (commit_memories inmem ?ctx [] ''main'' ''c1'' 0 ?s new_versioning)) empty_store = (Inr n, s')"
    "(\<lambda>i. get_memory ?ctx i s') = (\<lambda>i. get_memory ?ctx i ?s) ++ (\<lambda>i. get_memory ?ctx i empty_store)"
    using rollback_overrides [OF fx_store_inv store_inv_empty fx_store_list c] by blast
  have "get_memory ?ctx ''a'' s' = Some (fx_memory ''acme'' ''user:1'' ''a'' ''note'')"
    using fun_cong [OF r(2), of "''a''"]
    by (simp add: map_add_def fx_store_def add_memory_def get_memory_def empty_store_def)
  then show ?thesis using r(1) by blast
qed

lemma rollback_foreign_namespace_witness:
  "\<exists>msg. rollback inmem (fx_ctx ''acme'' ''user:2'') ''c1''
      (snd (commit_memories inmem (fx_ctx ''acme'' ''user:1'') [] ''main'' ''c1'' 0 (fx_store [''a'']) new_versioning))
      empty_store = (Inl (AccessDenied msg), empty_store)"
proof -
  let ?vs = "snd (commit_memories inmem (fx_ctx ''acme'' ''user:1'') [] ''main'' ''c1'' 0 (fx_store [''a'']) new_versioning)"
  obtain c where c: "commit_get (fx_ctx ''acme'' ''user:2'') ''c1'' ?vs = Some c"
    "co_snapshot c = [fx_memory ''acme'' ''user:1'' ''a'' ''note'']"
    by (auto simp: commit_memories_def Let_def commit_get_def new_versioning_def all_memories_def inmem_def
        fx_store_def add_memory_def list_memories_def empty_store_def COMMIT_LIMIT_def tput_def part_def)
  show ?thesis
    using rollback_foreign_namespace [OF c _ _ store_inv_empty] by (simp add: get_memory_def empty_store_def)
qed

lemma diff_snapshots_exact_witness:
  "set (md_added (diff_snapshots [fx_memory ''t'' ''n'' ''a'' ''x''] [fx_memory ''t'' ''n'' ''b'' ''y''])) = {''b''}"
  using diff_snapshots_exact [of "[fx_memory ''t'' ''n'' ''a'' ''x'']" "[fx_memory ''t'' ''n'' ''b'' ''y'']"]
  by (auto simp: snapshot_map_def dom_def split: if_splits)

end
