(* ===== verification/OpenAI.thy ===== *)
theory OpenAI
  imports Adapters Json Fixtures
begin

text \<open>
  \<^verbatim>\<open>adapters/openai_compatible.py\<close> and its three configurations. The HTTP client \<^verbatim>\<open>httpx\<close> is
  the record \<open>http_client\<close> of the calls the source makes of it, threading the world \<open>'w\<close>: each
  call may raise. The validation of a response's fields by \<^verbatim>\<open>pydantic\<close> is the record \<open>schema\<close>,
  and \<^verbatim>\<open>json.loads\<close> of a line of a stream is a parameter; the theorems assume of them that they
  accept values of the declared type. What the source does with what these return, with every
  exception of a subscript or an attribute, is modelled.
\<close>

section \<open>The parameters\<close>

record 'w http_client =
  hc_get :: "flt \<Rightarrow> string \<Rightarrow> (string, string) dict \<Rightarrow> 'w \<Rightarrow> int result \<times> 'w"
  hc_post :: "flt \<Rightarrow> string \<Rightarrow> (string, string) dict \<Rightarrow> json \<Rightarrow> 'w \<Rightarrow> (int \<times> json result) result \<times> 'w"
  hc_stream :: "flt \<Rightarrow> string \<Rightarrow> (string, string) dict \<Rightarrow> json \<Rightarrow> 'w \<Rightarrow>
    (int \<times> string list \<times> pyexn option) result \<times> 'w"
  hc_raise_for_status :: "int \<Rightarrow> unit result"

record schema =
  sc_str :: "json \<Rightarrow> string result"
  sc_int :: "json \<Rightarrow> int result"

section \<open>Reading JSON as the source does\<close>

definition TYPE_ERROR :: pyexn where "TYPE_ERROR = AdapterError ''TypeError''"

definition ATTRIBUTE_ERROR :: pyexn where "ATTRIBUTE_ERROR = AdapterError ''AttributeError''"

text \<open>\<^verbatim>\<open>j[key]\<close>, \<^verbatim>\<open>j[0]\<close> and \<^verbatim>\<open>j.get(key, default)\<close> of a parsed value.\<close>

definition sub_key :: "json \<Rightarrow> string \<Rightarrow> json result" where
  "sub_key j key = (case j of JObj kvs \<Rightarrow> dlookup kvs key | _ \<Rightarrow> Inl TYPE_ERROR)"

definition sub_zero :: "json \<Rightarrow> json result" where
  "sub_zero j = (case j of
     JArr (x # _) \<Rightarrow> Inr x | JArr [] \<Rightarrow> Inl IndexError
   | JStr (c # _) \<Rightarrow> Inr (JStr [c]) | JStr [] \<Rightarrow> Inl IndexError
   | JObj _ \<Rightarrow> Inl (KeyError ''0'') | _ \<Rightarrow> Inl TYPE_ERROR)"

definition get_default :: "json \<Rightarrow> string \<Rightarrow> json \<Rightarrow> json result" where
  "get_default j key d = (case j of
     JObj kvs \<Rightarrow> Inr (case dget kvs key of None \<Rightarrow> d | Some v \<Rightarrow> v) | _ \<Rightarrow> Inl ATTRIBUTE_ERROR)"

fun json_truthy :: "json \<Rightarrow> bool" where
  "json_truthy JNull = False"
| "json_truthy (JBool b) = b"
| "json_truthy (JInt i) = (i \<noteq> 0)"
| "json_truthy (JFloat x) = (x \<noteq> 0)"
| "json_truthy (JStr s) = (s \<noteq> [])"
| "json_truthy (JArr xs) = (xs \<noteq> [])"
| "json_truthy (JObj kvs) = (kvs \<noteq> [])"

section \<open>The adapter\<close>

record openai_config =
  oa_name :: string
  oa_base_url :: string
  oa_model :: string
  oa_api_key :: "string option"
  oa_prefix_cache :: bool
  oa_timeout :: flt

definition rstrip_slash :: "string \<Rightarrow> string" where
  "rstrip_slash s = rev (dropWhile (\<lambda>c. c = CHR ''/'') (rev s))"

definition new_openai_config ::
  "string \<Rightarrow> string \<Rightarrow> string option \<Rightarrow> string \<Rightarrow> bool \<Rightarrow> openai_config" where
  "new_openai_config base_url model api_key name prefix_cache = \<lparr>oa_name = name,
     oa_base_url = rstrip_slash base_url, oa_model = model, oa_api_key = api_key,
     oa_prefix_cache = prefix_cache, oa_timeout = 60\<rparr>"

definition oa_capabilities :: "openai_config \<Rightarrow> capabilities" where
  "oa_capabilities c = default_capabilities\<lparr>cap_streaming := True, cap_prefix_cache := oa_prefix_cache c\<rparr>"

definition oa_headers :: "openai_config \<Rightarrow> (string, string) dict" where
  "oa_headers c = (let h = [(''Content-Type'', ''application/json'')]
     in if truthy (oa_api_key c) then dset ''Authorization'' (''Bearer '' @ the (oa_api_key c)) h else h)"

definition message_json :: "chat_message \<Rightarrow> json" where
  "message_json m = JObj [(''role'', JStr (role_value (cm_role m))), (''content'', JStr (cm_content m))]"

definition oa_payload :: "openai_config \<Rightarrow> chat_request \<Rightarrow> bool \<Rightarrow> json" where
  "oa_payload c req stream = JObj [
     (''model'', JStr (if rq_model req = [] then oa_model c else rq_model req)),
     (''messages'', JArr (map message_json (rq_messages req))),
     (''max_tokens'', JInt (rq_max_tokens req)), (''temperature'', JFloat (rq_temperature req)),
     (''stream'', JBool stream)]"

definition oa_health_check :: "'w http_client \<Rightarrow> openai_config \<Rightarrow> 'w \<Rightarrow> bool \<times> 'w" where
  "oa_health_check H c w =
     (case hc_get H 5 (oa_base_url c @ ''/v1/models'') (oa_headers c) w of
        (Inl _, w') \<Rightarrow> (False, w') | (Inr status, w') \<Rightarrow> (status < 500, w'))"

definition parse_usage :: "schema \<Rightarrow> json \<Rightarrow> usage result" where
  "parse_usage S u =
     bnd (get_default u ''prompt_tokens'' (JInt 0)) (\<lambda>p.
     bnd (get_default u ''completion_tokens'' (JInt 0)) (\<lambda>c.
     bnd (get_default u ''total_tokens'' (JInt 0)) (\<lambda>t.
     bnd (sc_int S p) (\<lambda>p. bnd (sc_int S c) (\<lambda>c. bnd (sc_int S t) (\<lambda>t.
       Inr \<lparr>us_prompt_tokens = p, us_completion_tokens = c, us_total_tokens = t, us_cost_usd = 0\<rparr>))))))"

definition parse_completion :: "schema \<Rightarrow> chat_request \<Rightarrow> json \<Rightarrow> chat_response result" where
  "parse_completion S req body =
     bnd (bnd (sub_key body ''choices'') sub_zero) (\<lambda>choice.
     bnd (get_default body ''usage'' (JObj [])) (\<lambda>u.
     bnd (bnd (sub_key choice ''message'') (\<lambda>m. sub_key m ''content'')) (\<lambda>content.
     bnd (get_default body ''model'' (JStr (rq_model req))) (\<lambda>model.
     bnd (get_default choice ''finish_reason'' JNull) (\<lambda>reason.
     bnd (parse_usage S u) (\<lambda>usage.
     bnd (sc_str S content) (\<lambda>content.
     bnd (sc_str S model) (\<lambda>model.
     bnd (if reason = JNull then Inr None else bnd (sc_str S reason) (\<lambda>r. Inr (Some r))) (\<lambda>reason.
       Inr \<lparr>rs_text = content, rs_model = model, rs_finish_reason = reason, rs_usage = usage\<rparr>)))))))))"

definition oa_generate ::
  "'w http_client \<Rightarrow> schema \<Rightarrow> openai_config \<Rightarrow> chat_request \<Rightarrow> 'w \<Rightarrow> chat_response result \<times> 'w" where
  "oa_generate H S c req w =
     (case hc_post H (oa_timeout c) (oa_base_url c @ ''/v1/chat/completions'') (oa_headers c) (oa_payload c req False) w of
        (Inl e, w') \<Rightarrow> (Inl e, w')
      | (Inr (status, body), w') \<Rightarrow>
          (bnd (hc_raise_for_status H status) (\<lambda>_. bnd body (parse_completion S req)), w'))"

text \<open>The events of a stream as far as they come, and the exception that ends it, if one does.\<close>

definition chunk_event :: "schema \<Rightarrow> json \<Rightarrow> stream_event option result" where
  "chunk_event S chunk =
     bnd (bnd (sub_key chunk ''choices'') sub_zero) (\<lambda>choice.
     bnd (get_default choice ''delta'' (JObj [])) (\<lambda>delta.
     bnd (get_default delta ''content'' JNull) (\<lambda>content.
       if json_truthy content
       then bnd (sc_str S content) (\<lambda>s. Inr (Some \<lparr>se_type = TOKEN, se_data = s, se_finish_reason = None\<rparr>))
       else Inr None)))"

definition DATA_PREFIX :: string where "DATA_PREFIX = ''data: ''"

definition done_event :: stream_event where
  "done_event = \<lparr>se_type = DONE, se_data = [], se_finish_reason = Some ''stop''\<rparr>"

fun stream_lines ::
  "(string \<Rightarrow> json result) \<Rightarrow> schema \<Rightarrow> string list \<Rightarrow> pyexn option \<Rightarrow> stream_event list \<times> pyexn option" where
  "stream_lines loads S [] broken = ([], broken)"
| "stream_lines loads S (line # rest) broken =
     (if \<not> prefix DATA_PREFIX line then stream_lines loads S rest broken
      else let chunk = drop (length DATA_PREFIX) line
      in if strip chunk = ''[DONE]'' then ([done_event], None)
      else case bnd (loads chunk) (chunk_event S) of
             Inl e \<Rightarrow> ([], Some e)
           | Inr None \<Rightarrow> stream_lines loads S rest broken
           | Inr (Some ev) \<Rightarrow> (case stream_lines loads S rest broken of (evs, e) \<Rightarrow> (ev # evs, e)))"

definition oa_stream ::
  "'w http_client \<Rightarrow> (string \<Rightarrow> json result) \<Rightarrow> schema \<Rightarrow> openai_config \<Rightarrow> chat_request \<Rightarrow> 'w \<Rightarrow>
   (stream_event list \<times> pyexn option) \<times> 'w" where
  "oa_stream H loads S c req w =
     (case hc_stream H (oa_timeout c) (oa_base_url c @ ''/v1/chat/completions'') (oa_headers c) (oa_payload c req True) w of
        (Inl e, w') \<Rightarrow> (([], Some e), w')
      | (Inr (status, ls, broken), w') \<Rightarrow>
          (case hc_raise_for_status H status of
             Inl e \<Rightarrow> (([], Some e), w') | Inr _ \<Rightarrow> (stream_lines loads S ls broken, w')))"

definition openai_adapter :: "'w http_client \<Rightarrow> schema \<Rightarrow> openai_config \<Rightarrow> 'w adapter" where
  "openai_adapter H S c = \<lparr>ad_name = oa_name c, ad_capabilities = oa_capabilities c,
     ad_health_check = oa_health_check H c, ad_generate = oa_generate H S c\<rparr>"

definition vllm_config :: "string \<Rightarrow> string \<Rightarrow> string option \<Rightarrow> openai_config" where
  "vllm_config base_url model api_key = new_openai_config base_url model api_key ''vllm'' True"

definition ollama_config :: "string \<Rightarrow> string \<Rightarrow> string option \<Rightarrow> openai_config" where
  "ollama_config base_url model api_key = new_openai_config base_url model api_key ''ollama'' False"

definition tgi_config :: "string \<Rightarrow> string \<Rightarrow> string option \<Rightarrow> openai_config" where
  "tgi_config base_url model api_key = new_openai_config base_url model api_key ''tgi'' False"

section \<open>Properties\<close>

text \<open>The reply a conforming server sends for a response.\<close>

definition reply_json :: "chat_response \<Rightarrow> json" where
  "reply_json r = JObj [(''id'', JStr ''x''), (''model'', JStr (rs_model r)),
     (''choices'', JArr [JObj [(''index'', JInt 0),
        (''message'', JObj [(''role'', JStr ''assistant''), (''content'', JStr (rs_text r))]),
        (''finish_reason'', jopt (rs_finish_reason r))]]),
     (''usage'', JObj [(''prompt_tokens'', JInt (us_prompt_tokens (rs_usage r))),
        (''completion_tokens'', JInt (us_completion_tokens (rs_usage r))),
        (''total_tokens'', JInt (us_total_tokens (rs_usage r)))])]"

text \<open>C38: The wire format is read as it is written. If a server answers the posted request with a status
  that is no error and the OpenAI encoding of a response, the adapter returns that response, its
  text, model, finish reason and token counts, with no cost attached.\<close>

theorem generate_roundtrip:
  assumes "\<And>s. sc_str S (JStr s) = Inr s" and "\<And>n. sc_int S (JInt n) = Inr n"
    and "hc_post H (oa_timeout c) (oa_base_url c @ ''/v1/chat/completions'') (oa_headers c) (oa_payload c req False) w =
      (Inr (status, Inr (reply_json r)), w')"
    and "hc_raise_for_status H status = Inr ()"
  shows "ad_generate (openai_adapter H S c) req w = (Inr (r\<lparr>rs_usage := (rs_usage r)\<lparr>us_cost_usd := 0\<rparr>\<rparr>), w')"
proof -
  have "parse_completion S req (reply_json r) = Inr (r\<lparr>rs_usage := (rs_usage r)\<lparr>us_cost_usd := 0\<rparr>\<rparr>)"
    using assms(1,2)
    by (cases "rs_finish_reason r")
      (simp_all add: parse_completion_def parse_usage_def reply_json_def sub_key_def sub_zero_def get_default_def
        dlookup_def jopt_def)
  then show ?thesis using assms(3,4) by (simp add: openai_adapter_def oa_generate_def)
qed

lemma chunk_event_token: "chunk_event S j = Inr (Some ev) \<Longrightarrow> se_type ev = TOKEN \<and> se_finish_reason ev = None"
  by (auto simp: chunk_event_def split: if_splits)

definition end_marker :: "string \<Rightarrow> bool" where
  "end_marker line = (prefix DATA_PREFIX line \<and> strip (drop (length DATA_PREFIX) line) = ''[DONE]'')"

lemma stream_lines_Cons:
  "stream_lines loads S (line # rest) broken =
     (if end_marker line then ([done_event], None)
      else if \<not> prefix DATA_PREFIX line then stream_lines loads S rest broken
      else case bnd (loads (drop (length DATA_PREFIX) line)) (chunk_event S) of
             Inl e \<Rightarrow> ([], Some e)
           | Inr None \<Rightarrow> stream_lines loads S rest broken
           | Inr (Some ev) \<Rightarrow> (case stream_lines loads S rest broken of (evs, e) \<Rightarrow> (ev # evs, e)))"
  by (simp add: end_marker_def Let_def)

lemma stream_lines_more:
  "\<exists>l \<in> set ls. end_marker l \<Longrightarrow> stream_lines loads S (ls @ later) b = stream_lines loads S ls broken"
proof (induction ls)
  case (Cons line rest)
  show ?case
  proof (cases "end_marker line")
    case False
    then have e: "stream_lines loads S (rest @ later) b = stream_lines loads S rest broken" using Cons by simp
    show ?thesis unfolding append_Cons stream_lines_Cons e by (rule refl)
  next
    case True
    then show ?thesis unfolding append_Cons stream_lines_Cons by simp
  qed
qed simp

lemma stream_lines_shape:
  "case stream_lines loads S ls broken of (evs, err) \<Rightarrow>
     \<exists>toks. evs = toks @ (if err = None \<and> (\<exists>l \<in> set ls. end_marker l) then [done_event] else []) \<and>
       list_all (\<lambda>ev. se_type ev = TOKEN) toks"
proof (induction ls)
  case (Cons line rest)
  obtain evs err where r: "stream_lines loads S rest broken = (evs, err)" by (rule prod.exhaust)
  obtain toks where t: "evs = toks @ (if err = None \<and> (\<exists>l \<in> set rest. end_marker l) then [done_event] else [])"
    "list_all (\<lambda>ev. se_type ev = TOKEN) toks"
    using Cons by (auto simp: r)
  consider (marker) "end_marker line" | (skip) "\<not> end_marker line" "\<not> prefix DATA_PREFIX line"
    | (data) "\<not> end_marker line" "prefix DATA_PREFIX line" by blast
  then show ?case
  proof cases
    case marker
    then show ?thesis unfolding stream_lines_Cons by (simp add: exI [of _ "[]"])
  next
    case skip
    then show ?thesis unfolding stream_lines_Cons using t by (auto simp: r)
  next
    case data
    show ?thesis
    proof (cases "bnd (loads (drop (length DATA_PREFIX) line)) (chunk_event S)")
      case (Inl e)
      then show ?thesis unfolding stream_lines_Cons using data by simp
    next
      case (Inr oev)
      show ?thesis
      proof (cases oev)
        case None
        then show ?thesis unfolding stream_lines_Cons using data Inr t by (auto simp: r)
      next
        case (Some ev)
        have "se_type ev = TOKEN" using Inr Some chunk_event_token by auto
        then show ?thesis unfolding stream_lines_Cons using data Inr Some t by (auto simp: r intro!: exI [of _ "ev # toks"])
      qed
    qed
  qed
qed simp

text \<open>A stream ends once. The events of a stream are tokens and after them at most one terminal event,
  which is there exactly when the server's end marker was reached before anything went wrong; and
  once a marker has arrived nothing that follows it matters, not even a broken connection.\<close>

theorem stream_terminal:
  "(\<exists>toks. fst (stream_lines loads S ls broken) = toks @
       (if snd (stream_lines loads S ls broken) = None \<and> list_ex end_marker ls then [done_event] else []) \<and>
     list_all (\<lambda>ev. se_type ev = TOKEN) toks) \<and>
   (if list_ex end_marker ls then stream_lines loads S (ls @ later) b = stream_lines loads S ls broken
    else done_event \<notin> set (fst (stream_lines loads S ls broken)))"
proof -
  obtain evs err where r: "stream_lines loads S ls broken = (evs, err)" by (rule prod.exhaust)
  obtain toks where t: "evs = toks @ (if err = None \<and> (\<exists>l \<in> set ls. end_marker l) then [done_event] else [])"
    "list_all (\<lambda>ev. se_type ev = TOKEN) toks"
    using stream_lines_shape [where loads = loads and S = S and ls = ls and broken = broken] by (auto simp: r)
  have "done_event \<notin> set toks" using t(2) by (auto simp: list_all_iff done_event_def)
  then show ?thesis
    using t stream_lines_more [where ls = ls and loads = loads and S = S and later = later and b = b and broken = broken] by (auto simp: r list_ex_iff)
qed

section \<open>Witnesses\<close>

definition fx_schema :: schema where
  "fx_schema = \<lparr>sc_str = (\<lambda>j. case j of JStr s \<Rightarrow> Inr s | _ \<Rightarrow> Inl (ValidationError ''str'')),
     sc_int = (\<lambda>j. case j of JInt n \<Rightarrow> Inr n | _ \<Rightarrow> Inl (ValidationError ''int''))\<rparr>"

definition fx_http :: "chat_response \<Rightarrow> unit http_client" where
  "fx_http r = \<lparr>hc_get = (\<lambda>_ _ _ w. (Inr 200, w)), hc_post = (\<lambda>_ _ _ _ w. (Inr (200, Inr (reply_json r)), w)),
     hc_stream = (\<lambda>_ _ _ _ w. (Inr (200, [], None), w)),
     hc_raise_for_status = (\<lambda>n. if n < 400 then Inr () else Inl (AdapterError ''status''))\<rparr>"

lemma generate_roundtrip_witness:
  "ad_generate (openai_adapter (fx_http (fake_generate ''hello there'' (mk_request ''m'' [] 5))) fx_schema
      (vllm_config ''http://localhost:8000/'' ''m'' None)) (mk_request ''m'' [] 5) () =
    (Inr (fake_generate ''hello there'' (mk_request ''m'' [] 5)), ())"
proof -
  let ?r = "fake_generate ''hello there'' (mk_request ''m'' [] 5)"
  have "?r\<lparr>rs_usage := (rs_usage ?r)\<lparr>us_cost_usd := 0\<rparr>\<rparr> = ?r" by (simp add: fake_generate_def Let_def)
  then show ?thesis
    using generate_roundtrip [of fx_schema "fx_http ?r" "vllm_config ''http://localhost:8000/'' ''m'' None"
        "mk_request ''m'' [] 5" "()" 200 ?r "()"]
    by (simp add: fx_schema_def fx_http_def)
qed

end
