(* ===== verification/Wiring.thy ===== *)
theory Wiring
  imports Answers Versioning OpenAI
begin

text \<open>
  \<^verbatim>\<open>config/settings.py\<close> and the \<^verbatim>\<open>build_*\<close> functions of \<^verbatim>\<open>gateway/app.py\<close>: the settings with their
  defaults, and the components as the gateway and the client library wire them: one in-memory
  store, one replay store, one ledger, shared between the pipeline and the endpoints. Reading the
  environment is \<^verbatim>\<open>pydantic-settings\<close>.
\<close>

section \<open>Settings\<close>

record settings =
  gs_backend_base_url :: string
  gs_backend_api_key :: "string option"
  gs_default_model :: string
  gs_backend_kind :: string
  gs_postgres_dsn :: "string option"
  gs_redis_url :: "string option"
  gs_default_token_budget :: int
  gs_max_candidates :: int
  gs_log_level :: string

definition default_settings :: settings where
  "default_settings = \<lparr>gs_backend_base_url = ''http://localhost:8000'', gs_backend_api_key = None,
     gs_default_model = ''meta-llama/Llama-3.1-8B-Instruct'', gs_backend_kind = ''vllm'',
     gs_postgres_dsn = None, gs_redis_url = None, gs_default_token_budget = 6000, gs_max_candidates = 512,
     gs_log_level = ''INFO''\<rparr>"

section \<open>Components\<close>

text \<open>The embedder of every component is \<^verbatim>\<open>HashingEmbeddingProvider(dim=384)\<close> over the digest \<open>blake\<close>.\<close>

definition build_adapter :: "'w http_client \<Rightarrow> schema \<Rightarrow> settings \<Rightarrow> 'w adapter" where
  "build_adapter H S gs =
     (let kind = lower (gs_backend_kind gs)
      in if kind = ''fake'' then fake_adapter DEFAULT_REPLY
         else if kind = ''vllm''
         then openai_adapter H S (vllm_config (gs_backend_base_url gs) (gs_default_model gs) (gs_backend_api_key gs))
         else openai_adapter H S (new_openai_config (gs_backend_base_url gs) (gs_default_model gs)
                (gs_backend_api_key gs) kind False))"

definition build_memory_engine :: "(string \<Rightarrow> 64 word) \<Rightarrow> mem_store storage_backend \<times> embedder" where
  "build_memory_engine blake = (inmem, hashing_provider blake 384)"

definition build_assembler :: "(string \<Rightarrow> 64 word) \<Rightarrow> embedder" where
  "build_assembler blake = hashing_provider blake 384"

definition build_cache :: "(string \<Rightarrow> 64 word) \<Rightarrow> cache_store semantic_cache" where
  "build_cache blake = \<lparr>cache_backend = mem_cache, cache_embedder = hashing_provider blake 384,
     cache_threshold = DEFAULT_TAU, cache_ttl = DEFAULT_TTL_SECONDS\<rparr>"

definition build_compressor :: "'w adapter option" where
  "build_compressor = None"

definition build_cost_ledger :: ledger where
  "build_cost_ledger = new_ledger None"

text \<open>The replay debugger's assembler is the pipeline's, its tokenizer the heuristic one.\<close>

definition build_replay :: "(string \<Rightarrow> 64 word) \<Rightarrow> embedder \<times> tokenizer" where
  "build_replay blake = (build_assembler blake, default_count)"

definition build_pipeline ::
  "settings \<Rightarrow> 'w adapter \<Rightarrow> (string \<Rightarrow> 64 word) \<Rightarrow> (mem_store, cache_store, 'w) pipeline" where
  "build_pipeline gs adapter blake = (default_pipeline adapter (Some (gs_default_model gs)))\<lparr>
     pl_memory := Some (build_memory_engine blake), pl_assembler := Some (build_assembler blake),
     pl_cache := Some (build_cache blake), pl_compressor := Some build_compressor, pl_replay := True,
     pl_cost := True, pl_window_tokens := gs_default_token_budget gs\<rparr>"

text \<open>What the application holds between requests.\<close>

record 'w app_state =
  as_pipe :: "(mem_store, cache_store, 'w) pipe_state"
  as_versioning :: versioning

definition new_app :: "'w \<Rightarrow> 'w app_state" where
  "new_app w = \<lparr>as_pipe = \<lparr>ps_traces = [], ps_store = empty_store, ps_cache = [], ps_bundles = [],
     ps_ledger = build_cost_ledger, ps_backends = [], ps_world = w\<rparr>, as_versioning = new_versioning\<rparr>"

section \<open>What the wiring has\<close>

lemma build_pipeline_simps [simp]:
  "pl_memory (build_pipeline gs a blake) = Some (inmem, hashing_provider blake DEFAULT_DIM)"
  "pl_assembler (build_pipeline gs a blake) = Some (hashing_provider blake DEFAULT_DIM)"
  "pl_cache (build_pipeline gs a blake) = Some (build_cache blake)"
  "pl_compressor (build_pipeline gs a blake) = Some None" "pl_replay (build_pipeline gs a blake)"
  "pl_cost (build_pipeline gs a blake)" "pl_router (build_pipeline gs a blake) = None"
  "pl_policy (build_pipeline gs a blake) = None" "pl_adapter (build_pipeline gs a blake) = a"
  "pl_weights (build_pipeline gs a blake) = default_weights" "pl_tokenizer (build_pipeline gs a blake) = default_count"
  "pl_window_tokens (build_pipeline gs a blake) = gs_default_token_budget gs"
  "cache_backend (build_cache blake) = mem_cache"
  by (simp_all add: build_pipeline_def build_memory_engine_def build_assembler_def build_compressor_def
      build_cache_def default_pipeline_def DEFAULT_DIM_def)

lemma wired_admits: "admits (build_pipeline gs a blake) ctx"
  by (simp add: evaluate_allowed_iff permits_def same_tenant_def)

lemma wired_retrieves: "store_inv s \<Longrightarrow> retrieves_always (build_pipeline gs a blake) s"
  by (auto simp: retrieves_always_def)

lemma wired_assembles:
  "hard_floor (pipe_budget (build_pipeline gs a blake) prompt mt system) \<le> gs_default_token_budget gs \<Longrightarrow>
   assembles_always (build_pipeline gs a blake) prompt mt system"
  by (auto simp: assembles_always_def validate_default_weights pipe_budget_def)

end
