(* ===== verification/Gateway.thy ===== *)
theory Gateway
  imports Wiring
begin

text \<open>
  \<^verbatim>\<open>gateway/app.py\<close> and \<^verbatim>\<open>gateway/errors.py\<close>: the endpoints of the HTTP gateway over the shared
  components. A handler maps the application state and the parsed request to a response and the
  new state; the exception handlers turn a raised exception into an error envelope, and an
  exception without a handler is \<open>Unhandled\<close>, for which the framework answers 500. Routing, parsing
  and validating the body and the headers are FastAPI's.
\<close>

section \<open>Error envelopes\<close>

record error_body =
  eb_type :: string
  eb_message :: string
  eb_trace_id :: "string option"

definition envelope :: "string \<Rightarrow> string \<Rightarrow> string option \<Rightarrow> json" where
  "envelope typ message trace_id =
     (let e = \<lparr>eb_type = typ, eb_message = message, eb_trace_id = trace_id\<rparr>
      in JObj [(''error'', JObj [(''type'', JStr (eb_type e)), (''message'', JStr (eb_message e)),
           (''trace_id'', jopt (eb_trace_id e))])])"

datatype response = Reply int json | Unhandled pyexn

text \<open>\<^verbatim>\<open>str(exc)\<close> of a \<^verbatim>\<open>ContextOverflow\<close>, as \<^verbatim>\<open>check_hard_reserves\<close> words it.\<close>

definition overflow_message :: "int \<Rightarrow> int \<Rightarrow> string" where
  "overflow_message floor_tokens window =
     ''hard reserves ('' @ str_of_int floor_tokens @ '' tok) exceed window ('' @ str_of_int window
     @ '' tok); cannot satisfy without truncating the system prompt or the user's turn''"

text \<open>The two exception handlers; \<^verbatim>\<open>SecurityError\<close> is the base class of the first three.\<close>

definition security_error :: "string \<Rightarrow> response" where
  "security_error message = Reply 403 (envelope ''access_denied'' message None)"

definition overflow_error :: "string \<Rightarrow> response" where
  "overflow_error message = Reply 413 (envelope ''context_overflow'' message None)"

fun on_exception :: "pyexn \<Rightarrow> response" where
  "on_exception (AccessDenied m) = security_error m"
| "on_exception (MissingTenant m) = security_error m"
| "on_exception (MissingNamespace m) = security_error m"
| "on_exception (ContextOverflow f w) = overflow_error (overflow_message f w)"
| "on_exception e = Unhandled e"

definition reply :: "('a \<Rightarrow> json) \<Rightarrow> 'a result \<Rightarrow> response" where
  "reply f r = (case r of Inl e \<Rightarrow> on_exception e | Inr x \<Rightarrow> Reply 200 (f x))"

section \<open>Bodies and headers\<close>

record chat_body =
  qb_prompt :: string
  qb_model :: "string option"
  qb_system :: "string option"
  qb_max_tokens :: int

definition default_chat_body :: "string \<Rightarrow> chat_body" where
  "default_chat_body prompt = \<lparr>qb_prompt = prompt, qb_model = None, qb_system = None, qb_max_tokens = 512\<rparr>"

record memory_body =
  mb_content :: string
  mb_tier :: memory_tier
  mb_importance :: flt

definition default_memory_body :: "string \<Rightarrow> memory_body" where
  "default_memory_body content =
     \<lparr>mb_content = content, mb_tier = memory_tier.SEMANTIC, mb_importance = lit (1 / 2)\<rparr>"

record commit_body =
  kb_label :: string
  kb_branch :: string

definition default_commit_body :: commit_body where
  "default_commit_body = \<lparr>kb_label = [], kb_branch = ''main''\<rparr>"

record rollback_body =
  lb_cid :: string

record headers =
  hd_tenant_id :: "string option"
  hd_user_id :: "string option"
  hd_namespace :: "string option"

definition resolve_security_context :: "headers \<Rightarrow> string \<Rightarrow> security_context result" where
  "resolve_security_context hs rid = resolve (hd_tenant_id hs) (hd_user_id hs) (hd_namespace hs) None rid"

section \<open>The application\<close>

text \<open>What the handlers close over: the adapter, the pipeline, the memory engine and the replay
  debugger; the store behind the memory engine is the pipeline's.\<close>

record 'w gateway =
  gw_adapter :: "'w adapter"
  gw_pipeline :: "(mem_store, cache_store, 'w) pipeline"
  gw_memory :: "mem_store storage_backend \<times> embedder"
  gw_replay :: "embedder \<times> tokenizer"

definition create_app ::
  "'w http_client \<Rightarrow> schema \<Rightarrow> (string \<Rightarrow> 64 word) \<Rightarrow> settings \<Rightarrow> 'w adapter option \<Rightarrow> 'w gateway" where
  "create_app H S blake gs adapter =
     (let a = (case adapter of Some a \<Rightarrow> a | None \<Rightarrow> build_adapter H S gs)
      in \<lparr>gw_adapter = a, gw_pipeline = build_pipeline gs a blake,
          gw_memory = build_memory_engine blake, gw_replay = build_replay blake\<rparr>)"

type_synonym 'w handler = "'w app_state \<Rightarrow> response \<times> 'w app_state"

text \<open>The dependency of every endpoint but the health checks.\<close>

definition secured :: "headers \<Rightarrow> string \<Rightarrow> (security_context \<Rightarrow> 'w handler) \<Rightarrow> 'w handler" where
  "secured hs rid h app =
     (case resolve_security_context hs rid of Inl e \<Rightarrow> (on_exception e, app) | Inr ctx \<Rightarrow> h ctx app)"

definition healthz :: response where
  "healthz = Reply 200 (JObj [(''status'', JStr ''ok'')])"

definition backend_health :: "'w gateway \<Rightarrow> 'w handler" where
  "backend_health gw app =
     (case ad_health_check (gw_adapter gw) (ps_world (as_pipe app)) of
        (ok, w) \<Rightarrow> (Reply 200 (JObj [(''backend_healthy'', JBool ok)]),
          app\<lparr>as_pipe := (as_pipe app)\<lparr>ps_world := w\<rparr>\<rparr>))"

section \<open>Requests and memories\<close>

definition usage_json :: "usage \<Rightarrow> json" where
  "usage_json u = JObj [(''prompt_tokens'', JInt (us_prompt_tokens u)),
     (''completion_tokens'', JInt (us_completion_tokens u)), (''total_tokens'', JInt (us_total_tokens u)),
     (''cost_usd'', JFloat (us_cost_usd u))]"

definition chat_json :: "chat_result \<Rightarrow> json" where
  "chat_json r = JObj [(''id'', JStr (res_trace_id r)), (''text'', JStr (res_text r)),
     (''model'', JStr (res_model r)), (''usage'', usage_json (res_usage r)),
     (''trace_id'', JStr (res_trace_id r))]"

definition chat :: "platform \<Rightarrow> readings \<Rightarrow> 'w gateway \<Rightarrow> chat_body \<Rightarrow> security_context \<Rightarrow> 'w handler" where
  "chat pf rg gw body ctx app =
     (case run pf rg (gw_pipeline gw) ctx (qb_prompt body) (qb_model body) (qb_max_tokens body)
             (qb_system body) (as_pipe app) of
        (res, st) \<Rightarrow> (reply chat_json res, app\<lparr>as_pipe := st\<rparr>))"

definition memory_json :: "memory_object \<Rightarrow> json" where
  "memory_json m = JObj [(''id'', JStr (mo_id m)), (''tenant_id'', JStr (mo_tenant_id m)),
     (''namespace'', JStr (mo_namespace m)), (''tier'', JStr (tier_value (mo_tier m)))]"

text \<open>The provenance of a memory written over HTTP is the default \<^verbatim>\<open>source="chat"\<close>.\<close>

definition write_memory ::
  "'w gateway \<Rightarrow> memory_body \<Rightarrow> string \<Rightarrow> int \<times> int \<times> int \<Rightarrow> security_context \<Rightarrow> 'w handler" where
  "write_memory gw body ulid clk ctx app =
     (case mem_write (fst (gw_memory gw)) ctx (mb_content body) (mb_tier body) (mb_importance body)
             ''chat'' None None ulid clk (ps_store (as_pipe app)) of
        (res, s) \<Rightarrow> (reply memory_json res, app\<lparr>as_pipe := (as_pipe app)\<lparr>ps_store := s\<rparr>\<rparr>))"

section \<open>Traces and bundles\<close>

definition jdict :: "(string, string) dict \<Rightarrow> json" where
  "jdict d = JObj (map (\<lambda>(k, v). (k, JStr v)) d)"

definition decision_json :: "decision_record option \<Rightarrow> json" where
  "decision_json d = (case d of None \<Rightarrow> JNull
     | Some dr \<Rightarrow> JObj [(''stage'', JStr (dr_stage dr)), (''summary'', JStr (dr_summary dr)),
         (''pointers'', jdict (dr_pointers dr))])"

definition trace_json :: "trace \<Rightarrow> json" where
  "trace_json tr = JObj [(''trace_id'', JStr (tr_trace_id tr)), (''tenant_id'', JStr (tr_tenant_id tr)),
     (''spans'', JArr (map (\<lambda>s. JObj [(''stage'', JStr (ts_stage s)), (''name'', JStr (ts_name s)),
        (''duration_ms'', jflt_opt (duration_ms s)), (''decision'', decision_json (ts_decision s))])
        (tr_spans tr)))]"

definition get_trace :: "string \<Rightarrow> security_context \<Rightarrow> 'w app_state \<Rightarrow> response" where
  "get_trace trace_id ctx app =
     (case tracer_get ctx trace_id (ps_traces (as_pipe app)) of
        None \<Rightarrow> Reply 404 (envelope ''not_found'' ''trace not found'' (Some trace_id))
      | Some tr \<Rightarrow> Reply 200 (trace_json tr))"

fun replay_mode_value :: "replay_mode \<Rightarrow> string" where
  "replay_mode_value RECORDED_OUTPUT = ''recorded_output''"
| "replay_mode_value LIVE_BACKEND = ''live_backend''"

definition replay_json :: "replay_result \<Rightarrow> json" where
  "replay_json r = JObj [(''trace_id'', JStr (rr_trace_id r)), (''bundle_cid'', JStr (rr_bundle_cid r)),
     (''mode'', JStr (replay_mode_value (rr_mode r))), (''prompt_equal'', JBool (rr_prompt_equal r)),
     (''prompt_hash_expected'', JStr (rr_prompt_hash_expected r)),
     (''prompt_hash_actual'', JStr (rr_prompt_hash_actual r)),
     (''output_equal'', case rr_output_equal r of None \<Rightarrow> JNull | Some b \<Rightarrow> JBool b),
     (''recorded_output'', jopt (rr_recorded_output r)), (''diff'', jopt (rr_diff r))]"

definition replay_trace :: "platform \<Rightarrow> 'w gateway \<Rightarrow> string \<Rightarrow> security_context \<Rightarrow> 'w app_state \<Rightarrow> response" where
  "replay_trace pf gw trace_id ctx app =
     (case replay (pf_sha pf) (fst (gw_replay gw)) (snd (gw_replay gw)) ctx trace_id RECORDED_OUTPUT
             (ps_bundles (as_pipe app)) of
        Inl e \<Rightarrow> on_exception e
      | Inr None \<Rightarrow> Reply 404 (envelope ''not_found'' ''no replay bundle for trace'' (Some trace_id))
      | Inr (Some r) \<Rightarrow> Reply 200 (replay_json r))"

text \<open>\<^verbatim>\<open>ContextBundle.model_dump(mode="json")\<close>; an instant is serialised in the same form as by
  \<open>to_rfc3339\<close>.\<close>

definition bundle_json :: "context_bundle \<Rightarrow> json" where
  "bundle_json b = JObj [(''schema_version'', JStr (bu_schema_version b)), (''bundle_cid'', JStr (bu_bundle_cid b)),
     (''trace_id'', JStr (bu_trace_id b)), (''tenant_id'', JStr (bu_tenant_id b)),
     (''namespace'', JStr (bu_namespace b)), (''created_at'', JStr (to_rfc3339 (bu_created_at b))),
     (''model_id'', JStr (bu_model_id b)), (''mmr_lambda'', JFloat (bu_mmr_lambda b)),
     (''weights'', JObj (map (\<lambda>(k, v). (k, JFloat v)) (bu_weights b))),
     (''budget'', JObj (map (\<lambda>(k, v). (k, JInt v)) (bu_budget b))),
     (''system_prompt'', JStr (bu_system_prompt b)), (''latest_user_turn'', JStr (bu_latest_user_turn b)),
     (''candidates'', JArr (map candidate_json (bu_candidates b))),
     (''rendered_messages'', JArr (map (\<lambda>m. JObj [(''role'', JStr (bm_role m)),
        (''content'', JStr (bm_content m))]) (bu_rendered_messages b))),
     (''prompt_hash'', JStr (bu_prompt_hash b)), (''recorded_output'', jopt (bu_recorded_output b))]"

definition get_bundle :: "string \<Rightarrow> security_context \<Rightarrow> 'w app_state \<Rightarrow> response" where
  "get_bundle trace_id ctx app =
     (case bundle_get ctx trace_id (ps_bundles (as_pipe app)) of
        None \<Rightarrow> Reply 404 (envelope ''not_found'' ''no bundle for trace'' (Some trace_id))
      | Some b \<Rightarrow> Reply 200 (bundle_json b))"

definition trace_otel :: "platform \<Rightarrow> string \<Rightarrow> security_context \<Rightarrow> 'w app_state \<Rightarrow> response" where
  "trace_otel pf trace_id ctx app =
     (case tracer_get ctx trace_id (ps_traces (as_pipe app)) of
        None \<Rightarrow> Reply 404 (envelope ''not_found'' ''trace not found'' (Some trace_id))
      | Some tr \<Rightarrow> Reply 200 (to_otlp (pf_repr pf) (tr_spans tr)))"

section \<open>Administration\<close>

definition summary_json :: "cost_summary \<Rightarrow> json" where
  "summary_json s = JObj [(''tenant_id'', JStr (cs_tenant_id s)), (''requests'', JInt (int (cs_requests s))),
     (''total_tokens'', JInt (cs_total_tokens s)), (''total_cost_usd'', JFloat (cs_total_cost_usd s)),
     (''by_model'', JObj (map (\<lambda>(k, v). (k, JFloat v)) (cs_by_model s)))]"

definition admin_cost :: "security_context \<Rightarrow> 'w app_state \<Rightarrow> response" where
  "admin_cost ctx app = Reply 200 (summary_json (ledger_summary ctx (ps_ledger (as_pipe app))))"

definition memory_commit ::
  "'w gateway \<Rightarrow> commit_body \<Rightarrow> string \<Rightarrow> int \<Rightarrow> security_context \<Rightarrow> 'w handler" where
  "memory_commit gw body ulid now ctx app =
     (case commit_memories (fst (gw_memory gw)) ctx (kb_label body) (kb_branch body) ulid now
             (ps_store (as_pipe app)) (as_versioning app) of
        (c, vs) \<Rightarrow> (Reply 200 (JObj [(''cid'', JStr c), (''branch'', JStr (kb_branch body))]),
          app\<lparr>as_versioning := vs\<rparr>))"

definition memory_branches :: "security_context \<Rightarrow> 'w app_state \<Rightarrow> response" where
  "memory_branches ctx app =
     Reply 200 (JObj [(''branches'', JObj (map (\<lambda>(k, v). (k, jopt v)) (branches ctx (as_versioning app))))])"

definition memory_diff_json :: "memory_diff \<Rightarrow> json" where
  "memory_diff_json d = JObj [(''added'', JArr (map JStr (md_added d))),
     (''removed'', JArr (map JStr (md_removed d))), (''changed'', JArr (map JStr (md_changed d)))]"

text \<open>The \<^verbatim>\<open>except UnknownCommit\<close> clause of the two commit endpoints.\<close>

definition unless_unknown :: "response \<Rightarrow> response" where
  "unless_unknown r = (case r of
     Unhandled (UnknownCommit _) \<Rightarrow> Reply 404 (envelope ''not_found'' ''unknown commit'' None) | _ \<Rightarrow> r)"

definition memory_diff_between :: "string \<Rightarrow> string \<Rightarrow> security_context \<Rightarrow> 'w app_state \<Rightarrow> response" where
  "memory_diff_between a b ctx app = unless_unknown (reply memory_diff_json (diff_commits ctx a b (as_versioning app)))"

definition memory_rollback :: "'w gateway \<Rightarrow> rollback_body \<Rightarrow> security_context \<Rightarrow> 'w handler" where
  "memory_rollback gw body ctx app =
     (case rollback (fst (gw_memory gw)) ctx (lb_cid body) (as_versioning app) (ps_store (as_pipe app)) of
        (res, s) \<Rightarrow> (unless_unknown (reply (\<lambda>n. JObj [(''restored'', JInt (int n))]) res),
          app\<lparr>as_pipe := (as_pipe app)\<lparr>ps_store := s\<rparr>\<rparr>))"

definition context_diff_json :: "context_diff \<Rightarrow> json" where
  "context_diff_json d = JObj [(''candidates_added'', JArr (map JStr (df_candidates_added d))),
     (''candidates_removed'', JArr (map JStr (df_candidates_removed d))),
     (''model_changed'', case df_model_changed d of None \<Rightarrow> JNull | Some (x, y) \<Rightarrow> JArr [JStr x, JStr y]),
     (''prompt_changed'', JBool (df_prompt_changed d)), (''prompt_a'', JStr (df_prompt_a d)),
     (''prompt_b'', JStr (df_prompt_b d))]"

definition trace_diff :: "string \<Rightarrow> string \<Rightarrow> security_context \<Rightarrow> 'w app_state \<Rightarrow> response" where
  "trace_diff a b ctx app =
     (case (bundle_get ctx a (ps_bundles (as_pipe app)), bundle_get ctx b (ps_bundles (as_pipe app))) of
        (Some ba, Some bb) \<Rightarrow> Reply 200 (context_diff_json (diff_bundles ba bb))
      | _ \<Rightarrow> Reply 404 (envelope ''not_found'' ''unknown trace bundle'' None))"

end
