(* ===== verification/Serving.thy ===== *)
theory Serving
  imports Gateway
begin

text \<open>
  The gateway as a whole: one request is dispatched to its endpoint (\<open>serve\<close>), and the states
  the application can reach are those any sequence of requests leads to. The properties say who is
  let in, what an error looks like, and how a chat request ends in any reachable state.
\<close>

section \<open>Dispatch\<close>

text \<open>An endpoint with its parsed parameters, the fresh ids and the clock readings it takes.\<close>

datatype call =
    Chat chat_body readings
  | WriteMemory memory_body string "int \<times> int \<times> int"
  | GetTrace string
  | ReplayTrace string
  | GetBundle string
  | TraceOtel string
  | AdminCost
  | MemoryCommit commit_body string int
  | MemoryBranches
  | MemoryDiff string string
  | MemoryRollback rollback_body
  | TraceDiff string string

fun endpoint :: "platform \<Rightarrow> 'w gateway \<Rightarrow> call \<Rightarrow> security_context \<Rightarrow> 'w handler" where
  "endpoint pf gw (Chat body rg) ctx app = chat pf rg gw body ctx app"
| "endpoint pf gw (WriteMemory body ulid clk) ctx app = write_memory gw body ulid clk ctx app"
| "endpoint pf gw (GetTrace tid) ctx app = (get_trace tid ctx app, app)"
| "endpoint pf gw (ReplayTrace tid) ctx app = (replay_trace pf gw tid ctx app, app)"
| "endpoint pf gw (GetBundle tid) ctx app = (get_bundle tid ctx app, app)"
| "endpoint pf gw (TraceOtel tid) ctx app = (trace_otel pf tid ctx app, app)"
| "endpoint pf gw AdminCost ctx app = (admin_cost ctx app, app)"
| "endpoint pf gw (MemoryCommit body ulid now) ctx app = memory_commit gw body ulid now ctx app"
| "endpoint pf gw MemoryBranches ctx app = (memory_branches ctx app, app)"
| "endpoint pf gw (MemoryDiff a b) ctx app = (memory_diff_between a b ctx app, app)"
| "endpoint pf gw (MemoryRollback body) ctx app = memory_rollback gw body ctx app"
| "endpoint pf gw (TraceDiff a b) ctx app = (trace_diff a b ctx app, app)"

record request =
  rq_headers :: headers
  rq_id :: string
  rq_call :: call

definition serve :: "platform \<Rightarrow> 'w gateway \<Rightarrow> request \<Rightarrow> 'w handler" where
  "serve pf gw q app = secured (rq_headers q) (rq_id q) (endpoint pf gw (rq_call q)) app"

text \<open>The states any sequence of requests and health checks leads to.\<close>

inductive reachable :: "platform \<Rightarrow> 'w gateway \<Rightarrow> 'w \<Rightarrow> 'w app_state \<Rightarrow> bool"
  for pf :: platform and gw :: "'w gateway" and w :: 'w where
  started: "reachable pf gw w (new_app w)"
| served: "reachable pf gw w app \<Longrightarrow> reachable pf gw w (snd (serve pf gw q app))"
| probed: "reachable pf gw w app \<Longrightarrow> reachable pf gw w (snd (backend_health gw app))"

text \<open>The headers name a tenant and, directly or through the user, a namespace.\<close>

definition identified :: "headers \<Rightarrow> bool" where
  "identified hs = (truthy (hd_tenant_id hs) \<and> (truthy (hd_namespace hs) \<or> truthy (hd_user_id hs)))"

lemma resolve_identified:
  "identified hs \<longleftrightarrow> (\<exists>ctx. resolve_security_context hs rid = Inr ctx)"
  by (auto simp: identified_def resolve_security_context_def resolve_Inr_iff)

lemma resolve_anonymous:
  "\<not> identified hs \<Longrightarrow> \<exists>m. resolve_security_context hs rid \<in> {Inl (MissingTenant m), Inl (MissingNamespace m)}"
  by (auto simp: identified_def resolve_security_context_def resolve_def Let_def)

lemma serve_resolved:
  "resolve_security_context (rq_headers q) (rq_id q) = Inr ctx \<Longrightarrow>
   serve pf gw q app = endpoint pf gw (rq_call q) ctx app"
  by (simp add: serve_def secured_def)

lemma create_app_simps [simp]:
  "gw_pipeline (create_app H S blake gs a) = build_pipeline gs (gw_adapter (create_app H S blake gs a)) blake"
  "gw_memory (create_app H S blake gs a) = (inmem, hashing_provider blake DEFAULT_DIM)"
  "gw_replay (create_app H S blake gs a) = (hashing_provider blake DEFAULT_DIM, default_count)"
  "gw_adapter (create_app H S blake gs (Some ad)) = ad"
  by (simp_all add: create_app_def Let_def build_memory_engine_def build_replay_def build_assembler_def DEFAULT_DIM_def)

section \<open>The store along a run\<close>

definition app_inv :: "'w app_state \<Rightarrow> bool" where
  "app_inv app = store_inv (ps_store (as_pipe app))"

lemma app_inv_simps [simp]:
  "app_inv (app\<lparr>as_versioning := vs\<rparr>) = app_inv app"
  "app_inv (app\<lparr>as_pipe := st\<rparr>) = store_inv (ps_store st)"
  by (simp_all add: app_inv_def)

lemma add_memory_inv: "add_memory ctx m s = (res, s') \<Longrightarrow> store_inv s \<Longrightarrow> store_inv s'"
  using store_inv_add [of s ctx m] by simp

lemma rollback_loop_inv:
  "rollback_loop inmem ctx present ms n s = (res, s') \<Longrightarrow> store_inv s \<Longrightarrow> store_inv s'"
proof (induction ms arbitrary: n s)
  case (Cons m ms)
  obtain r s1 where add: "mem_put inmem ctx m s = (r, s1)" by fastforce
  then have "store_inv s1" using Cons.prems(2) by (simp add: mem_put_def inmem_def add_memory_inv)
  then show ?case using Cons add by (auto split: sum.splits if_splits)
qed simp

lemma endpoint_inv:
  assumes "app_inv app" and "gw = create_app H S blake gs a"
  shows "app_inv (snd (endpoint pf gw c ctx app))"
proof (cases c)
  case (Chat body rg)
  have "ps_store (snd (run pf rg (gw_pipeline gw) ctx p m mt sys (as_pipe app))) = ps_store (as_pipe app)" for p m mt sys
    using run_others [of "gw_pipeline gw" ctx rg "as_pipe app" pf p m mt sys] by (auto simp: others_unchanged_def assms(2))
  then show ?thesis using assms(1) Chat by (simp add: chat_def app_inv_def split: prod.split) (metis snd_conv)
next
  case (WriteMemory body ulid clk)
  then show ?thesis
    using assms by (auto simp: write_memory_def mem_write_def app_inv_def inmem_def
        split: prod.split sum.split intro: add_memory_inv)
next
  case (MemoryRollback body)
  then show ?thesis
    using assms by (auto simp: memory_rollback_def rollback_def app_inv_def split: prod.split option.split intro: rollback_loop_inv)
qed (use assms in \<open>simp_all add: memory_commit_def split: prod.split\<close>)

lemma reachable_inv:
  assumes "reachable pf gw w app" and "gw = create_app H S blake gs a"
  shows "app_inv app"
  using assms(1)
proof induction
  case started
  show ?case by (simp add: app_inv_def new_app_def store_inv_empty)
next
  case (served app q)
  then show ?case
    using endpoint_inv [OF _ assms(2)] by (simp add: serve_def secured_def split: sum.split)
next
  case (probed app)
  then show ?case by (simp add: backend_health_def app_inv_def split: prod.split)
qed

section \<open>Properties\<close>

text \<open>C17: The gateway fails closed. A request whose headers do not name a tenant, or name neither a
  namespace nor a user, gets 403 and an access-denied envelope from every endpoint and changes
  nothing; every other request reaches its endpoint in a context of exactly the tenant its
  headers name.\<close>

theorem serve_fails_closed:
  "if identified (rq_headers q)
   then \<exists>ctx. serve pf gw q app = endpoint pf gw (rq_call q) ctx app \<and>
     hd_tenant_id (rq_headers q) = Some (ctx_tenant_id ctx) \<and> ctx_tenant_id ctx \<noteq> [] \<and> ctx_namespace ctx \<noteq> []
   else \<exists>m. serve pf gw q app = (Reply 403 (envelope ''access_denied'' m None), app)"
proof (cases "identified (rq_headers q)")
  case True
  then obtain ctx where r: "resolve_security_context (rq_headers q) (rq_id q) = Inr ctx"
    using resolve_identified by blast
  then show ?thesis
    using True serve_resolved [OF r, of pf gw app]
    by (auto simp: resolve_security_context_def resolve_Inr_iff truthy_def split: option.splits if_splits)
next
  case False
  then show ?thesis
    using resolve_anonymous [OF False, of "rq_id q"]
    by (auto simp: serve_def secured_def security_error_def)
qed

definition enveloped :: "response \<Rightarrow> bool" where
  "enveloped r = (case r of
     Unhandled e \<Rightarrow> on_exception e = Unhandled e
   | Reply status body \<Rightarrow> status = 200 \<or>
       (\<exists>m. (status = 403 \<and> body = envelope ''access_denied'' m None) \<or>
            (status = 413 \<and> body = envelope ''context_overflow'' m None) \<or>
            (\<exists>tid. status = 404 \<and> body = envelope ''not_found'' m tid)))"

lemma enveloped_exception: "enveloped (on_exception e)"
  by (cases e) (auto simp: enveloped_def security_error_def overflow_error_def)

lemma enveloped_reply [simp]: "enveloped (reply f r)" "enveloped (Reply 200 j)"
    "enveloped (Reply 404 (envelope ''not_found'' m tid))"
  using enveloped_exception by (auto simp: reply_def enveloped_def split: sum.split)

lemma enveloped_unless: "enveloped r \<Longrightarrow> enveloped (unless_unknown r)"
  by (auto simp: unless_unknown_def split: response.split pyexn.split)


definition overflows :: "'w gateway \<Rightarrow> chat_body \<Rightarrow> bool" where
  "overflows gw body = (pl_window_tokens (gw_pipeline gw) <
     hard_floor (pipe_budget (gw_pipeline gw) (qb_prompt body) (qb_max_tokens body) (qb_system body)))"

definition cache_answers :: "platform \<Rightarrow> readings \<Rightarrow> 'w gateway \<Rightarrow> security_context \<Rightarrow> chat_body \<Rightarrow> 'w app_state \<Rightarrow> bool" where
  "cache_answers pf rg gw ctx body app =
     (looked_up pf rg (gw_pipeline gw) ctx (qb_prompt body) (qb_model body) (qb_system body) (as_pipe app) \<noteq> None)"

text \<open>C15: How a chat request ends. In every state the application can reach, on a backend that always
  answers, a chat request of an identified caller is answered with 200, except that a prompt whose
  hard reserves exceed the window and that the cache does not answer gets 413 with both numbers in
  the message, and changes nothing but the traces.\<close>

theorem chat_served:
  assumes "reachable pf gw w app" and "gw = create_app H S blake gs adapter"
    and "\<And>req w. \<exists>resp w'. ad_generate (gw_adapter gw) req w = (Inr resp, w')"
    and "resolve_security_context (rq_headers q) (rq_id q) = Inr ctx" and "rq_call q = Chat body rg"
  shows "if \<not> cache_answers pf rg gw ctx body app \<and> overflows gw body
    then \<exists>t. serve pf gw q app = (Reply 413 (envelope ''context_overflow'' (overflow_message
        (hard_floor (pipe_budget (gw_pipeline gw) (qb_prompt body) (qb_max_tokens body) (qb_system body)))
        (gs_default_token_budget gs)) None), app\<lparr>as_pipe := (as_pipe app)\<lparr>ps_traces := t\<rparr>\<rparr>)
    else \<exists>r app'. serve pf gw q app = (Reply 200 (chat_json r), app')"
proof -
  let ?P = "gw_pipeline gw" and ?st = "as_pipe app"
  let ?run = "run pf rg ?P ctx (qb_prompt body) (qb_model body) (qb_max_tokens body) (qb_system body) ?st"
  have P: "?P = build_pipeline gs (gw_adapter gw) blake" by (simp add: assms(2))
  have served: "serve pf gw q app = (reply chat_json (fst ?run), app\<lparr>as_pipe := snd ?run\<rparr>)"
    using serve_resolved [OF assms(4), of pf gw app] by (simp add: assms(5) chat_def split: prod.split)
  have inv: "store_inv (ps_store ?st)" using reachable_inv [OF assms(1,2)] by (simp add: app_inv_def)
  have adm: "admits ?P ctx" unfolding P by (rule wired_admits)
  have ret: "retrieves_always ?P (ps_store ?st)" unfolding P by (rule wired_retrieves [OF inv])
  show ?thesis
  proof (cases "looked_up pf rg ?P ctx (qb_prompt body) (qb_model body) (qb_system body) ?st")
    case (Some h)
    then have "cache_answers pf rg gw ctx body app" by (simp add: cache_answers_def)
    moreover have "\<exists>t. ?run = (Inr (hit_result rg (chosen_model ?P (qb_model body)) h), ?st\<lparr>ps_traces := t\<rparr>)"
      by (rule run_hits [OF iffD2 [OF check_admits adm] Some])
    ultimately show ?thesis using served by (auto simp: reply_def)
  next
    case None
    then have miss: "\<not> cache_answers pf rg gw ctx body app" by (simp add: cache_answers_def)
    show ?thesis
    proof (cases "overflows gw body")
      case True
      have "\<exists>t. ?run = (Inl (ContextOverflow (hard_floor (pipe_budget ?P (qb_prompt body) (qb_max_tokens body) (qb_system body)))
          (pl_window_tokens ?P)), ?st\<lparr>ps_traces := t\<rparr>)"
        by (rule run_overflow [OF _ _ _ _ ret adm None])
          (use True in \<open>simp_all add: overflows_def pipe_budget_def P validate_default_weights\<close>)
      then show ?thesis
        using served True miss by (auto simp: reply_def overflow_error_def P)
    next
      case False
      then have "assembles_always ?P (qb_prompt body) (qb_max_tokens body) (qb_system body)"
        unfolding P by (intro wired_assembles) (simp add: overflows_def P)
      then have "\<exists>r st'. ?run = (Inr r, st')"
        by (intro run_succeeds ret adm) (simp_all add: P assms(3))
      then show ?thesis using served False by (auto simp: reply_def)
    qed
  qed
qed

section \<open>Parameters the gateway does not check\<close>

text \<open>An importance outside [0, 1] is not refused with the body: the schema of the memory raises inside
  the handler, for which the gateway has no answer.\<close>

lemma importance_unhandled:
  assumes "mb_importance body < 0 \<or> 1 < mb_importance body"
  shows "write_memory gw body ulid clk ctx app = (Unhandled (ValidationError ''importance''), app)"
proof -
  have "validate_memory (new_memory ctx (mb_content body) (mb_tier body) (mb_importance body) ''chat'' None None ulid clk)
      = Inl (ValidationError ''importance'')"
    using assms by (auto simp: validate_memory_def)
  then show ?thesis by (simp add: write_memory_def mem_write_def reply_def)
qed

text \<open>A negative \<^verbatim>\<open>max_tokens\<close> makes room for prompts larger than the window.\<close>

lemma negative_reserve_admits:
  assumes "qb_max_tokens body = - default_count (qb_prompt body)" and "qb_system body = None"
    and "gw = create_app H S blake gs adapter" and "0 \<le> gs_default_token_budget gs"
  shows "\<not> overflows gw body"
  using assms by (simp add: overflows_def pipe_budget_def hard_floor_def or_else_def default_count_def heuristic_count_def)

section \<open>Witnesses\<close>

definition fx_gateway :: "unit gateway" where
  "fx_gateway = create_app (fx_http (fake_generate [] (mk_request ''m'' [] 5))) fx_schema fx_blake
     (default_settings\<lparr>gs_backend_kind := ''fake''\<rparr>) None"

definition fx_request :: "string \<Rightarrow> call \<Rightarrow> request" where
  "fx_request tenant c = \<lparr>rq_headers = \<lparr>hd_tenant_id = Some tenant, hd_user_id = Some ''1'', hd_namespace = None\<rparr>,
     rq_id = ''r'', rq_call = c\<rparr>"

lemma fx_gateway_adapter: "gw_adapter fx_gateway = fake_adapter DEFAULT_REPLY"
proof -
  have "lower ''fake'' = ''fake''" by code_simp
  then show ?thesis by (simp add: fx_gateway_def create_app_def build_adapter_def Let_def)
qed

lemma fx_request_context:
  "tenant \<noteq> [] \<Longrightarrow> \<exists>ctx. resolve_security_context (rq_headers (fx_request tenant c)) (rq_id (fx_request tenant c)) = Inr ctx"
  by (simp add: fx_request_def resolve_identified [symmetric] identified_def)

lemma fx_chat_fits: "\<not> overflows fx_gateway (default_chat_body ''hi'')"
proof -
  have "default_count ''hi'' \<le> 10" "default_count [] \<le> 10" by code_simp+
  then show ?thesis
    by (simp add: overflows_def fx_gateway_def pipe_budget_def hard_floor_def default_chat_body_def default_settings_def or_else_def)
qed

lemma chat_served_witness:
  "\<exists>r app'. serve fx_platform fx_gateway (fx_request ''acme'' (Chat (default_chat_body ''hi'') fx_readings)) (new_app ()) =
    (Reply 200 (chat_json r), app')"
proof -
  let ?q = "fx_request ''acme'' (Chat (default_chat_body ''hi'') fx_readings)"
  obtain ctx where ctx: "resolve_security_context (rq_headers ?q) (rq_id ?q) = Inr ctx"
    using fx_request_context by blast
  have gw: "\<exists>resp w'. ad_generate (gw_adapter fx_gateway) req w = (Inr resp, w')" for req w
    by (simp add: fx_gateway_adapter fake_always)
  show ?thesis
    using chat_served [OF reachable.started [of fx_platform fx_gateway "()"] fx_gateway_def gw ctx,
        of "default_chat_body ''hi''" fx_readings] fx_chat_fits
    by (simp add: fx_request_def)
qed

end
