(* ===== verification/PipelineViews.thy ===== *)
theory PipelineViews
  imports PipelineLaws
begin

text \<open>
  The second kind of law of a request: what it computes depends on no more of the state than some
  view of it. A stage that gives equal results and equal views on states with equal views does so
  whatever precedes and follows it, hence so does the whole request. The locale \<open>pipe_view\<close> is the
  counterpart of \<open>pipe_frame\<close>; the view of one tenant is its instance here.
\<close>

definition seen :: "('st \<Rightarrow> 'v) \<Rightarrow> 'a \<times> 'b \<times> 'st \<Rightarrow> 'a \<times> 'b \<times> 'v" where
  "seen V m = (case m of (r, x, s) \<Rightarrow> (r, x, V s))"

lemma seen_simp [simp]: "seen V (r, x, s) = (r, x, V s)"
  by (simp add: seen_def)

definition stage_view :: "('st \<Rightarrow> 'v) \<Rightarrow> ('sp \<Rightarrow> 'st \<Rightarrow> 'a \<times> 'sp \<times> 'st) \<Rightarrow> bool" where
  "stage_view V body = (\<forall>sp s s'. V s = V s' \<longrightarrow> seen V (body sp s) = seen V (body sp s'))"

lemma stage_viewI: "(\<And>sp s s'. V s = V s' \<Longrightarrow> seen V (body sp s) = seen V (body sp s')) \<Longrightarrow> stage_view V body"
  unfolding stage_view_def by blast

locale pipe_view =
  fixes V :: "('s, 'c, 'w) pipe_state \<Rightarrow> 'v"
  assumes view_trace: "V s = V s' \<Longrightarrow>
    V (s\<lparr>ps_traces := tracer_put tr (ps_traces s)\<rparr>) = V (s'\<lparr>ps_traces := tracer_put tr (ps_traces s')\<rparr>)"
begin

lemma seen_return: "V s = V s' \<Longrightarrow> seen V (res, tr, s) = seen V (res, tr, s')"
  by simp

lemma seen_span:
  assumes "stage_view V body" and "V s = V s'"
  shows "seen V (with_span rg k stage name body tr s) = seen V (with_span rg k stage name body tr s')"
proof -
  let ?sp = "open_span tr (rg_span_id rg k) (rg_start rg k) stage name None"
  obtain r sp s1 where b: "body ?sp s = (r, sp, s1)" by (rule prod_cases3)
  obtain r' sp' s1' where b': "body ?sp s' = (r', sp', s1')" by (rule prod_cases3)
  have eq: "r = r'" "sp = sp'" "V s1 = V s1'"
    using assms(1) [unfolded stage_view_def, rule_format, OF assms(2), of ?sp] unfolding b b' by simp_all
  show ?thesis
    using view_trace [OF eq(3), of "close_span (rg_end rg k) sp' tr"] by (simp add: with_span_def b b' eq(1,2) Let_def)
qed

lemma seen_seq:
  assumes "seen V m = seen V m'" and "\<And>x tr s s'. V s = V s' \<Longrightarrow> seen V (f x tr s) = seen V (f x tr s')"
  shows "seen V (seq m f) = seen V (seq m' f)"
proof -
  obtain r tr s where m: "m = (r, tr, s)" by (rule prod_cases3)
  obtain r' tr' s' where m': "m' = (r', tr', s')" by (rule prod_cases3)
  have eq: "r = r'" "tr = tr'" "V s = V s'" using assms(1) by (simp_all add: m m')
  show ?thesis using assms(2) [OF eq(3)] eq(3) by (cases r') (simp_all add: m m' eq(1,2))
qed

lemma seen_split: "(\<And>a b. x = (a, b) \<Longrightarrow> seen V (f a b tr s) = seen V (f a b tr s')) \<Longrightarrow>
    seen V (case_prod f x tr s) = seen V (case_prod f x tr s')"
  by (cases x) simp

lemma seen_option:
  "(\<And>h. x = Some h \<Longrightarrow> seen V (f h) = seen V (f' h)) \<Longrightarrow> (x = None \<Longrightarrow> seen V m = seen V m') \<Longrightarrow>
   seen V (case x of Some h \<Rightarrow> f h | None \<Rightarrow> m) = seen V (case x of Some h \<Rightarrow> f' h | None \<Rightarrow> m')"
  by (cases x) simp_all

lemma run_view:
  assumes "stage_view V (auth_stage P ctx)"
    and "\<And>model sv. stage_view V (cache_stage pf rg P ctx prompt model sv)"
    and "stage_view V served_stage"
    and "stage_view V (retrieve_stage pf rg P ctx prompt)"
    and "\<And>cs. stage_view V (compress_stage P prompt cs)"
    and "\<And>model cs. stage_view V (assemble_stage pf rg P ctx prompt model max_tokens system cs)"
    and "\<And>model toks. stage_view V (route_stage rg P ctx prompt model toks)"
    and "\<And>d model msgs. stage_view V (invoke_stage rg P d model msgs max_tokens)"
    and "\<And>model sv injd resp. stage_view V (writeback_stage pf rg P ctx prompt model sv injd resp)"
    and "V s = V s'"
  shows "fst (run pf rg P ctx prompt model max_tokens system s) = fst (run pf rg P ctx prompt model max_tokens system s') \<and>
    V (snd (run pf rg P ctx prompt model max_tokens system s)) = V (snd (run pf rg P ctx prompt model max_tokens system s'))"
proof -
  let ?tr = "\<lparr>tr_trace_id = rg_trace_id rg, tr_tenant_id = ctx_tenant_id ctx, tr_spans = []\<rparr>"
  let ?on = "\<lambda>s. s\<lparr>ps_traces := tracer_put ?tr (ps_traces s)\<rparr>"
  have start: "tracer_start ctx (rg_trace_id rg) t = (?tr, tracer_put ?tr t)" for t
    by (simp add: tracer_start_def tracer_put_def Let_def)
  have miss: "seen V (run_miss pf rg P ctx prompt model1 max_tokens system tr s) =
      seen V (run_miss pf rg P ctx prompt model1 max_tokens system tr s')" if "V s = V s'" for tr s s' model1
    unfolding run_miss_unfold
    by (rule seen_seq seen_span seen_split seen_return assms that | assumption)+
  have hit: "seen V (run_hit rg model1 h tr s) = seen V (run_hit rg model1 h tr s')" if "V s = V s'" for tr s s' model1 h
    unfolding run_hit_def
    by (rule seen_seq seen_span seen_return assms that | assumption)+
  have on: "V (?on s) = V (?on s')" using assms(10) by (rule view_trace)
  have "seen V (run_traced pf rg P ctx prompt model max_tokens system ?tr (?on s)) =
      seen V (run_traced pf rg P ctx prompt model max_tokens system ?tr (?on s'))"
    unfolding run_traced_def Let_def
    by (rule seen_seq seen_span seen_option miss hit assms on | assumption)+
  then show ?thesis
    by (auto simp: run_def start seen_def split: prod.splits)
qed

end

section \<open>The view of one tenant\<close>

text \<open>Trace ids are fresh, so each belongs to one tenant: \<open>own\<close> says to whom. What a tenant's requests
  can depend on is its partition of every component, its traces, and the backends.\<close>

definition own_traces :: "(string \<Rightarrow> string) \<Rightarrow> string \<Rightarrow> tracer \<Rightarrow> string \<Rightarrow> trace option" where
  "own_traces own t tr i = (if own i = t then dget tr i else None)"

lemma own_traces_put [simp]:
  "own_traces own t (tracer_put tr a) =
     (if own (tr_trace_id tr) = t then (own_traces own t a)(tr_trace_id tr := Some tr) else own_traces own t a)"
  by (rule ext) (simp add: own_traces_def tracer_put_get)

type_synonym 'w tenant_view =
  "((string, memory_object) dict \<times> (string, stored_entry) dict \<times> (string, context_bundle) dict) \<times>
   ((string, flt) dict \<times> cost_record list) \<times> (string \<Rightarrow> trace option) \<times> 'w registry \<times> 'w"

definition pipe_view_of ::
  "(string \<Rightarrow> string) \<Rightarrow> string \<Rightarrow> (mem_store, cache_store, 'w) pipe_state \<Rightarrow> 'w tenant_view" where
  "pipe_view_of own t st =
     ((part (ps_store st) t, part (ps_cache st) t, part (ps_bundles st) t),
      (lg_prices (ps_ledger st), tenant_records (ps_ledger st) t),
      own_traces own t (ps_traces st), ps_backends st, ps_world st)"

interpretation tview: pipe_view "pipe_view_of own t" for own t
  by unfold_locales (simp add: pipe_view_of_def)

end
