(* ===== verification/Tenancy.thy ===== *)
theory Tenancy
  imports Serving PipelineViews
begin

text \<open>
  The gateway as a multi-tenant service: what any endpoint answers a tenant, and what it leaves in
  the tenant's view, depend on that view only (\<open>tenant_scoped\<close> on the whole application). The
  backend is one whose answers depend on the request alone, so its world is \<open>unit\<close>: a backend with
  a memory of its own is outside the program.
\<close>

section \<open>Stages\<close>

text \<open>What equal views give.\<close>

lemma view_eqD:
  assumes "pipe_view_of own t s = pipe_view_of own t s'"
  shows "part (ps_store s) t = part (ps_store s') t" "part (ps_cache s) t = part (ps_cache s') t"
    "part (ps_bundles s) t = part (ps_bundles s') t" "lg_prices (ps_ledger s) = lg_prices (ps_ledger s')"
    "tenant_records (ps_ledger s) t = tenant_records (ps_ledger s') t"
    "own_traces own t (ps_traces s) = own_traces own t (ps_traces s')"
    "ps_backends s = ps_backends s'" "ps_world s = ps_world s'"
  using assms by (simp_all add: pipe_view_of_def)

lemma retrieve_part:
  "part s (ctx_tenant_id ctx) = part s' (ctx_tenant_id ctx) \<Longrightarrow>
   retrieve inmem E L so ctx q k now s = retrieve inmem E L so ctx q k now s'"
  by (simp add: retrieve_def inmem_def list_memories_def)

lemma view_auth: "stage_view (pipe_view_of own t) (auth_stage P ctx)"
  by (cases "check (pl_policy P) ctx [(''type'', ''model''), (''tenant_id'', ctx_tenant_id ctx)] ROUTE")
    (simp_all add: stage_view_def auth_stage_def del: check_Inr_iff)

lemma view_cache:
  fixes P :: "(mem_store, cache_store, 'w) pipeline"
  assumes "pl_cache P = Some sc" and "cache_backend sc = mem_cache"
  shows "stage_view (pipe_view_of own (ctx_tenant_id ctx)) (cache_stage pf rg P ctx prompt model sv)"
proof (rule stage_viewI)
  fix sp and s s' :: "(mem_store, cache_store, 'w) pipe_state"
  assume v: "pipe_view_of own (ctx_tenant_id ctx) s = pipe_view_of own (ctx_tenant_id ctx) s'"
  have "pipe_lookup pf rg P ctx prompt model sv s = pipe_lookup pf rg P ctx prompt model sv s'"
    unfolding pipe_lookup_def assms option.case by (rule lookup_part [OF view_eqD(2) [OF v]])
  then show "seen (pipe_view_of own (ctx_tenant_id ctx)) (cache_stage pf rg P ctx prompt model sv sp s) =
      seen (pipe_view_of own (ctx_tenant_id ctx)) (cache_stage pf rg P ctx prompt model sv sp s')"
    using v by (simp add: cache_stage_def Let_def)
qed

lemma view_served: "stage_view (pipe_view_of own t) served_stage"
  by (rule stage_viewI) (simp add: served_stage_def)

lemma view_retrieve:
  fixes P :: "(mem_store, cache_store, 'w) pipeline"
  assumes "pl_memory P = Some (inmem, E)"
  shows "stage_view (pipe_view_of own (ctx_tenant_id ctx)) (retrieve_stage pf rg P ctx prompt)"
proof (rule stage_viewI)
  fix sp and s s' :: "(mem_store, cache_store, 'w) pipe_state"
  assume v: "pipe_view_of own (ctx_tenant_id ctx) s = pipe_view_of own (ctx_tenant_id ctx) s'"
  have "retrieve inmem E (pf_libm pf) (pf_set_order pf) ctx prompt RETRIEVE_K (rg_retrieve rg) (ps_store s) =
      retrieve inmem E (pf_libm pf) (pf_set_order pf) ctx prompt RETRIEVE_K (rg_retrieve rg) (ps_store s')"
    by (rule retrieve_part [OF view_eqD(1) [OF v]])
  then show "seen (pipe_view_of own (ctx_tenant_id ctx)) (retrieve_stage pf rg P ctx prompt sp s) =
      seen (pipe_view_of own (ctx_tenant_id ctx)) (retrieve_stage pf rg P ctx prompt sp s')"
    using v by (simp add: retrieve_stage_def assms split: sum.split)
qed

lemma view_compress: "stage_view (pipe_view_of own t) (compress_stage P prompt cs)"
  by (rule stage_viewI) (simp add: compress_stage_def pipe_view_of_def split: prod.split)

lemma view_assemble: "stage_view (pipe_view_of own (ctx_tenant_id ctx)) (assemble_stage pf rg P ctx prompt model mt system cs)"
  by (rule stage_viewI)
    (simp add: assemble_stage_def capture_def bundle_put_def pipe_view_of_def Let_def split: sum.split option.split)

lemma view_route: "stage_view (pipe_view_of own t) (route_stage rg P ctx prompt model toks)"
  by (rule stage_viewI) (simp add: route_stage_def pipe_view_of_def split: sum.split)

lemma view_invoke:
  fixes P :: "(mem_store, cache_store, 'w) pipeline"
  shows "stage_view (pipe_view_of own t) (invoke_stage rg P d model msgs mt)"
proof (rule stage_viewI)
  fix sp and s s' :: "(mem_store, cache_store, 'w) pipe_state"
  assume v: "pipe_view_of own t s = pipe_view_of own t s'"
  obtain res reg w where X: "(case d of
           Some x \<Rightarrow> invoke_routed rg x msgs mt (ps_backends s') (ps_world s')
         | None \<Rightarrow> (case ad_generate (pl_adapter P) (mk_request model msgs mt) (ps_world s') of
                (Inl e, w') \<Rightarrow> (Inl e, ps_backends s', w')
              | (Inr resp, w') \<Rightarrow> (Inr (resp, ad_name (pl_adapter P), model), ps_backends s', w'))) = (res, reg, w)"
    by (rule prod_cases3)
  have "pipe_view_of own t (s\<lparr>ps_backends := reg, ps_world := w\<rparr>) = pipe_view_of own t (s'\<lparr>ps_backends := reg, ps_world := w\<rparr>)"
    using v by (simp add: pipe_view_of_def)
  then show "seen (pipe_view_of own t) (invoke_stage rg P d model msgs mt sp s) =
      seen (pipe_view_of own t) (invoke_stage rg P d model msgs mt sp s')"
    unfolding invoke_stage_def view_eqD(7,8) [OF v] X Let_def by (cases res) (simp_all split: prod.split)
qed

lemma view_writeback:
  fixes P :: "(mem_store, cache_store, 'w) pipeline"
  assumes "pl_cache P = Some sc" and "cache_backend sc = mem_cache"
  shows "stage_view (pipe_view_of own (ctx_tenant_id ctx)) (writeback_stage pf rg P ctx prompt model sv injd resp)"
proof (rule stage_viewI)
  fix sp and s s' :: "(mem_store, cache_store, 'w) pipe_state"
  let ?t = "ctx_tenant_id ctx" and ?op = "writeback_op rg ctx prompt (rs_text resp) model sv (0 < injd)"
  assume v: "pipe_view_of own ?t s = pipe_view_of own ?t s'"
  have owner: "op_owner ?op = ?t" by (simp add: op_owner_def writeback_op_def)
  have cached: "fst (store mem_cache (pf_sha pf) (cache_embedder sc) (cache_ttl sc) ?op c) =
      fst (store mem_cache (pf_sha pf) (cache_embedder sc) (cache_ttl sc) ?op c')" for c c'
    by (auto simp: store_def mem_cache_def cache_put_def bnd_def split: sum.splits)
  have cache: "part (snd (store mem_cache (pf_sha pf) (cache_embedder sc) (cache_ttl sc) ?op (ps_cache s))) ?t =
      part (snd (store mem_cache (pf_sha pf) (cache_embedder sc) (cache_ttl sc) ?op (ps_cache s'))) ?t"
    using cache_iso.step_consistent [OF owner view_eqD(2) [OF v]] by (simp add: cache_step_def)
  have attached: "part (snd (bundle_attach ctx (rg_trace_id rg) out (ps_bundles s))) ?t =
      part (snd (bundle_attach ctx (rg_trace_id rg) out (ps_bundles s'))) ?t" for out
    using bundle_iso.step_consistent [of "Attach ctx (rg_trace_id rg) out" ?t, OF _ view_eqD(3) [OF v]] by simp
  have ledger: "lg_prices (snd (ledger_record ctx model u (ps_ledger s))) = lg_prices (snd (ledger_record ctx model u (ps_ledger s')))"
      "tenant_records (snd (ledger_record ctx model u (ps_ledger s))) ?t =
       tenant_records (snd (ledger_record ctx model u (ps_ledger s'))) ?t" for u
    using ledger_iso.step_consistent [of "(ctx, model, u)" ?t "ps_ledger s" "ps_ledger s'"] view_eqD(4,5) [OF v]
    by (simp_all add: ledger_step_def ledger_owner_def)
  have same: "fst (writeback_stage pf rg P ctx prompt model sv injd resp sp s) =
      fst (writeback_stage pf rg P ctx prompt model sv injd resp sp s')"
    "fst (snd (writeback_stage pf rg P ctx prompt model sv injd resp sp s)) =
      fst (snd (writeback_stage pf rg P ctx prompt model sv injd resp sp s'))"
    using cached [of "ps_cache s" "ps_cache s'"]
    by (auto simp: writeback_stage_def assms Let_def split: prod.split)
  have "pipe_view_of own ?t (snd (snd (writeback_stage pf rg P ctx prompt model sv injd resp sp s))) =
      pipe_view_of own ?t (snd (snd (writeback_stage pf rg P ctx prompt model sv injd resp sp s')))"
    unfolding writeback_stage_state assms option.case
    using v cache attached ledger by (auto simp: pipe_view_of_def)
  then show "seen (pipe_view_of own ?t) (writeback_stage pf rg P ctx prompt model sv injd resp sp s) =
      seen (pipe_view_of own ?t) (writeback_stage pf rg P ctx prompt model sv injd resp sp s')"
    using same by (simp add: seen_def case_prod_beta)
qed

lemma wired_run_view:
  fixes P :: "(mem_store, cache_store, 'w) pipeline"
  assumes "P = build_pipeline gs a blake"
    and "pipe_view_of own (ctx_tenant_id ctx) s = pipe_view_of own (ctx_tenant_id ctx) s'"
  shows "fst (run pf rg P ctx prompt model mt system s) = fst (run pf rg P ctx prompt model mt system s') \<and>
    pipe_view_of own (ctx_tenant_id ctx) (snd (run pf rg P ctx prompt model mt system s)) =
    pipe_view_of own (ctx_tenant_id ctx) (snd (run pf rg P ctx prompt model mt system s'))"
proof (rule tview.run_view [OF view_auth view_cache view_served view_retrieve view_compress view_assemble
      view_route view_invoke view_writeback assms(2)])
  show "pl_cache P = Some (build_cache blake)" "cache_backend (build_cache blake) = mem_cache"
    "pl_memory P = Some (inmem, hashing_provider blake DEFAULT_DIM)"
    by (simp_all add: assms(1))
  then show "pl_cache P = Some (build_cache blake)" "cache_backend (build_cache blake) = mem_cache" by simp_all
qed

section \<open>The whole application\<close>

definition app_view :: "(string \<Rightarrow> string) \<Rightarrow> string \<Rightarrow> 'w app_state \<Rightarrow>
    'w tenant_view \<times> (string, commit) dict \<times> (string, string option) dict" where
  "app_view own t app = (pipe_view_of own t (as_pipe app), part (vs_commits (as_versioning app)) t,
     part (vs_branches (as_versioning app)) t)"

lemma add_memory_part:
  "part s (ctx_tenant_id ctx) = part s' (ctx_tenant_id ctx) \<Longrightarrow>
   \<exists>r s1 s1'. add_memory ctx m s = (r, s1) \<and> add_memory ctx m s' = (r, s1') \<and>
     part s1 (ctx_tenant_id ctx) = part s1' (ctx_tenant_id ctx)"
  by (simp add: add_memory_def)

lemma rollback_loop_part:
  "part s (ctx_tenant_id ctx) = part s' (ctx_tenant_id ctx) \<Longrightarrow>
   \<exists>r s1 s1'. rollback_loop inmem ctx present ms n s = (r, s1) \<and> rollback_loop inmem ctx present ms n s' = (r, s1') \<and>
     part s1 (ctx_tenant_id ctx) = part s1' (ctx_tenant_id ctx)"
proof (induction ms arbitrary: n s s')
  case (Cons m ms)
  obtain r s1 s1' where add: "mem_put inmem ctx m s = (r, s1)" "mem_put inmem ctx m s' = (r, s1')"
    and eq: "part s1 (ctx_tenant_id ctx) = part s1' (ctx_tenant_id ctx)"
    using add_memory_part [OF Cons.prems, of m] by (auto simp: mem_put_def inmem_def)
  show ?case
  proof (cases "mo_id m \<in> present")
    case True
    show ?thesis using Cons.IH [OF Cons.prems, of n] by (simp only: rollback_loop.simps True if_True)
  next
    case False
    show ?thesis
      using Cons.IH [OF eq, of "Suc n"] eq by (cases r) (simp_all only: rollback_loop.simps False if_False add prod.case sum.case, blast)
  qed
qed simp

lemma rollback_loop_other:
  "t \<noteq> ctx_tenant_id ctx \<Longrightarrow> part (snd (rollback_loop inmem ctx present ms n s)) t = part s t"
  by (induction ms arbitrary: n s) (simp_all add: mem_put_def inmem_def add_memory_def)

section \<open>Who owns a request\<close>

text \<open>Every request of a chat has its fresh trace id, which belongs to its tenant.\<close>

definition owned :: "(string \<Rightarrow> string) \<Rightarrow> request \<Rightarrow> bool" where
  "owned own q = (case resolve_security_context (rq_headers q) (rq_id q) of
     Inl _ \<Rightarrow> True
   | Inr ctx \<Rightarrow> (case rq_call q of Chat _ rg \<Rightarrow> own (rg_trace_id rg) = ctx_tenant_id ctx | _ \<Rightarrow> True))"

definition caller :: "request \<Rightarrow> string" where
  "caller q = or_else (hd_tenant_id (rq_headers q)) []"

lemma caller_resolved:
  "resolve_security_context (rq_headers q) rid = Inr ctx \<Longrightarrow> caller q = ctx_tenant_id ctx"
  by (auto simp: caller_def resolve_security_context_def resolve_Inr_iff truthy_def or_else_def split: option.splits)

section \<open>Other tenants' requests\<close>

text \<open>The wired application has no registry of backends, and never gets one.\<close>

definition unrouted :: "(mem_store, cache_store, 'w) pipe_state \<Rightarrow> (mem_store, cache_store, 'w) pipe_state \<Rightarrow> bool" where
  "unrouted st st' = (ps_backends st = [] \<longrightarrow> ps_backends st' = [])"

interpretation unrouted: pipe_frame unrouted tid for tid
  by unfold_locales (simp_all add: unrouted_def)

lemma invoke_loop_unrouted: "fst (snd (invoke_loop clk msgs mt k names [] w)) = []"
  by (induction names arbitrary: k) (simp_all add: registry_get_def)

lemma unrouted_invoke:
  fixes P :: "(mem_store, cache_store, 'w) pipeline"
  shows "stage_frame unrouted (invoke_stage rg P d model msgs mt)"
  unfolding stage_frame_def
proof (intro allI)
  fix sp and st :: "(mem_store, cache_store, 'w) pipe_state"
  obtain reg w where "snd (snd (invoke_stage rg P d model msgs mt sp st)) = st\<lparr>ps_backends := reg, ps_world := w\<rparr>"
    "d = None \<longrightarrow> reg = ps_backends st"
    "\<forall>x. d = Some x \<longrightarrow> reg = fst (snd (invoke_routed rg x msgs mt (ps_backends st) (ps_world st)))"
    using invoke_stage_state [of rg P d model msgs mt sp st] by (elim exE conjE) (rule that)
  then show "unrouted st (snd (snd (invoke_stage rg P d model msgs mt sp st)))"
    by (cases d) (simp_all add: unrouted_def invoke_routed_def invoke_loop_unrouted del: invoke_loop.simps)
qed

lemma unrouted_pure: "(\<And>sp st. ps_backends (snd (snd (body sp st))) = ps_backends st) \<Longrightarrow> stage_frame unrouted body"
  by (simp add: stage_frame_def unrouted_def)

lemma run_unrouted: "unrouted st (snd (run pf rg P ctx prompt model max_tokens system st))"
  by (rule unrouted.run_frame [OF _ _ _ _ compress_stage_frame assemble_stage_frame _ unrouted_invoke _ refl];
      (rule unrouted_pure)?) (simp_all only: pure_stages, simp_all add: unrouted_def writeback_stage_state)

lemma run_other_view:
  fixes P :: "(mem_store, cache_store, unit) pipeline"
  assumes "P = build_pipeline gs a blake" and "t \<noteq> ctx_tenant_id ctx" and "own (rg_trace_id rg) = ctx_tenant_id ctx"
    and "ps_backends st = []"
  shows "pipe_view_of own t (snd (run pf rg P ctx prompt model mt system st)) = pipe_view_of own t st"
proof -
  let ?st = "snd (run pf rg P ctx prompt model mt system st)"
  have "others_unchanged (ctx_tenant_id ctx) (rg_trace_id rg) st ?st" by (rule run_others) (simp add: assms(1))
  moreover have "own_traces own t (ps_traces ?st) = own_traces own t (ps_traces st)"
  proof (rule ext)
    fix i
    show "own_traces own t (ps_traces ?st) i = own_traces own t (ps_traces st) i"
      using calculation assms(2,3) by (cases "i = rg_trace_id rg") (simp_all add: own_traces_def others_unchanged_def)
  qed
  moreover have "ps_backends ?st = []"
    using run_unrouted [of st pf rg P ctx prompt model mt system] assms(4) by (simp add: unrouted_def)
  ultimately show ?thesis using assms(2,4) by (simp add: pipe_view_of_def others_unchanged_def)
qed

lemma endpoint_other_view:
  fixes app :: "unit app_state"
  assumes "gw = create_app H S blake gs a" and "t \<noteq> ctx_tenant_id ctx"
    and "\<And>body rg. c = Chat body rg \<Longrightarrow> own (rg_trace_id rg) = ctx_tenant_id ctx" and "ps_backends (as_pipe app) = []"
  shows "app_view own t (snd (endpoint pf gw c ctx app)) = app_view own t app"
proof (cases c)
  case (Chat body rg)
  have "gw_pipeline gw = build_pipeline gs (gw_adapter gw) blake" by (simp add: assms(1))
  from run_other_view [where own = own, OF this assms(2) assms(3) [OF Chat] assms(4)]
  show ?thesis using Chat by (simp add: chat_def app_view_def case_prod_beta)
next
  case (WriteMemory body ulid clk)
  have "part (snd (mem_write inmem ctx p tr i src sid md ulid clk s)) t = part s t" for p tr i src sid md s
    using assms(2) by (simp add: mem_write_def inmem_def add_memory_def split: sum.split)
  then show ?thesis
    using WriteMemory by (simp add: assms(1) write_memory_def app_view_def pipe_view_of_def case_prod_beta)
next
  case (MemoryCommit body ulid now)
  then show ?thesis
    using assms(2) by (simp add: assms(1) memory_commit_def commit_memories_def app_view_def Let_def)
next
  case (MemoryRollback body)
  have "part (snd (rollback inmem ctx k vs s)) t = part s t" for k vs s
    using assms(2) by (simp add: rollback_def rollback_loop_other split: option.split)
  then show ?thesis
    using MemoryRollback by (simp add: assms(1) memory_rollback_def app_view_def pipe_view_of_def case_prod_beta)
qed simp_all

section \<open>A tenant's own requests\<close>

lemma app_view_eqD:
  assumes "app_view own t app = app_view own t app'"
  shows "pipe_view_of own t (as_pipe app) = pipe_view_of own t (as_pipe app')"
    "part (vs_commits (as_versioning app)) t = part (vs_commits (as_versioning app')) t"
    "part (vs_branches (as_versioning app)) t = part (vs_branches (as_versioning app')) t"
  using assms by (simp_all add: app_view_def)

text \<open>A trace filed under an id is of the tenant that owns the id.\<close>

definition traces_owned :: "(string \<Rightarrow> string) \<Rightarrow> ('s, 'c, 'w) pipe_state \<Rightarrow> bool" where
  "traces_owned own st = (\<forall>i tr. dget (ps_traces st) i = Some tr \<longrightarrow> tr_tenant_id tr = own i)"

lemma tracer_get_own:
  "traces_owned own st \<Longrightarrow> tracer_get ctx i (ps_traces st) = own_traces own (ctx_tenant_id ctx) (ps_traces st) i"
  by (auto simp: tracer_get_def own_traces_def traces_owned_def split: option.split)

lemma mem_write_part:
  "part s (ctx_tenant_id ctx) = part s' (ctx_tenant_id ctx) \<Longrightarrow>
   \<exists>r s1 s1'. mem_write inmem ctx p tier i src sid md ulid clk s = (r, s1) \<and>
     mem_write inmem ctx p tier i src sid md ulid clk s' = (r, s1') \<and> part s1 (ctx_tenant_id ctx) = part s1' (ctx_tenant_id ctx)"
  using add_memory_part [of s ctx s'] by (auto simp: mem_write_def inmem_def split: sum.split)

lemma all_memories_part:
  "part s (ctx_tenant_id ctx) = part s' (ctx_tenant_id ctx) \<Longrightarrow> all_memories inmem ctx n s = all_memories inmem ctx n s'"
  by (simp add: all_memories_def inmem_def list_memories_def)

lemma rollback_part:
  assumes "part s (ctx_tenant_id ctx) = part s' (ctx_tenant_id ctx)"
    and "part (vs_commits vs) (ctx_tenant_id ctx) = part (vs_commits vs') (ctx_tenant_id ctx)"
  shows "\<exists>r s1 s1'. rollback inmem ctx k vs s = (r, s1) \<and> rollback inmem ctx k vs' s' = (r, s1') \<and>
    part s1 (ctx_tenant_id ctx) = part s1' (ctx_tenant_id ctx)"
proof -
  have "commit_get ctx k vs = commit_get ctx k vs'" by (simp add: commit_get_def assms(2))
  then show ?thesis
    using rollback_loop_part [OF assms(1)] assms(1)
    by (cases "commit_get ctx k vs'") (simp_all add: rollback_def all_memories_part [OF assms(1)])
qed

lemma replies_part:
  assumes "app_view own (ctx_tenant_id ctx) app = app_view own (ctx_tenant_id ctx) app'"
  shows "bundle_get ctx tid (ps_bundles (as_pipe app)) = bundle_get ctx tid (ps_bundles (as_pipe app'))"
    "ledger_summary ctx (ps_ledger (as_pipe app)) = ledger_summary ctx (ps_ledger (as_pipe app'))"
    "branches ctx (as_versioning app) = branches ctx (as_versioning app')"
    "commit_get ctx k (as_versioning app) = commit_get ctx k (as_versioning app')"
  using view_eqD [OF app_view_eqD(1) [OF assms]] app_view_eqD(2,3) [OF assms]
  by (simp_all add: bundle_get_def ledger_summary_def branches_def commit_get_def)

lemma endpoint_view:
  assumes "gw = create_app H S blake gs a" and v: "app_view own (ctx_tenant_id ctx) app = app_view own (ctx_tenant_id ctx) app'"
  shows "(traces_owned own (as_pipe app) \<longrightarrow> traces_owned own (as_pipe app') \<longrightarrow>
      fst (endpoint pf gw c ctx app) = fst (endpoint pf gw c ctx app')) \<and>
    app_view own (ctx_tenant_id ctx) (snd (endpoint pf gw c ctx app)) =
    app_view own (ctx_tenant_id ctx) (snd (endpoint pf gw c ctx app'))"
proof (cases c)
  case (Chat body rg)
  have "gw_pipeline gw = build_pipeline gs (gw_adapter gw) blake" by (simp add: assms(1))
  from wired_run_view [where own = own, OF this app_view_eqD(1) [OF v]]
  show ?thesis using Chat app_view_eqD(2,3) [OF v] by (simp add: chat_def app_view_def case_prod_beta)
next
  case (WriteMemory body ulid clk)
  obtain r s1 s1' where
    "mem_write inmem ctx (mb_content body) (mb_tier body) (mb_importance body) ''chat'' None None ulid clk (ps_store (as_pipe app)) = (r, s1)"
    "mem_write inmem ctx (mb_content body) (mb_tier body) (mb_importance body) ''chat'' None None ulid clk (ps_store (as_pipe app')) = (r, s1')"
    "part s1 (ctx_tenant_id ctx) = part s1' (ctx_tenant_id ctx)"
    using mem_write_part [OF view_eqD(1) [OF app_view_eqD(1) [OF v]]] by blast
  then show ?thesis
    using WriteMemory v by (simp add: assms(1) write_memory_def app_view_def pipe_view_of_def)
next
  case (MemoryCommit body ulid now)
  then show ?thesis
    using v all_memories_part [OF view_eqD(1) [OF app_view_eqD(1) [OF v]], of COMMIT_LIMIT]
    by (simp add: assms(1) memory_commit_def commit_memories_def app_view_def Let_def)
next
  case (MemoryRollback body)
  obtain r s1 s1' where
    "rollback inmem ctx (lb_cid body) (as_versioning app) (ps_store (as_pipe app)) = (r, s1)"
    "rollback inmem ctx (lb_cid body) (as_versioning app') (ps_store (as_pipe app')) = (r, s1')"
    "part s1 (ctx_tenant_id ctx) = part s1' (ctx_tenant_id ctx)"
    using rollback_part [OF view_eqD(1) [OF app_view_eqD(1) [OF v]] app_view_eqD(2) [OF v]] by blast
  then show ?thesis
    using MemoryRollback v by (simp add: assms(1) memory_rollback_def app_view_def pipe_view_of_def)
next
  case (GetTrace tid)
  then show ?thesis
    using v view_eqD(6) [OF app_view_eqD(1) [OF v]] by (simp add: get_trace_def tracer_get_own [of own])
next
  case (TraceOtel tid)
  then show ?thesis
    using v view_eqD(6) [OF app_view_eqD(1) [OF v]] by (simp add: trace_otel_def tracer_get_own [of own])
next
  case (ReplayTrace tid)
  then show ?thesis using v replies_part(1) [OF v] by (simp add: replay_trace_def replay_def)
next
  case (GetBundle tid)
  then show ?thesis using v replies_part(1) [OF v] by (simp add: get_bundle_def)
next
  case AdminCost
  then show ?thesis using v replies_part(2) [OF v] by (simp add: admin_cost_def)
next
  case MemoryBranches
  then show ?thesis using v replies_part(3) [OF v] by (simp add: memory_branches_def)
next
  case (MemoryDiff x y)
  then show ?thesis using v replies_part(4) [OF v] by (simp add: memory_diff_between_def diff_commits_def)
next
  case (TraceDiff x y)
  then show ?thesis using v replies_part(1) [OF v] by (simp add: trace_diff_def)
qed

section \<open>Noninterference\<close>

definition tenant_step :: "platform \<Rightarrow> unit gateway \<Rightarrow> (string \<Rightarrow> string) \<Rightarrow> request \<Rightarrow> unit app_state \<Rightarrow> unit app_state" where
  "tenant_step pf gw own q app =
     (if owned own q \<and> ps_backends (as_pipe app) = [] then snd (serve pf gw q app) else app)"

text \<open>The law of the locale, for the gateway of any settings and backend.\<close>

lemma served_view:
  fixes app app' :: "unit app_state"
  assumes "gw = create_app H S blake gs a" and "owned own q" and "ps_backends (as_pipe app) = []"
  shows "caller q \<noteq> t \<Longrightarrow> app_view own t (snd (serve pf gw q app)) = app_view own t app"
    and "caller q = t \<Longrightarrow> app_view own t app = app_view own t app' \<Longrightarrow>
      (traces_owned own (as_pipe app) \<longrightarrow> traces_owned own (as_pipe app') \<longrightarrow>
        fst (serve pf gw q app) = fst (serve pf gw q app')) \<and>
      app_view own t (snd (serve pf gw q app)) = app_view own t (snd (serve pf gw q app'))"
proof -
  assume other: "caller q \<noteq> t"
  show "app_view own t (snd (serve pf gw q app)) = app_view own t app"
  proof (cases "resolve_security_context (rq_headers q) (rq_id q)")
    case (Inr ctx)
    show ?thesis
      unfolding serve_resolved [OF Inr]
      by (rule endpoint_other_view [OF assms(1)])
        (use other caller_resolved [OF Inr] assms(2,3) in \<open>auto simp: owned_def Inr\<close>)
  qed (simp add: serve_def secured_def)
next
  assume own: "caller q = t" and v: "app_view own t app = app_view own t app'"
  show "(traces_owned own (as_pipe app) \<longrightarrow> traces_owned own (as_pipe app') \<longrightarrow>
        fst (serve pf gw q app) = fst (serve pf gw q app')) \<and>
      app_view own t (snd (serve pf gw q app)) = app_view own t (snd (serve pf gw q app'))"
  proof (cases "resolve_security_context (rq_headers q) (rq_id q)")
    case (Inr ctx)
    then have t: "t = ctx_tenant_id ctx" using caller_resolved [OF Inr] own by simp
    show ?thesis unfolding serve_resolved [OF Inr] t by (rule endpoint_view [OF assms(1) v [unfolded t]])
  qed (simp add: serve_def secured_def v)
qed

interpretation tenants: tenant_scoped "app_view own" "tenant_step pf (create_app H S blake gs a) own" caller
  for own pf H S blake gs a
proof
  fix q t and app app' :: "unit app_state"
  let ?gw = "create_app H S blake gs a"
  show "caller q \<noteq> t \<Longrightarrow> app_view own t (tenant_step pf ?gw own q app) = app_view own t app"
    by (simp add: tenant_step_def served_view(1) [OF refl])
  assume own: "caller q = t" and v: "app_view own t app = app_view own t app'"
  have b: "ps_backends (as_pipe app) = ps_backends (as_pipe app')"
    by (rule view_eqD(7) [OF app_view_eqD(1) [OF v]])
  show "app_view own t (tenant_step pf ?gw own q app) = app_view own t (tenant_step pf ?gw own q app')"
  proof (cases "owned own q \<and> ps_backends (as_pipe app) = []")
    case True
    have "app_view own t (snd (serve pf ?gw q app)) = app_view own t (snd (serve pf ?gw q app'))"
      by (rule served_view(2) [OF refl, THEN conjunct2]) (use True own v in auto)
    then show ?thesis using True b by (simp add: tenant_step_def)
  qed (use v b in \<open>auto simp: tenant_step_def\<close>)
qed

text \<open>Served requests leave the application as the laws need it.\<close>

definition app_ok :: "(string \<Rightarrow> string) \<Rightarrow> 'w app_state \<Rightarrow> bool" where
  "app_ok own app = (traces_owned own (as_pipe app) \<and> ps_backends (as_pipe app) = [])"

lemma run_traces_owned:
  fixes P :: "(mem_store, cache_store, 'w) pipeline"
  assumes "P = build_pipeline gs a blake" and "own (rg_trace_id rg) = ctx_tenant_id ctx" and "traces_owned own st"
  shows "traces_owned own (snd (run pf rg P ctx prompt model mt system st))"
proof -
  let ?st = "snd (run pf rg P ctx prompt model mt system st)"
  have "others_unchanged (ctx_tenant_id ctx) (rg_trace_id rg) st ?st" by (rule run_others) (simp add: assms(1))
  then have other: "dget (ps_traces ?st) i = dget (ps_traces st) i" if "i \<noteq> rg_trace_id rg" for i
    using that by (simp add: others_unchanged_def)
  obtain tr where "tracer_get ctx (rg_trace_id rg) (ps_traces ?st) = Some tr"
    using run_files_trace [where st = st and rg = rg and P = P and ctx = ctx and pf = pf and prompt = prompt and model = model
        and mt = mt and system = system] by (auto split: prod.splits)
  then have mine: "dget (ps_traces ?st) (rg_trace_id rg) = Some tr" "tr_tenant_id tr = ctx_tenant_id ctx"
    by (auto simp: tracer_get_def split: option.splits if_splits)
  show ?thesis
    unfolding traces_owned_def
  proof (intro allI impI)
    fix i t
    assume "dget (ps_traces ?st) i = Some t"
    then show "tr_tenant_id t = own i"
      using mine other assms(2,3) by (cases "i = rg_trace_id rg") (auto simp: traces_owned_def)
  qed
qed

lemma served_ok:
  assumes "gw = create_app H S blake gs a" and "owned own q" and "app_ok own app"
  shows "app_ok own (snd (serve pf gw q app))"
proof (cases "resolve_security_context (rq_headers q) (rq_id q)")
  case (Inr ctx)
  have P: "gw_pipeline gw = build_pipeline gs (gw_adapter gw) blake" by (simp add: assms(1))
  show ?thesis
  proof (cases "rq_call q")
    case (Chat body rg)
    then have "own (rg_trace_id rg) = ctx_tenant_id ctx" using assms(2) by (simp add: owned_def Inr)
    then show ?thesis
      using run_traces_owned [where own = own, OF P] run_unrouted [of "as_pipe app" pf rg "gw_pipeline gw"] assms(3)
      by (simp add: serve_resolved [OF Inr] Chat chat_def app_ok_def unrouted_def case_prod_beta)
  qed (use assms(3) in \<open>simp_all add: serve_resolved [OF Inr] app_ok_def traces_owned_def write_memory_def
      memory_commit_def memory_rollback_def case_prod_beta\<close>)
qed (use assms(3) in \<open>simp add: serve_def secured_def\<close>)

definition serve_all :: "platform \<Rightarrow> 'w gateway \<Rightarrow> request list \<Rightarrow> 'w app_state \<Rightarrow> 'w app_state" where
  "serve_all pf gw qs app = fold (\<lambda>q app. snd (serve pf gw q app)) qs app"

lemma serve_all_steps:
  assumes "gw = create_app H S blake gs a" and "\<forall>q \<in> set qs. owned own q" and "app_ok own app"
  shows "serve_all pf gw qs app = run_ops (tenant_step pf gw own) qs app \<and> app_ok own (serve_all pf gw qs app)"
  using assms(2,3)
proof (induction qs arbitrary: app)
  case (Cons q qs)
  then have "tenant_step pf gw own q app = snd (serve pf gw q app)" "app_ok own (snd (serve pf gw q app))"
    using served_ok [OF assms(1), of own q app pf] by (simp_all add: tenant_step_def app_ok_def)
  then show ?case using Cons.IH [of "snd (serve pf gw q app)"] Cons.prems by (auto simp: serve_all_def)
qed (simp add: serve_all_def)

lemma new_app_ok: "app_ok own (new_app w)"
  by (simp add: app_ok_def new_app_def traces_owned_def)

text \<open>A response is a function of the caller's own requests.\<close>

lemma answers_own:
  fixes gw :: "unit gateway"
  assumes "gw = create_app H S blake gs adapter" and "\<forall>q' \<in> set (q # qs). owned own q'"
  shows "fst (serve pf gw q (serve_all pf gw qs (new_app ()))) =
    fst (serve pf gw q (serve_all pf gw (purge caller (caller q) qs) (new_app ())))"
proof -
  let ?mine = "purge caller (caller q) qs"
  let ?app = "serve_all pf gw qs (new_app ())" and ?app' = "serve_all pf gw ?mine (new_app ())"
  have all: "?app = run_ops (tenant_step pf gw own) qs (new_app ())" "app_ok own ?app"
    using serve_all_steps [OF assms(1) _ new_app_ok, of qs own pf "()"] assms(2) by auto
  have mine: "?app' = run_ops (tenant_step pf gw own) ?mine (new_app ())" "app_ok own ?app'"
    using serve_all_steps [OF assms(1) _ new_app_ok, of ?mine own pf "()"] assms(2) by (auto simp: purge_def)
  have "app_view own (caller q) ?app = app_view own (caller q) ?app'"
    unfolding all(1) mine(1) unfolding assms(1) by (rule tenants.noninterference)
  then show ?thesis
    using served_view(2) [OF assms(1), of own q ?app "caller q" ?app' pf] assms(2) all(2) mine(2)
    by (simp add: app_ok_def)
qed

section \<open>Properties\<close>

text \<open>C4: No tenant's requests show in what another is answered. After any interleaving of requests of
  any tenants on a new application, any endpoint (chat, memories, traces, replays, bundles, cost,
  commits, branches, diffs, rollback) gives a caller the very response it would give had only the
  caller's own requests been served; the backend's answers depend on the request alone, and trace
  ids are not reused between tenants.\<close>

theorem gateway_noninterference:
  fixes H :: "unit http_client" and S blake gs adapter q qs
  defines "gw \<equiv> create_app H S blake gs adapter"
  assumes "\<forall>q' \<in> set (q # qs). owned own q'"
  shows "fst (serve pf gw q (serve_all pf gw qs (new_app ()))) =
    fst (serve pf gw q (serve_all pf gw (filter (\<lambda>q'. caller q' = caller q) qs) (new_app ())))"
  using answers_own [OF meta_eq_to_obj_eq [OF gw_def] assms(2), of pf] by (simp add: purge_def)

section \<open>Witness\<close>

text \<open>A cost report asked for between another tenant's requests.\<close>

definition fx_own :: "string \<Rightarrow> string" where
  "fx_own i = (if i = ''t1'' then ''globex'' else ''acme'')"

lemma gateway_noninterference_witness:
  "fst (serve fx_platform fx_gateway (fx_request ''acme'' AdminCost) (serve_all fx_platform fx_gateway
      [fx_request ''globex'' (Chat (default_chat_body ''hi'') fx_readings)] (new_app ()))) =
   fst (serve fx_platform fx_gateway (fx_request ''acme'' AdminCost) (new_app ()))"
proof -
  let ?a = "fx_request ''acme'' AdminCost" and ?g = "fx_request ''globex'' (Chat (default_chat_body ''hi'') fx_readings)"
  have "caller ?a = ''acme''" "caller ?g = ''globex''" by (simp_all add: caller_def fx_request_def or_else_def)
  moreover have "owned fx_own ?a" by (simp add: owned_def fx_request_def split: sum.split)
  moreover have "owned fx_own ?g"
    using calculation(2) caller_resolved [of ?g] by (auto simp: owned_def fx_request_def fx_own_def split: sum.split)
  ultimately show ?thesis
    using gateway_noninterference [where q = ?a and qs = "[?g]" and own = fx_own and pf = fx_platform,
        folded fx_gateway_def]
    by (auto simp: fx_gateway_def serve_all_def)
qed

end
