(* ===== verification/Concurrency.thy ===== *)
theory Concurrency
  imports Tenancy
begin

text \<open>
  Requests of the gateway in any interleaving. A chat request is a \<open>task\<close>: it runs on the event loop
  from one \<^verbatim>\<open>await\<close> to the next, here from one stage of the pipeline to the next, and between
  two of its steps the server may take any steps of any other request. The other endpoints await
  nothing that suspends over the in-process components, so they are served in one step. Run alone, a
  task is \<open>run\<close>; whatever is interleaved, no tenant sees another, and every request is answered after
  a bounded number of its own steps.
\<close>

section \<open>Tasks\<close>

datatype ('r, dead 'st) task = Done 'r | Await "'st \<Rightarrow> ('r, 'st) task \<times> 'st"

text \<open>A task run without interruption.\<close>

primrec finish :: "('r, 'st) task \<Rightarrow> 'st \<Rightarrow> 'r \<times> 'st" where
  "finish (Done r) = (\<lambda>st. (r, st))"
| "finish (Await f) = (\<lambda>st. case map_prod finish id (f st) of (g, st') \<Rightarrow> g st')"

lemma finish_Await: "finish (Await f) st = finish (fst (f st)) (snd (f st))"
  by (simp add: case_prod_beta)

definition in_span ::
  "readings \<Rightarrow> nat \<Rightarrow> string \<Rightarrow> string \<Rightarrow>
   (trace_span \<Rightarrow> ('s, 'c, 'w) pipe_state \<Rightarrow> 'a result \<times> trace_span \<times> ('s, 'c, 'w) pipe_state) \<Rightarrow> trace \<Rightarrow>
   ('a \<Rightarrow> trace \<Rightarrow> ('r result, ('s, 'c, 'w) pipe_state) task) \<Rightarrow> ('r result, ('s, 'c, 'w) pipe_state) task" where
  "in_span rg k stage name body tr cont = Await (\<lambda>st.
     case with_span rg k stage name body tr st of
       (Inl e, tr', st') \<Rightarrow> (Done (Inl e), st')
     | (Inr x, tr', st') \<Rightarrow> (cont x tr', st'))"

definition hit_task ::
  "readings \<Rightarrow> string \<Rightarrow> cache_hit \<Rightarrow> trace \<Rightarrow> (chat_result result, ('s, 'c, 'w) pipe_state) task" where
  "hit_task rg model hit tr =
     in_span rg 2 ''writeback'' ''served-from-cache'' served_stage tr (\<lambda>_ tr.
       Done (Inr \<lparr>res_text = ch_response_text hit, res_trace_id = tr_trace_id tr, res_model = model,
         res_usage = zero_usage\<rparr>))"

definition miss_task ::
  "platform \<Rightarrow> readings \<Rightarrow> ('s, 'c, 'w) pipeline \<Rightarrow> security_context \<Rightarrow> string \<Rightarrow> string \<Rightarrow> int \<Rightarrow>
   string option \<Rightarrow> trace \<Rightarrow> (chat_result result, ('s, 'c, 'w) pipe_state) task" where
  "miss_task pf rg P ctx prompt model max_tokens system tr =
     in_span rg 2 ''retrieve'' ''memory-retrieve'' (retrieve_stage pf rg P ctx prompt) tr (\<lambda>retrieved tr.
     in_span rg 3 ''compress'' ''context-compression'' (compress_stage P prompt retrieved) tr (\<lambda>candidates tr.
     in_span rg 4 ''assemble'' ''context-assembly''
       (assemble_stage pf rg P ctx prompt model max_tokens system candidates) tr (\<lambda>(messages, injected, toks) tr.
     in_span rg 5 ''route'' ''model-router'' (route_stage rg P ctx prompt model toks) tr (\<lambda>(decision, model) tr.
     in_span rg 6 ''backend.invoke'' ''adapter.generate''
       (invoke_stage rg P decision model messages max_tokens) tr (\<lambda>(resp, model) tr.
     in_span rg 7 ''writeback'' ''enqueue-async''
       (writeback_stage pf rg P ctx prompt model (system_version pf system) injected resp) tr (\<lambda>_ tr.
     Done (Inr \<lparr>res_text = rs_text resp, res_trace_id = tr_trace_id tr, res_model = rs_model resp,
       res_usage = rs_usage resp\<rparr>)))))))"

definition chat_task ::
  "platform \<Rightarrow> readings \<Rightarrow> ('s, 'c, 'w) pipeline \<Rightarrow> security_context \<Rightarrow> string \<Rightarrow> string option \<Rightarrow> int \<Rightarrow>
   string option \<Rightarrow> (chat_result result, ('s, 'c, 'w) pipe_state) task" where
  "chat_task pf rg P ctx prompt model max_tokens system = Await (\<lambda>st.
     case tracer_start ctx (rg_trace_id rg) (ps_traces st) of
       (tr, traces) \<Rightarrow>
         (let chosen = or_else model (pl_default_model P)
          in in_span rg 0 ''auth'' ''resolve+authorize'' (auth_stage P ctx) tr (\<lambda>_ tr.
             in_span rg 1 ''cache'' ''semantic-cache-lookup''
               (cache_stage pf rg P ctx prompt chosen (system_version pf system)) tr (\<lambda>hit tr.
             case hit of
               Some h \<Rightarrow> hit_task rg chosen h tr
             | None \<Rightarrow> miss_task pf rg P ctx prompt chosen max_tokens system tr)),
          st\<lparr>ps_traces := traces\<rparr>))"

section \<open>Alone, a task is the request\<close>

definition drop_trace :: "('a, 'st) outcome \<Rightarrow> 'a result \<times> 'st" where
  "drop_trace m = (case m of (res, tr, st) \<Rightarrow> (res, st))"

lemma drop_trace_simp [simp]: "drop_trace (res, tr, st) = (res, st)"
  by (simp add: drop_trace_def)

lemma finish_in_span:
  assumes "\<And>x tr st. finish (cont x tr) st = drop_trace (f x tr st)"
  shows "finish (in_span rg k stage name body tr cont) st = drop_trace (seq (with_span rg k stage name body tr st) f)"
proof -
  obtain res tr' st' where w: "with_span rg k stage name body tr st = (res, tr', st')" by (rule prod_cases3)
  show ?thesis by (cases res) (simp_all add: in_span_def finish_Await w assms del: finish.simps(2))
qed

lemma finish_split:
  "(\<And>a b. x = (a, b) \<Longrightarrow> finish (cont a b tr) st = drop_trace (f a b tr st)) \<Longrightarrow>
   finish (case_prod cont x tr) st = drop_trace (case_prod f x tr st)"
  by (cases x) simp

lemma finish_miss: "finish (miss_task pf rg P ctx prompt model mt system tr) st =
    drop_trace (run_miss pf rg P ctx prompt model mt system tr st)"
  unfolding miss_task_def run_miss_unfold
  by (rule finish_in_span finish_split | simp)+

lemma finish_chat: "finish (chat_task pf rg P ctx prompt model mt system) st = run pf rg P ctx prompt model mt system st"
proof -
  obtain tr traces where t: "tracer_start ctx (rg_trace_id rg) (ps_traces st) = (tr, traces)" by (rule prod.exhaust)
  have hit: "finish (hit_task rg m h tr) st = drop_trace (run_hit rg m h tr st)" for m h tr and st :: "('a, 'b, 'c) pipe_state"
    unfolding hit_task_def run_hit_def by (rule finish_in_span) simp
  have opt: "finish (case x of Some h \<Rightarrow> hit_task rg m h tr | None \<Rightarrow> miss_task pf rg P ctx prompt m mt system tr) st =
      drop_trace (case x of Some h \<Rightarrow> run_hit rg m h tr st | None \<Rightarrow> run_miss pf rg P ctx prompt m mt system tr st)" for x m tr st
    by (cases x) (simp_all add: hit finish_miss)
  have "finish (chat_task pf rg P ctx prompt model mt system) st =
      drop_trace (run_traced pf rg P ctx prompt model mt system tr (st\<lparr>ps_traces := traces\<rparr>))"
    unfolding chat_task_def finish_Await run_traced_def Let_def t prod.case fst_conv snd_conv
    by (rule finish_in_span opt)+
  then show ?thesis by (simp add: run_def t drop_trace_def case_prod_beta)
qed

section \<open>The server\<close>

text \<open>A connection is running a task, has its reply, or neither.\<close>

record 'w server =
  sv_app :: "'w app_state"
  sv_running :: "string \<Rightarrow> (chat_result result, (mem_store, cache_store, 'w) pipe_state) task option"
  sv_replies :: "string \<Rightarrow> response option"

datatype event = Arrive string request | Resume string

definition new_server :: "'w \<Rightarrow> 'w server" where
  "new_server w = \<lparr>sv_app = new_app w, sv_running = (\<lambda>_. None), sv_replies = (\<lambda>_. None)\<rparr>"

definition endpoint_step :: "platform \<Rightarrow> 'w gateway \<Rightarrow> string \<Rightarrow> request \<Rightarrow> 'w server \<Rightarrow> 'w server" where
  "endpoint_step pf gw i q sv = (case serve pf gw q (sv_app sv) of
     (r, app) \<Rightarrow> sv\<lparr>sv_app := app, sv_replies := (sv_replies sv)(i := Some r)\<rparr>)"

text \<open>The task a request starts, if it is a chat request of an identified caller.\<close>

definition task_of :: "platform \<Rightarrow> 'w gateway \<Rightarrow> request \<Rightarrow>
    (chat_result result, (mem_store, cache_store, 'w) pipe_state) task option" where
  "task_of pf gw q =
     (case (resolve_security_context (rq_headers q) (rq_id q), rq_call q) of
        (Inr ctx, Chat body rg) \<Rightarrow> Some (chat_task pf rg (gw_pipeline gw) ctx (qb_prompt body) (qb_model body)
          (qb_max_tokens body) (qb_system body))
      | _ \<Rightarrow> None)"

definition arrive :: "platform \<Rightarrow> 'w gateway \<Rightarrow> string \<Rightarrow> request \<Rightarrow> 'w server \<Rightarrow> 'w server" where
  "arrive pf gw i q sv =
     (case task_of pf gw q of
        None \<Rightarrow> endpoint_step pf gw i q sv
      | Some k \<Rightarrow> sv\<lparr>sv_running := (sv_running sv)(i := Some k)\<rparr>)"

definition resume :: "string \<Rightarrow> 'w server \<Rightarrow> 'w server" where
  "resume i sv =
     (case sv_running sv i of
        None \<Rightarrow> sv
      | Some (Done r) \<Rightarrow> sv\<lparr>sv_running := (sv_running sv)(i := None),
          sv_replies := (sv_replies sv)(i := Some (reply chat_json r))\<rparr>
      | Some (Await f) \<Rightarrow>
          (case f (as_pipe (sv_app sv)) of
             (k, st) \<Rightarrow> sv\<lparr>sv_app := (sv_app sv)\<lparr>as_pipe := st\<rparr>, sv_running := (sv_running sv)(i := Some k)\<rparr>))"

fun server_step :: "platform \<Rightarrow> 'w gateway \<Rightarrow> event \<Rightarrow> 'w server \<Rightarrow> 'w server" where
  "server_step pf gw (Arrive i q) sv = arrive pf gw i q sv"
| "server_step pf gw (Resume i) sv = resume i sv"

section \<open>Well-behaved tasks\<close>

text \<open>What a step of a tenant's task may do to the others: nothing they see, and no registry of backends.\<close>

definition spares :: "(string \<Rightarrow> string) \<Rightarrow> string \<Rightarrow> (mem_store, cache_store, unit) pipe_state \<Rightarrow>
    (mem_store, cache_store, unit) pipe_state \<Rightarrow> bool" where
  "spares own t s s' = (ps_backends s = [] \<longrightarrow> ps_backends s' = [] \<and> (\<forall>t'. t' \<noteq> t \<longrightarrow> pipe_view_of own t' s' = pipe_view_of own t' s))"

definition scoped_step ::
  "(string \<Rightarrow> string) \<Rightarrow> string \<Rightarrow> ((mem_store, cache_store, unit) pipe_state \<Rightarrow>
     'k \<times> (mem_store, cache_store, unit) pipe_state) \<Rightarrow> bool" where
  "scoped_step own t f \<longleftrightarrow>
     (\<forall>s s'. pipe_view_of own t s = pipe_view_of own t s' \<longrightarrow>
        fst (f s) = fst (f s') \<and> pipe_view_of own t (snd (f s)) = pipe_view_of own t (snd (f s'))) \<and>
     (\<forall>s. spares own t s (snd (f s))) \<and> (\<forall>s. traces_owned own s \<longrightarrow> traces_owned own (snd (f s)))"

inductive scoped_task ::
  "(string \<Rightarrow> string) \<Rightarrow> string \<Rightarrow> ('r, (mem_store, cache_store, unit) pipe_state) task \<Rightarrow> bool"
  for own :: "string \<Rightarrow> string" and t :: string where
  returned: "scoped_task own t (Done r)"
| await: "scoped_step own t f \<Longrightarrow> (\<And>s. scoped_task own t (fst (f s))) \<Longrightarrow> scoped_task own t (Await f)"

inductive_cases scoped_awaitE: "scoped_task own t (Await f)"

definition scoped_stage ::
  "(string \<Rightarrow> string) \<Rightarrow> string \<Rightarrow> ('sp \<Rightarrow> (mem_store, cache_store, unit) pipe_state \<Rightarrow>
     'a \<times> 'sp \<times> (mem_store, cache_store, unit) pipe_state) \<Rightarrow> bool" where
  "scoped_stage own t body \<longleftrightarrow> stage_view (pipe_view_of own t) body \<and>
     stage_frame (\<lambda>s s'. spares own t s s' \<and> ps_traces s' = ps_traces s) body"

lemma span_outcome:
  obtains r sp s1 where "body (open_span tr (rg_span_id rg k) (rg_start rg k) stage name None) s = (r, sp, s1)"
    and "with_span rg k stage name body tr s =
      (r, close_span (rg_end rg k) sp tr, s1\<lparr>ps_traces := tracer_put (close_span (rg_end rg k) sp tr) (ps_traces s1)\<rparr>)"
  by (cases "body (open_span tr (rg_span_id rg k) (rg_start rg k) stage name None) s") (simp add: with_span_def Let_def)

lemma scoped_in_span:
  assumes body: "scoped_stage own t body" and tr: "own (tr_trace_id tr) = t" "tr_tenant_id tr = t"
    and cont: "\<And>x tr'. own (tr_trace_id tr') = t \<Longrightarrow> tr_tenant_id tr' = t \<Longrightarrow> scoped_task own t (cont x tr')"
  shows "scoped_task own t (in_span rg k stage name body tr cont)"
  unfolding in_span_def
proof (rule scoped_task.await)
  let ?w = "with_span rg k stage name body tr"
  let ?f = "\<lambda>s. case ?w s of (Inl e, tr', st') \<Rightarrow> (Done (Inl e), st') | (Inr x, tr', st') \<Rightarrow> (cont x tr', st')"
  have out: "spares own t s (snd (?f s)) \<and> (traces_owned own s \<longrightarrow> traces_owned own (snd (?f s))) \<and>
      scoped_task own t (fst (?f s))" for s
  proof -
    obtain r sp s1 where b: "body (open_span tr (rg_span_id rg k) (rg_start rg k) stage name None) s = (r, sp, s1)"
      and w: "?w s = (r, close_span (rg_end rg k) sp tr,
        s1\<lparr>ps_traces := tracer_put (close_span (rg_end rg k) sp tr) (ps_traces s1)\<rparr>)"
      by (rule span_outcome)
    let ?tr = "close_span (rg_end rg k) sp tr"
    have s1: "spares own t s s1" "ps_traces s1 = ps_traces s"
      using body b unfolding scoped_stage_def stage_frame_def by (metis snd_conv)+
    have tr': "own (tr_trace_id ?tr) = t" "tr_tenant_id ?tr = t" using tr by simp_all
    have f: "snd (?f s) = s1\<lparr>ps_traces := tracer_put ?tr (ps_traces s1)\<rparr>" by (cases r) (simp_all add: w)
    have "spares own t s (snd (?f s))" unfolding f using s1(1) tr' by (simp add: spares_def pipe_view_of_def)
    moreover have "traces_owned own s \<longrightarrow> traces_owned own (snd (?f s))"
      unfolding f using s1(2) tr' by (simp add: traces_owned_def tracer_put_get)
    moreover have "scoped_task own t (fst (?f s))"
      using cont [OF tr'] by (cases r) (simp_all add: w scoped_task.returned)
    ultimately show ?thesis by blast
  qed
  have "fst (?f s) = fst (?f s') \<and> pipe_view_of own t (snd (?f s)) = pipe_view_of own t (snd (?f s'))"
    if v: "pipe_view_of own t s = pipe_view_of own t s'" for s s'
  proof -
    obtain r tr1 s1 r' tr1' s1' where w: "?w s = (r, tr1, s1)" "?w s' = (r', tr1', s1')" by (meson prod_cases3)
    have "stage_view (pipe_view_of own t) body" using body by (simp add: scoped_stage_def)
    from tview.seen_span [OF this v, of rg k stage name tr]
    have "r = r'" "tr1 = tr1'" "pipe_view_of own t s1 = pipe_view_of own t s1'" unfolding w by simp_all
    then show ?thesis unfolding w by (cases r') simp_all
  qed
  then show "scoped_step own t ?f" using out unfolding scoped_step_def by blast
  show "scoped_task own t (fst (?f s))" for s using out by blast
qed

lemma scoped_pure: "stage_view (pipe_view_of own t) body \<Longrightarrow> (\<And>sp st. snd (snd (body sp st)) = st) \<Longrightarrow> scoped_stage own t body"
  by (simp add: scoped_stage_def stage_frame_def spares_def)

lemma scoped_compress: "scoped_stage own t (compress_stage P prompt cs)"
proof -
  have "snd (snd (compress_stage P prompt cs sp st)) = st" for sp and st :: "(mem_store, cache_store, unit) pipe_state"
    using compress_stage_state [of P prompt cs sp st] by auto
  then show ?thesis by (intro scoped_pure view_compress)
qed

lemma scoped_assemble: "scoped_stage own (ctx_tenant_id ctx) (assemble_stage pf rg P ctx prompt model mt system cs)"
  unfolding scoped_stage_def
proof (rule conjI [OF view_assemble assemble_stage_frame])
  show "spares own (ctx_tenant_id ctx) st (st\<lparr>ps_bundles := bundle_put ctx b (ps_bundles st)\<rparr>) \<and>
      ps_traces (st\<lparr>ps_bundles := bundle_put ctx b (ps_bundles st)\<rparr>) = ps_traces st" for st b
    by (simp add: spares_def pipe_view_of_def bundle_put_def)
qed (simp add: spares_def)

lemma scoped_invoke: "scoped_stage own t (invoke_stage rg P d model msgs mt)"
  unfolding scoped_stage_def
proof (rule conjI [OF view_invoke], unfold stage_frame_def, intro allI)
  fix sp and st :: "(mem_store, cache_store, unit) pipe_state"
  let ?st = "snd (snd (invoke_stage rg P d model msgs mt sp st))"
  have u: "unrouted st ?st" using unrouted_invoke [of rg P d model msgs mt] by (simp add: stage_frame_def)
  obtain reg w where "?st = st\<lparr>ps_backends := reg, ps_world := w\<rparr>" using invoke_stage_state [of rg P d model msgs mt sp st] by blast
  then show "spares own t st ?st \<and> ps_traces ?st = ps_traces st"
    using u by (simp add: spares_def unrouted_def pipe_view_of_def)
qed

lemma scoped_writeback:
  assumes "pl_cache P = Some sc" and "cache_backend sc = mem_cache"
  shows "scoped_stage own (ctx_tenant_id ctx) (writeback_stage pf rg P ctx prompt model sv injd resp)"
  unfolding scoped_stage_def
proof (rule conjI [OF view_writeback [OF assms]], unfold stage_frame_def, intro allI)
  fix sp and st :: "(mem_store, cache_store, unit) pipe_state"
  let ?st = "snd (snd (writeback_stage pf rg P ctx prompt model sv injd resp sp st))"
  have "others_unchanged (ctx_tenant_id ctx) [] st ?st"
    using others_writeback [of ctx "ctx_tenant_id ctx" P "[]" pf rg prompt model sv injd resp] assms
    by (simp add: stage_frame_def)
  then show "spares own (ctx_tenant_id ctx) st ?st \<and> ps_traces ?st = ps_traces st"
    by (simp add: writeback_stage_state spares_def pipe_view_of_def others_unchanged_def)
qed

lemma scoped_split: "(\<And>a b. x = (a, b) \<Longrightarrow> scoped_task own t (f a b tr)) \<Longrightarrow> scoped_task own t (case_prod f x tr)"
  by (cases x) simp

lemma scoped_option:
  "(\<And>h. x = Some h \<Longrightarrow> scoped_task own t (f h)) \<Longrightarrow> (x = None \<Longrightarrow> scoped_task own t m) \<Longrightarrow>
   scoped_task own t (case x of Some h \<Rightarrow> f h | None \<Rightarrow> m)"
  by (cases x) simp_all

text \<open>A chat request of the wired pipeline keeps to its tenant, wherever it is interrupted.\<close>

lemma scoped_chat:
  assumes P: "P = build_pipeline gs a blake" and o: "own (rg_trace_id rg) = ctx_tenant_id ctx"
  shows "scoped_task own (ctx_tenant_id ctx) (chat_task pf rg P ctx prompt model mt system)"
proof -
  let ?t = "ctx_tenant_id ctx"
  have wired: "pl_cache P = Some (build_cache blake)" "cache_backend (build_cache blake) = mem_cache"
    "pl_memory P = Some (inmem, hashing_provider blake DEFAULT_DIM)" by (simp_all add: P)
  note stages = scoped_pure [OF view_auth pure_stages(1)] scoped_pure [OF view_cache [OF wired(1,2)] pure_stages(2)]
    scoped_pure [OF view_served pure_stages(3)] scoped_pure [OF view_retrieve [OF wired(3)] pure_stages(4)]
    scoped_pure [OF view_route pure_stages(5)] scoped_compress scoped_assemble scoped_invoke scoped_writeback [OF wired(1,2)]
  note rules = scoped_in_span [OF stages(1)] scoped_in_span [OF stages(2)] scoped_in_span [OF stages(3)]
    scoped_in_span [OF stages(4)] scoped_in_span [OF stages(5)] scoped_in_span [OF stages(6)]
    scoped_in_span [OF stages(7)] scoped_in_span [OF stages(8)] scoped_in_span [OF stages(9)]
    scoped_split scoped_option scoped_task.returned
  have miss: "scoped_task own ?t (miss_task pf rg P ctx prompt m mt system tr)"
    if "own (tr_trace_id tr) = ?t" "tr_tenant_id tr = ?t" for m tr
    unfolding miss_task_def by (rule rules that | assumption)+
  have hit: "scoped_task own ?t (hit_task rg m h tr)" if "own (tr_trace_id tr) = ?t" "tr_tenant_id tr = ?t" for m h tr
    unfolding hit_task_def by (rule rules that | assumption)+
  let ?tr = "\<lparr>tr_trace_id = rg_trace_id rg, tr_tenant_id = ?t, tr_spans = []\<rparr>"
  have start: "tracer_start ctx (rg_trace_id rg) s = (?tr, tracer_put ?tr s)" for s
    by (simp add: tracer_start_def tracer_put_def Let_def)
  have tr: "own (tr_trace_id ?tr) = ?t" "tr_tenant_id ?tr = ?t" using o by simp_all
  show ?thesis
    unfolding chat_task_def start prod.case Let_def
  proof (rule scoped_task.await)
    show "scoped_step own ?t (\<lambda>st. (k, st\<lparr>ps_traces := tracer_put ?tr (ps_traces st)\<rparr>))" for k
      using o by (auto simp: scoped_step_def spares_def pipe_view_of_def traces_owned_def tracer_put_get)
  qed (unfold fst_conv, (rule rules miss hit tr | assumption)+)
qed

section \<open>The server as a multi-tenant service\<close>

text \<open>\<open>who i\<close> is the tenant of the connection \<open>i\<close>.\<close>

definition server_view :: "(string \<Rightarrow> string) \<Rightarrow> (string \<Rightarrow> string) \<Rightarrow> string \<Rightarrow> unit server \<Rightarrow> _" where
  "server_view own who t sv = (app_view own t (sv_app sv), \<lambda>i. if who i = t then sv_running sv i else None,
     \<lambda>i. if who i = t then sv_replies sv i else None)"

definition server_ok :: "(string \<Rightarrow> string) \<Rightarrow> (string \<Rightarrow> string) \<Rightarrow> unit server \<Rightarrow> bool" where
  "server_ok own who sv = (app_ok own (sv_app sv) \<and>
     (\<forall>i k. sv_running sv i = Some k \<longrightarrow> scoped_task own (who i) k))"

fun event_conn :: "event \<Rightarrow> string" where
  "event_conn (Arrive i q) = i"
| "event_conn (Resume i) = i"

fun event_ok :: "(string \<Rightarrow> string) \<Rightarrow> (string \<Rightarrow> string) \<Rightarrow> event \<Rightarrow> bool" where
  "event_ok own who (Arrive i q) = (caller q = who i \<and> owned own q)"
| "event_ok own who (Resume i) = True"

lemma server_viewD:
  assumes "server_view own who t sv = server_view own who t sv'"
  shows "app_view own t (sv_app sv) = app_view own t (sv_app sv')"
    "who i = t \<Longrightarrow> sv_running sv i = sv_running sv' i" "who i = t \<Longrightarrow> sv_replies sv i = sv_replies sv' i"
  using assms unfolding server_view_def prod.inject fun_eq_iff by (auto split: if_splits)

lemma task_of_Some:
  assumes "task_of pf gw q = Some k"
  obtains ctx body rg where "resolve_security_context (rq_headers q) (rq_id q) = Inr ctx" "rq_call q = Chat body rg"
    "k = chat_task pf rg (gw_pipeline gw) ctx (qb_prompt body) (qb_model body) (qb_max_tokens body) (qb_system body)"
  using assms by (auto simp: task_of_def split: sum.splits call.splits)

lemma scoped_task_of:
  assumes "gw = create_app H S blake gs a" and "event_ok own who (Arrive i q)" and "task_of pf gw q = Some k"
  shows "scoped_task own (who i) k"
proof -
  obtain ctx body rg where r: "resolve_security_context (rq_headers q) (rq_id q) = Inr ctx" "rq_call q = Chat body rg"
    and k: "k = chat_task pf rg (gw_pipeline gw) ctx (qb_prompt body) (qb_model body) (qb_max_tokens body) (qb_system body)"
    by (rule task_of_Some [OF assms(3)])
  have P: "gw_pipeline gw = build_pipeline gs (gw_adapter gw) blake" by (simp add: assms(1))
  have "own (rg_trace_id rg) = ctx_tenant_id ctx" "who i = ctx_tenant_id ctx"
    using assms(2) caller_resolved [OF r(1)] by (simp_all add: owned_def r)
  then show ?thesis unfolding k using scoped_chat [OF P] by simp
qed

lemma server_viewI:
  assumes "app_view own t (sv_app sv) = app_view own t (sv_app sv')"
    and "\<And>i. who i = t \<Longrightarrow> sv_running sv i = sv_running sv' i" and "\<And>i. who i = t \<Longrightarrow> sv_replies sv i = sv_replies sv' i"
  shows "server_view own who t sv = server_view own who t sv'"
  unfolding server_view_def prod.inject fun_eq_iff using assms by simp

lemma endpoint_step_simps [simp]:
  "sv_app (endpoint_step pf gw i q sv) = snd (serve pf gw q (sv_app sv))"
  "sv_running (endpoint_step pf gw i q sv) = sv_running sv"
  "sv_replies (endpoint_step pf gw i q sv) = (sv_replies sv)(i := Some (fst (serve pf gw q (sv_app sv))))"
  by (simp_all add: endpoint_step_def case_prod_beta)

lemma resume_await:
  "sv_running sv i = Some (Await f) \<Longrightarrow> resume i sv = sv\<lparr>sv_app := (sv_app sv)\<lparr>as_pipe := snd (f (as_pipe (sv_app sv)))\<rparr>,
     sv_running := (sv_running sv)(i := Some (fst (f (as_pipe (sv_app sv)))))\<rparr>"
  by (simp add: resume_def case_prod_beta)

lemma resume_done:
  "sv_running sv i = Some (Done r) \<Longrightarrow> resume i sv = sv\<lparr>sv_running := (sv_running sv)(i := None),
     sv_replies := (sv_replies sv)(i := Some (reply chat_json r))\<rparr>"
  by (simp add: resume_def)

lemma resume_cases:
  obtains (idle) "sv_running sv i = None" "resume i sv = sv"
  | (over) r where "sv_running sv i = Some (Done r)"
  | (step) f where "sv_running sv i = Some (Await f)"
proof (cases "sv_running sv i")
  case (Some k)
  then show thesis using over step by (cases k) auto
qed (simp add: idle resume_def)

lemma server_ok_step:
  assumes "server_ok own who sv" and "sv_running sv i = Some (Await f)"
  shows "scoped_step own (who i) f" "scoped_task own (who i) (fst (f s))"
  using assms by (auto simp: server_ok_def elim: scoped_awaitE)

lemma server_okD:
  assumes "server_ok own who sv"
  shows "app_ok own (sv_app sv)" "ps_backends (as_pipe (sv_app sv)) = []" "traces_owned own (as_pipe (sv_app sv))"
  using assms by (simp_all add: server_ok_def app_ok_def)

lemma server_step_ok:
  assumes gw: "gw = create_app H S blake gs a" and ev: "event_ok own who ev" and ok: "server_ok own who sv"
  shows "server_ok own who (server_step pf gw ev sv)"
proof (cases ev)
  case (Arrive i q)
  show ?thesis
  proof (cases "task_of pf gw q")
    case None
    have "app_ok own (snd (serve pf gw q (sv_app sv)))"
      by (rule served_ok [OF gw _ server_okD(1) [OF ok]]) (use ev Arrive in simp)
    then show ?thesis using ok Arrive None by (simp add: arrive_def server_ok_def)
  next
    case (Some k)
    have "scoped_task own (who i) k" by (rule scoped_task_of [OF gw ev [unfolded Arrive] Some])
    then show ?thesis using ok Arrive Some by (simp add: arrive_def server_ok_def)
  qed
next
  case (Resume i)
  show ?thesis
  proof (cases rule: resume_cases [where sv = sv and i = i])
    case idle
    then show ?thesis using ok Resume by simp
  next
    case (over r)
    then show ?thesis using ok Resume by (simp add: resume_done server_ok_def)
  next
    case (step f)
    have "app_ok own ((sv_app sv)\<lparr>as_pipe := snd (f (as_pipe (sv_app sv)))\<rparr>)"
      using server_ok_step(1) [OF ok step] server_okD(2,3) [OF ok] by (simp add: app_ok_def scoped_step_def spares_def)
    then show ?thesis
      using ok Resume server_ok_step(2) [OF ok step] by (simp add: resume_await [OF step] server_ok_def)
  qed
qed

lemma server_step_other:
  assumes gw: "gw = create_app H S blake gs a" and ev: "event_ok own who ev" and ok: "server_ok own who sv"
    and other: "who (event_conn ev) \<noteq> t"
  shows "server_view own who t (server_step pf gw ev sv) = server_view own who t sv"
proof (cases ev)
  case (Arrive i q)
  have "app_view own t (snd (serve pf gw q (sv_app sv))) = app_view own t (sv_app sv)"
    by (rule served_view(1) [OF gw]) (use ev other Arrive server_okD(2) [OF ok] in auto)
  then show ?thesis
    using other Arrive by (intro server_viewI) (auto simp: arrive_def split: option.split)
next
  case (Resume i)
  show ?thesis
  proof (cases rule: resume_cases [where sv = sv and i = i])
    case idle
    then show ?thesis using Resume by simp
  next
    case (over r)
    then show ?thesis using other Resume by (intro server_viewI) (auto simp: resume_done)
  next
    case (step f)
    have "app_view own t ((sv_app sv)\<lparr>as_pipe := snd (f (as_pipe (sv_app sv)))\<rparr>) = app_view own t (sv_app sv)"
      using server_ok_step(1) [OF ok step] other Resume server_okD(2) [OF ok]
      by (simp add: scoped_step_def spares_def app_view_def)
    then show ?thesis using other Resume by (intro server_viewI) (auto simp: resume_await [OF step])
  qed
qed

lemma server_step_own:
  assumes gw: "gw = create_app H S blake gs a" and ev: "event_ok own who ev" and ok: "server_ok own who sv" "server_ok own who sv'"
    and own: "who (event_conn ev) = t" and v: "server_view own who t sv = server_view own who t sv'"
  shows "server_view own who t (server_step pf gw ev sv) = server_view own who t (server_step pf gw ev sv')"
proof (cases ev)
  case (Arrive i q)
  have "(traces_owned own (as_pipe (sv_app sv)) \<longrightarrow> traces_owned own (as_pipe (sv_app sv')) \<longrightarrow>
      fst (serve pf gw q (sv_app sv)) = fst (serve pf gw q (sv_app sv'))) \<and>
    app_view own t (snd (serve pf gw q (sv_app sv))) = app_view own t (snd (serve pf gw q (sv_app sv')))"
    by (rule served_view(2) [OF gw]) (use ev own Arrive server_okD(2) [OF ok(1)] server_viewD(1) [OF v] in auto)
  then have "fst (serve pf gw q (sv_app sv)) = fst (serve pf gw q (sv_app sv'))"
    "app_view own t (snd (serve pf gw q (sv_app sv))) = app_view own t (snd (serve pf gw q (sv_app sv')))"
    using server_okD(3) [OF ok(1)] server_okD(3) [OF ok(2)] by blast+
  then show ?thesis
    using Arrive server_viewD [OF v]
    by (intro server_viewI; cases "task_of pf gw q") (simp_all add: arrive_def)
next
  case (Resume i)
  have same: "sv_running sv' i = sv_running sv i" using server_viewD(2) [OF v] own Resume by simp
  show ?thesis
  proof (cases rule: resume_cases [where sv = sv and i = i])
    case idle
    then show ?thesis using v same Resume by (simp add: resume_def)
  next
    case (over r)
    then have "resume i sv' = sv'\<lparr>sv_running := (sv_running sv')(i := None),
        sv_replies := (sv_replies sv')(i := Some (reply chat_json r))\<rparr>" using same by (intro resume_done) simp
    then show ?thesis using Resume over server_viewD [OF v] by (intro server_viewI) (simp_all add: resume_done)
  next
    case (step f)
    have f: "fst (f (as_pipe (sv_app sv))) = fst (f (as_pipe (sv_app sv')))"
      "pipe_view_of own t (snd (f (as_pipe (sv_app sv)))) = pipe_view_of own t (snd (f (as_pipe (sv_app sv'))))"
    proof -
      have "scoped_step own t f" using server_ok_step(1) [OF ok(1) step] own Resume by simp
      then show "fst (f (as_pipe (sv_app sv))) = fst (f (as_pipe (sv_app sv')))"
        "pipe_view_of own t (snd (f (as_pipe (sv_app sv)))) = pipe_view_of own t (snd (f (as_pipe (sv_app sv'))))"
        using app_view_eqD(1) [OF server_viewD(1) [OF v]] unfolding scoped_step_def by blast+
    qed
    then have "app_view own t ((sv_app sv)\<lparr>as_pipe := snd (f (as_pipe (sv_app sv)))\<rparr>) =
        app_view own t ((sv_app sv')\<lparr>as_pipe := snd (f (as_pipe (sv_app sv')))\<rparr>)"
      using app_view_eqD(2,3) [OF server_viewD(1) [OF v]] by (simp add: app_view_def)
    then show ?thesis
      using Resume server_viewD(2,3) [OF v] f(1) step same
      by (intro server_viewI) (simp_all add: resume_await)
  qed
qed

interpretation concurrent: tenant_scoped_under "server_view own who" "server_step pf (create_app H S blake gs a)"
    "\<lambda>ev. who (event_conn ev)" "server_ok own who" "event_ok own who" for own who pf H S blake gs a
  by unfold_locales (rule server_step_ok [OF refl] server_step_other [OF refl] server_step_own [OF refl]; assumption)+

section \<open>Bounded tasks\<close>

text \<open>A task that returns after at most \<open>n\<close> steps, whatever the states it is resumed on.\<close>

fun ends_in :: "nat \<Rightarrow> ('r, 'st) task \<Rightarrow> bool" where
  "ends_in n (Done r) = True"
| "ends_in 0 (Await f) = False"
| "ends_in (Suc n) (Await f) = (\<forall>s. ends_in n (fst (f s)))"

lemma within_in_span: "(\<And>x tr. ends_in n (cont x tr)) \<Longrightarrow> ends_in (Suc n) (in_span rg k stage name body tr cont)"
  by (simp add: in_span_def split: prod.split sum.split)

lemma within_split: "(\<And>a b. ends_in n (f a b tr)) \<Longrightarrow> ends_in n (case_prod f x tr)"
  by (cases x) simp

lemma within_mono: "ends_in n k \<Longrightarrow> n \<le> m \<Longrightarrow> ends_in m k"
proof (induction n k arbitrary: m rule: ends_in.induct)
  case (3 n f)
  then obtain m' where "m = Suc m'" by (cases m) auto
  then show ?case using 3 by auto
qed auto

definition CHAT_STEPS :: nat where "CHAT_STEPS = 9"

lemma within_chat: "ends_in CHAT_STEPS (chat_task pf rg P ctx prompt model mt system)"
proof -
  have "ends_in (Suc (Suc (Suc (Suc (Suc (Suc 0)))))) (miss_task pf rg P ctx prompt m mt system tr)" for m tr
    unfolding miss_task_def by (rule within_in_span within_split ends_in.simps(1) [THEN iffD2, OF TrueI])+
  then have miss: "ends_in 6 (miss_task pf rg P ctx prompt m mt system tr)" for m tr by (simp add: eval_nat_numeral)
  have hit: "ends_in 6 (hit_task rg m h tr)" for m h tr
    by (rule within_mono [of 1]) (simp_all add: hit_task_def within_in_span numeral_eq_Suc)
  have opt: "ends_in 6 (case x of Some h \<Rightarrow> hit_task rg m h tr | None \<Rightarrow> miss_task pf rg P ctx prompt m mt system tr)" for x m tr
    by (cases x) (simp_all add: miss hit)
  have "ends_in 8 (in_span rg 0 ''auth'' ''resolve+authorize'' (auth_stage P ctx) tr (\<lambda>_ tr.
             in_span rg 1 ''cache'' ''semantic-cache-lookup''
               (cache_stage pf rg P ctx prompt c (system_version pf system)) tr (\<lambda>hit tr.
             case hit of
               Some h \<Rightarrow> hit_task rg c h tr
             | None \<Rightarrow> miss_task pf rg P ctx prompt c mt system tr)))" for tr c
    using within_in_span [OF within_in_span [OF opt]] by (simp add: eval_nat_numeral)
  then show ?thesis by (simp add: chat_task_def CHAT_STEPS_def Let_def eval_nat_numeral split: prod.split)
qed

definition serve_events :: "platform \<Rightarrow> 'w gateway \<Rightarrow> event list \<Rightarrow> 'w server \<Rightarrow> 'w server" where
  "serve_events pf gw evs sv = run_ops (server_step pf gw) evs sv"

lemma serve_events_simps [simp]:
  "serve_events pf gw [] sv = sv"
  "serve_events pf gw (ev # evs) sv = serve_events pf gw evs (server_step pf gw ev sv)"
  by (simp_all add: serve_events_def)

lemma replied_step: "sv_replies sv i = Some r \<Longrightarrow> \<exists>r'. sv_replies (server_step pf gw ev sv) i = Some r'"
proof (cases ev)
  case (Resume j)
  assume "sv_replies sv i = Some r"
  then show ?thesis
    using Resume by (cases rule: resume_cases [where sv = sv and i = j]) (simp_all add: resume_done resume_await)
qed (simp add: arrive_def split: option.split)

lemma replied_events: "sv_replies sv i = Some r \<Longrightarrow> \<exists>r'. sv_replies (serve_events pf gw evs sv) i = Some r'"
proof (induction evs arbitrary: sv r)
  case (Cons ev evs)
  then show ?case using replied_step [of sv i r pf gw ev] by auto
qed simp

lemma untouched_step: "event_conn ev \<noteq> i \<Longrightarrow> sv_running (server_step pf gw ev sv) i = sv_running sv i"
proof (cases ev)
  case (Resume j)
  assume "event_conn ev \<noteq> i"
  then show ?thesis
    using Resume by (cases rule: resume_cases [where sv = sv and i = j]) (simp_all add: resume_done resume_await)
qed (simp add: arrive_def split: option.split)

lemma running_replies:
  "sv_running sv i = Some k \<Longrightarrow> ends_in n k \<Longrightarrow> \<forall>ev \<in> set evs. event_conn ev = i \<longrightarrow> ev = Resume i \<Longrightarrow>
   n < count_list evs (Resume i) \<Longrightarrow> \<exists>r. sv_replies (serve_events pf gw evs sv) i = Some r"
proof (induction evs arbitrary: sv n k)
  case (Cons ev evs)
  have rest: "\<forall>ev \<in> set evs. event_conn ev = i \<longrightarrow> ev = Resume i" using Cons.prems(3) by simp
  show ?case
  proof (cases "ev = Resume i")
    case False
    then have "sv_running (server_step pf gw ev sv) i = Some k"
      using Cons.prems(1,3) untouched_step [of ev i pf gw sv] by auto
    then show ?thesis using Cons.IH [OF _ Cons.prems(2) rest] Cons.prems(4) False by simp
  next
    case True
    show ?thesis
    proof (cases k)
      case (Done r)
      have "sv_replies (server_step pf gw ev sv) i = Some (reply chat_json r)"
        using True Cons.prems(1) Done by (simp add: resume_done)
      then show ?thesis unfolding serve_events_simps by (rule replied_events)
    next
      case (Await f)
      let ?k = "fst (f (as_pipe (sv_app sv)))"
      obtain m where m: "n = Suc m" using Cons.prems(2) Await by (cases n) auto
      have "ends_in m ?k" "m < count_list evs (Resume i)" using Cons.prems(2,4) True by (simp_all add: m Await)
      moreover have "sv_running (server_step pf gw ev sv) i = Some ?k"
        using True Cons.prems(1) Await by (simp add: resume_await)
      ultimately show ?thesis unfolding serve_events_simps using Cons.IH rest by blast
    qed
  qed
qed simp

lemma upd_twice: "(\<lambda>a. if a = i then x else if a = i then y else f a) = (\<lambda>a. if a = i then x else f a)"
  by (rule ext) simp

lemma alone_replies:
  assumes "sv_running sv i = Some k" and "ends_in n k" and "n < m"
  shows "serve_events pf gw (replicate m (Resume i)) sv = sv\<lparr>
    sv_app := (sv_app sv)\<lparr>as_pipe := snd (finish k (as_pipe (sv_app sv)))\<rparr>, sv_running := (sv_running sv)(i := None),
    sv_replies := (sv_replies sv)(i := Some (reply chat_json (fst (finish k (as_pipe (sv_app sv))))))\<rparr>"
  using assms
proof (induction m arbitrary: sv n k)
  case (Suc m)
  show ?case
  proof (cases k)
    case (Done r)
    have idle: "serve_events pf gw (replicate m (Resume i)) sv = sv" if "sv_running sv i = None" for sv
      using that by (induction m) (simp_all add: resume_def)
    show ?thesis using Done Suc.prems(1) by (simp add: resume_done idle fun_upd_def)
  next
    case (Await f)
    then obtain n' where "n = Suc n'" using Suc.prems(2) by (cases n) auto
    then show ?thesis
      using Suc.IH [of "resume i sv" "fst (f (as_pipe (sv_app sv)))" n'] Suc.prems Await
      by (simp add: resume_await finish_Await upd_twice del: finish.simps(2))
  qed
qed simp

section \<open>Properties\<close>

text \<open>C6: No tenant sees another, however their requests are interleaved. In any schedule of arrivals and
  of steps of the requests in flight, of any tenants, what every connection is answered, and when,
  is what it is answered in the schedule of its own tenant's events alone; the backend's answers depend on
  the request, and trace ids are not reused between tenants.\<close>

theorem interleaving_noninterference:
  fixes H :: "unit http_client" and S blake gs adapter
  defines "gw \<equiv> create_app H S blake gs adapter"
  assumes "\<forall>ev \<in> set evs. event_ok own who ev"
  shows "sv_replies (serve_events pf gw evs (new_server ())) i =
    sv_replies (serve_events pf gw (filter (\<lambda>ev. who (event_conn ev) = who i) evs) (new_server ())) i"
proof -
  have "server_ok own who (new_server ())" by (simp add: server_ok_def new_server_def new_app_ok)
  from concurrent.noninterference_under [OF assms(2) this, of "who i" pf H S blake gs adapter]
  show ?thesis
    unfolding gw_def serve_events_def purge_def by (intro server_viewD(3) [where t = "who i" and own = own]) simp_all
qed



section \<open>Witnesses\<close>

text \<open>Two tenants' chat requests step by step in turns; the other's steps change nothing of acme's reply.\<close>

definition fx_schedule :: "event list" where
  "fx_schedule = [Arrive ''c1'' (fx_request ''acme'' (Chat (default_chat_body ''hi'') fx_readings)),
     Arrive ''c2'' (fx_request ''globex'' AdminCost)] @ concat (replicate 10 [Resume ''c2'', Resume ''c1''])"

definition fx_who :: "string \<Rightarrow> string" where
  "fx_who i = (if i = ''c1'' then ''acme'' else ''globex'')"

lemma fx_caller: "caller (fx_request t c) = t"
  by (simp add: caller_def fx_request_def or_else_def)

lemma interleaving_noninterference_witness:
  "sv_replies (serve_events fx_platform fx_gateway fx_schedule (new_server ())) ''c1'' =
   sv_replies (serve_events fx_platform fx_gateway
     (Arrive ''c1'' (fx_request ''acme'' (Chat (default_chat_body ''hi'') fx_readings)) # replicate 10 (Resume ''c1''))
     (new_server ())) ''c1''"
proof -
  let ?own = "\<lambda>_. ''acme''"
  have "owned ?own (fx_request ''acme'' (Chat (default_chat_body ''hi'') fx_readings))"
    using caller_resolved [of "fx_request ''acme'' (Chat (default_chat_body ''hi'') fx_readings)"] fx_caller [of "''acme''"]
    by (auto simp: owned_def fx_request_def split: sum.split)
  moreover have "owned ?own (fx_request ''globex'' AdminCost)" by (simp add: owned_def fx_request_def split: sum.split)
  ultimately have "\<forall>ev \<in> set fx_schedule. event_ok ?own fx_who ev"
    by (auto simp: fx_schedule_def fx_who_def fx_caller)
  from interleaving_noninterference [OF this, of fx_platform, folded fx_gateway_def, where i = "''c1''"]
  show ?thesis by (simp add: fx_schedule_def fx_who_def numeral_eq_Suc fx_gateway_def)
qed



end
