(* ===== verification/Replicas.thy ===== *)
theory Replicas
  imports Tenancy
begin

text \<open>
  \<^verbatim>\<open>gateway/asgi.py\<close>: every process of the server imports the module and so builds its own
  application from the environment, with its own stores in memory. A fleet of such replicas behind a
  load balancer is the family of their states; the properties say which balancers it hides behind.
\<close>

section \<open>The entry point and the fleet\<close>

text \<open>\<^verbatim>\<open>app = create_app()\<close>; what \<^verbatim>\<open>ContextOSSettings()\<close> reads from the environment is the argument.\<close>

definition asgi_app :: "'w http_client \<Rightarrow> schema \<Rightarrow> (string \<Rightarrow> 64 word) \<Rightarrow> settings \<Rightarrow> 'w gateway" where
  "asgi_app H S blake env = create_app H S blake env None"

type_synonym 'w fleet = "nat \<Rightarrow> 'w app_state"

definition new_fleet :: "'w \<Rightarrow> 'w fleet" where
  "new_fleet w = (\<lambda>_. new_app w)"

text \<open>A request with the replica that the balancer sends it to.\<close>

definition dispatch :: "platform \<Rightarrow> 'w gateway \<Rightarrow> nat \<times> request \<Rightarrow> 'w fleet \<Rightarrow> response \<times> 'w fleet" where
  "dispatch pf gw kq fl =
     (case serve pf gw (snd kq) (fl (fst kq)) of (r, app) \<Rightarrow> (r, fl(fst kq := app)))"

fun fleet_log :: "platform \<Rightarrow> 'w gateway \<Rightarrow> (nat \<times> request) list \<Rightarrow> 'w fleet \<Rightarrow> response list \<times> 'w fleet" where
  "fleet_log pf gw [] fl = ([], fl)"
| "fleet_log pf gw (kq # kqs) fl =
     (case dispatch pf gw kq fl of (r, fl') \<Rightarrow>
        (case fleet_log pf gw kqs fl' of (rs, fl'') \<Rightarrow> (r # rs, fl'')))"

text \<open>One server.\<close>

fun serve_log :: "platform \<Rightarrow> 'w gateway \<Rightarrow> request list \<Rightarrow> 'w app_state \<Rightarrow> response list \<times> 'w app_state" where
  "serve_log pf gw [] app = ([], app)"
| "serve_log pf gw (q # qs) app =
     (case serve pf gw q app of (r, app') \<Rightarrow>
        (case serve_log pf gw qs app' of (rs, app'') \<Rightarrow> (r # rs, app'')))"

section \<open>A replica has seen what it was sent\<close>

definition sent_to :: "nat \<Rightarrow> (nat \<times> request) list \<Rightarrow> request list" where
  "sent_to k kqs = map snd (filter (\<lambda>kq. fst kq = k) kqs)"

lemma sent_to_simps [simp]:
  "sent_to k [] = []"
  "sent_to k (kq # kqs) = (if fst kq = k then [snd kq] else []) @ sent_to k kqs"
  by (simp_all add: sent_to_def)

lemma fleet_log_state: "snd (fleet_log pf gw kqs fl) k = serve_all pf gw (sent_to k kqs) (fl k)"
  by (induction pf gw kqs fl rule: fleet_log.induct)
    (auto simp: dispatch_def serve_all_def split: prod.split)

lemma fleet_log_snoc:
  "fst (fleet_log pf gw (kqs @ [kq]) fl) =
   fst (fleet_log pf gw kqs fl) @ [fst (serve pf gw (snd kq) (serve_all pf gw (sent_to (fst kq) kqs) (fl (fst kq))))]"
proof -
  have "fst (fleet_log pf gw (kqs @ [kq]) fl) =
      fst (fleet_log pf gw kqs fl) @ [fst (serve pf gw (snd kq) (snd (fleet_log pf gw kqs fl) (fst kq)))]"
    by (induction kqs arbitrary: fl) (simp_all add: dispatch_def case_prod_beta)
  then show ?thesis by (simp add: fleet_log_state)
qed

lemma serve_log_snoc:
  "fst (serve_log pf gw (qs @ [q]) app) = fst (serve_log pf gw qs app) @ [fst (serve pf gw q (serve_all pf gw qs app))]"
  by (induction qs arbitrary: app) (simp_all add: serve_all_def case_prod_beta)

lemma sent_to_purge:
  assumes "\<forall>(k, q) \<in> set kqs. k = pin (caller q)"
  shows "purge caller t (sent_to (pin t) kqs) = purge caller t (map snd kqs)"
  using assms by (induction kqs) (auto simp: purge_def)

section \<open>Properties\<close>

text \<open>C5: A fleet behind a balancer that keeps each tenant on one replica is one server. Whatever the
  number of replicas and however the tenants' requests interleave, every request gets the very
  response that a single application serving all of them in the same order gives; the backend's
  answers depend on the request alone, and trace ids are not reused between tenants.\<close>

theorem sticky_fleet:
  fixes H :: "unit http_client" and S blake env
  defines "gw \<equiv> asgi_app H S blake env"
  assumes "\<forall>(k, q) \<in> set kqs. k = pin (caller q)" and "\<forall>(k, q) \<in> set kqs. owned own q"
  shows "fst (fleet_log pf gw kqs (new_fleet ())) = fst (serve_log pf gw (map snd kqs) (new_app ()))"
  using assms(2,3)
proof (induction kqs rule: rev_induct)
  case (snoc kq kqs)
  obtain k q where kq: "kq = (k, q)" by (cases kq)
  have gw: "gw = create_app H S blake env None" by (simp add: gw_def asgi_app_def)
  have k: "k = pin (caller q)" and own: "\<forall>q' \<in> set (q # map snd kqs). owned own q'"
    and pinned: "\<forall>(k, q) \<in> set kqs. k = pin (caller q)"
    using snoc.prems by (auto simp: kq)
  have sent: "\<forall>q' \<in> set (q # sent_to k kqs). owned own q'" using own by (auto simp: sent_to_def)
  have "fst (serve pf gw q (serve_all pf gw (sent_to k kqs) (new_app ()))) =
      fst (serve pf gw q (serve_all pf gw (map snd kqs) (new_app ())))"
    using answers_own [OF gw own, of pf] answers_own [OF gw sent, of pf] sent_to_purge [OF pinned, of "caller q"]
    by (simp add: k)
  then show ?case using snoc by (simp add: fleet_log_snoc serve_log_snoc kq new_fleet_def)
qed simp

text \<open>A balancer that does not keep it there is seen through: the trace of a chat is found on the
  replica that served the chat, whether the chat succeeded or not, and on no fresh one.\<close>

theorem scattered_fleet:
  assumes "resolve_security_context hs rid = Inr ctx"
  defines "ask \<equiv> \<lambda>c. \<lparr>rq_headers = hs, rq_id = rid, rq_call = c\<rparr>"
  shows "\<exists>r tr. fst (fleet_log pf gw [(j, ask (Chat body rg)), (k, ask (GetTrace (rg_trace_id rg)))] (new_fleet w)) =
    [r, if k = j then Reply 200 (trace_json tr)
        else Reply 404 (envelope ''not_found'' ''trace not found'' (Some (rg_trace_id rg)))]"
proof -
  have ask: "serve pf gw (ask c) app = endpoint pf gw c ctx app" for c app
    using serve_resolved [of "ask c" ctx pf gw app] assms(1) by (simp add: ask_def)
  let ?st = "snd (run pf rg (gw_pipeline gw) ctx (qb_prompt body) (qb_model body) (qb_max_tokens body) (qb_system body)
    (as_pipe (new_app w)))"
  obtain tr where "tracer_get ctx (rg_trace_id rg) (ps_traces ?st) = Some tr"
    using run_files_trace [where st = "as_pipe (new_app w)" and rg = rg and P = "gw_pipeline gw" and ctx = ctx and pf = pf
        and prompt = "qb_prompt body" and model = "qb_model body" and mt = "qb_max_tokens body" and system = "qb_system body"]
    by (auto split: prod.splits)
  moreover have "tracer_get ctx (rg_trace_id rg) (ps_traces (as_pipe (new_app w))) = None"
    by (simp add: tracer_get_def new_app_def)
  ultimately show ?thesis
    by (auto simp: dispatch_def new_fleet_def ask chat_def get_trace_def case_prod_beta)
qed

section \<open>Witnesses\<close>

text \<open>Two tenants on two replicas.\<close>

definition fx_pin :: "string \<Rightarrow> nat" where
  "fx_pin t = (if t = ''acme'' then 0 else 1)"

definition fx_asgi :: "unit gateway" where
  "fx_asgi = asgi_app (fx_http (fake_generate [] (mk_request ''m'' [] 5))) fx_schema fx_blake default_settings"

lemma sticky_fleet_witness:
  "fst (fleet_log fx_platform fx_asgi [(1, fx_request ''globex'' (Chat (default_chat_body ''hi'') fx_readings)),
      (0, fx_request ''acme'' AdminCost)] (new_fleet ())) =
    fst (serve_log fx_platform fx_asgi [fx_request ''globex'' (Chat (default_chat_body ''hi'') fx_readings),
      fx_request ''acme'' AdminCost] (new_app ()))"
proof -
  let ?a = "fx_request ''acme'' AdminCost" and ?g = "fx_request ''globex'' (Chat (default_chat_body ''hi'') fx_readings)"
  have c: "caller ?a = ''acme''" "caller ?g = ''globex''" by (simp_all add: caller_def fx_request_def or_else_def)
  have o: "owned fx_own ?a" by (simp add: owned_def fx_request_def split: sum.split)
  have o': "owned fx_own ?g"
    using c(2) caller_resolved [of ?g] by (auto simp: owned_def fx_request_def fx_own_def split: sum.split)
  show ?thesis
    using sticky_fleet [where kqs = "[(1, ?g), (0, ?a)]" and pin = fx_pin and own = fx_own and pf = fx_platform] c o o'
    by (simp add: fx_pin_def fx_asgi_def)
qed

lemma scattered_fleet_witness:
  "\<exists>r. fst (fleet_log fx_platform fx_gateway [(0, fx_request ''acme'' (Chat (default_chat_body ''hi'') fx_readings)),
      (1, fx_request ''acme'' (GetTrace ''t1''))] (new_fleet ())) =
    [r, Reply 404 (envelope ''not_found'' ''trace not found'' (Some ''t1''))]"
proof -
  obtain ctx where "resolve_security_context (rq_headers (fx_request ''acme'' AdminCost)) (rq_id (fx_request ''acme'' AdminCost)) = Inr ctx"
    using fx_request_context [of "''acme''" AdminCost] by auto
  then show ?thesis
    using scattered_fleet [where pf = fx_platform and gw = fx_gateway and j = 0 and k = 1 and w = "()" and rg = fx_readings
        and body = "default_chat_body ''hi''" and hs = "rq_headers (fx_request ''acme'' AdminCost)" and rid = "''r''"]
    by (simp add: fx_request_def)
qed

end
