(* ===== verification/Workers.thy ===== *)
theory Workers
  imports Memory Fixtures
begin

text \<open>
  \<^verbatim>\<open>workers/runner.py\<close> and \<^verbatim>\<open>workers/consolidation.py\<close>: the in-process worker plane and the
  consolidation job. A queued job is a closure; here it is a handle \<open>'j\<close> that \<open>run\<close> executes on
  the world \<open>'w\<close> it captured, with its outcome and the jobs it enqueued on the same runner
  meanwhile. The loop of \<^verbatim>\<open>drain\<close> need not end (a job may enqueue itself), so it is a partial
  function with value \<open>None\<close> where it diverges.
\<close>

section \<open>BackgroundRunner\<close>

record 'j runner =
  rn_queue :: "('j \<times> nat) list"
  rn_max_retries :: int
  rn_processed :: int
  rn_failed :: int

type_synonym ('j, 'w) job_run = "'j \<Rightarrow> 'w \<Rightarrow> unit result \<times> 'j list \<times> 'w"

definition new_runner :: "int \<Rightarrow> 'j runner" where
  "new_runner max_retries =
     \<lparr>rn_queue = [], rn_max_retries = max_retries, rn_processed = 0, rn_failed = 0\<rparr>"

definition enqueue :: "'j \<Rightarrow> 'j runner \<Rightarrow> 'j runner" where
  "enqueue job r = r\<lparr>rn_queue := rn_queue r @ [(job, 0)]\<rparr>"

definition pending :: "'j runner \<Rightarrow> nat" where
  "pending r = length (rn_queue r)"

text \<open>One turn of the loop: the job taken off the queue, run, and acknowledged, retried or given up.\<close>

definition drain_turn ::
  "('j, 'w) job_run \<Rightarrow> 'j \<Rightarrow> nat \<Rightarrow> 'j runner \<Rightarrow> 'w \<Rightarrow> int \<times> 'j runner \<times> 'w" where
  "drain_turn run job attempt r w =
     (case run job w of (outcome, spawned, w') \<Rightarrow>
        let r' = fold enqueue spawned r
        in case outcome of
             Inr _ \<Rightarrow> (1, r'\<lparr>rn_processed := rn_processed r' + 1\<rparr>, w')
           | Inl _ \<Rightarrow>
               if int attempt < rn_max_retries r'
               then (0, r'\<lparr>rn_queue := rn_queue r' @ [(job, attempt + 1)]\<rparr>, w')
               else (0, r'\<lparr>rn_failed := rn_failed r' + 1\<rparr>, w'))"

partial_function (option) drain_loop ::
  "('j, 'w) job_run \<Rightarrow> int \<Rightarrow> 'j runner \<Rightarrow> 'w \<Rightarrow> (int \<times> 'j runner \<times> 'w) option" where
  "drain_loop run cnt r w =
     (case rn_queue r of
        [] \<Rightarrow> Some (cnt, r, w)
      | entry # rest \<Rightarrow>
          (case drain_turn run (fst entry) (snd entry) (r\<lparr>rn_queue := rest\<rparr>) w of
             (n, r', w') \<Rightarrow> drain_loop run (cnt + n) r' w'))"

definition drain :: "('j, 'w) job_run \<Rightarrow> 'j runner \<Rightarrow> 'w \<Rightarrow> (int \<times> 'j runner \<times> 'w) option" where
  "drain run r w = drain_loop run 0 r w"

section \<open>Termination\<close>

lemma fold_enqueue [simp]:
  "rn_queue (fold enqueue js r) = rn_queue r @ map (\<lambda>j. (j, 0)) js"
  "rn_max_retries (fold enqueue js r) = rn_max_retries r"
  "rn_processed (fold enqueue js r) = rn_processed r"
  "rn_failed (fold enqueue js r) = rn_failed r"
  by (induction js arbitrary: r) (simp_all add: enqueue_def)

text \<open>A job that enqueues only jobs of a smaller rank, and the order in which the queue shrinks:
  the multiset of the ranks of the queued jobs with the retries each has left.\<close>

definition ranked :: "('j \<Rightarrow> nat) \<Rightarrow> ('j, 'w) job_run \<Rightarrow> bool" where
  "ranked rank run = (\<forall>j w. \<forall>j' \<in> set (fst (snd (run j w))). rank j' < rank j)"

definition queue_measure :: "('j \<Rightarrow> nat) \<Rightarrow> 'j runner \<Rightarrow> (nat \<times> nat) multiset" where
  "queue_measure rank r = mset (map (\<lambda>(j, a). (rank j, nat (rn_max_retries r - int a))) (rn_queue r))"

lemma drain_turn_cases:
  assumes "drain_turn run job attempt r w = (n, r', w')"
  obtains (ok) "fst (run job w) = Inr ()" "n = 1" "rn_processed r' = rn_processed r + 1"
      "rn_failed r' = rn_failed r" "rn_queue r' = rn_queue r @ map (\<lambda>j. (j, 0)) (fst (snd (run job w)))"
  | (retry) e where "fst (run job w) = Inl e" "n = 0" "int attempt < rn_max_retries r"
      "rn_processed r' = rn_processed r" "rn_failed r' = rn_failed r"
      "rn_queue r' = rn_queue r @ map (\<lambda>j. (j, 0)) (fst (snd (run job w))) @ [(job, attempt + 1)]"
  | (failed) e where "fst (run job w) = Inl e" "n = 0" "rn_max_retries r \<le> int attempt"
      "rn_processed r' = rn_processed r" "rn_failed r' = rn_failed r + 1"
      "rn_queue r' = rn_queue r @ map (\<lambda>j. (j, 0)) (fst (snd (run job w)))"
  using assms
  by (cases "run job w"; cases "fst (run job w)"; cases "int attempt < rn_max_retries r")
    (auto simp: drain_turn_def Let_def)

lemma drain_turn_keeps:
  assumes "drain_turn run job attempt r w = (n, r', w')"
  shows "rn_max_retries r' = rn_max_retries r" and "w' = snd (snd (run job w))"
  using assms by (auto simp: drain_turn_def Let_def split: prod.splits sum.splits if_splits)

lemma drain_turn_decreases:
  assumes "ranked rank run" and "rn_queue r = (job, attempt) # rest"
    and "drain_turn run job attempt (r\<lparr>rn_queue := rest\<rparr>) w = (n, r', w')"
  shows "(queue_measure rank r', queue_measure rank r) \<in> mult (less_than <*lex*> less_than)"
proof -
  let ?f = "\<lambda>(j, a). (rank j, nat (rn_max_retries r - int a))"
  let ?I = "mset (map ?f rest)" and ?J = "{#?f (job, attempt)#}"
  let ?new = "map (\<lambda>j. (j, 0)) (fst (snd (run job w)))"
  have max: "rn_max_retries r' = rn_max_retries r" using drain_turn_keeps [OF assms(3)] by simp
  have spawned: "\<forall>k \<in> set_mset (mset (map ?f ?new)). (k, ?f (job, attempt)) \<in> less_than <*lex*> less_than"
    using assms(1) by (auto simp: ranked_def)
  have J: "queue_measure rank r = ?I + ?J" by (simp add: queue_measure_def assms(2))
  have step: "(?I + K, ?I + ?J) \<in> mult (less_than <*lex*> less_than)"
    if "\<forall>k \<in> set_mset K. (k, ?f (job, attempt)) \<in> less_than <*lex*> less_than" for K
    by (rule one_step_implies_mult) (use that in auto)
  show ?thesis
    using assms(3)
  proof (cases rule: drain_turn_cases)
    case ok
    then have "queue_measure rank r' = ?I + mset (map ?f ?new)" by (simp add: queue_measure_def max)
    then show ?thesis using step [OF spawned] J by simp
  next
    case (retry e)
    let ?K = "mset (map ?f (?new @ [(job, attempt + 1)]))"
    have "\<forall>k \<in> set_mset ?K. (k, ?f (job, attempt)) \<in> less_than <*lex*> less_than"
      using spawned retry(3) by auto
    moreover have "queue_measure rank r' = ?I + ?K" using retry by (simp add: queue_measure_def max)
    ultimately show ?thesis using step [of ?K] J by simp
  next
    case (failed e)
    then have "queue_measure rank r' = ?I + mset (map ?f ?new)" by (simp add: queue_measure_def max)
    then show ?thesis using step [OF spawned] J by simp
  qed
qed

text \<open>Induction along the loop.\<close>

lemma drain_induct [consumes 1, case_names empty turn]:
  assumes "ranked rank run"
    and "\<And>cnt r w. rn_queue r = [] \<Longrightarrow> P cnt r w"
    and "\<And>cnt r w job attempt rest n r' w'. rn_queue r = (job, attempt) # rest \<Longrightarrow>
      drain_turn run job attempt (r\<lparr>rn_queue := rest\<rparr>) w = (n, r', w') \<Longrightarrow>
      P (cnt + n) r' w' \<Longrightarrow> P cnt r w"
  shows "P cnt r w"
proof -
  have "wf (mult (less_than <*lex*> less_than :: ((nat \<times> nat) \<times> (nat \<times> nat)) set))"
    by (intro wf_mult wf_lex_prod wf_less_than)
  then show ?thesis
  proof (induction "queue_measure rank r" arbitrary: cnt r w rule: wf_induct_rule)
    case (less r cnt w)
    show ?case
    proof (cases "rn_queue r")
      case Nil
      then show ?thesis by (rule assms(2))
    next
      case (Cons entry rest)
      obtain job attempt where e: "entry = (job, attempt)" by (cases entry)
      obtain n r' w' where t: "drain_turn run job attempt (r\<lparr>rn_queue := rest\<rparr>) w = (n, r', w')"
        by (cases "drain_turn run job attempt (r\<lparr>rn_queue := rest\<rparr>) w")
      have "P (cnt + n) r' w'"
        using less [OF drain_turn_decreases [OF assms(1) Cons [unfolded e] t]] .
      then show ?thesis using assms(3) Cons e t by blast
    qed
  qed
qed

lemma drain_loop_empty: "rn_queue r = [] \<Longrightarrow> drain_loop run cnt r w = Some (cnt, r, w)"
  by (simp add: drain_loop.simps)

lemma drain_loop_turn:
  "rn_queue r = (job, attempt) # rest \<Longrightarrow>
   drain_turn run job attempt (r\<lparr>rn_queue := rest\<rparr>) w = (n, r', w') \<Longrightarrow>
   drain_loop run cnt r w = drain_loop run (cnt + n) r' w'"
  by (subst drain_loop.simps) simp

lemma drain_loop_total:
  assumes "ranked rank run"
  shows "\<exists>k r' w'. drain_loop run cnt r w = Some (cnt + k, r', w') \<and> rn_queue r' = [] \<and>
    0 \<le> k \<and> rn_processed r' = rn_processed r + k \<and> rn_failed r \<le> rn_failed r'"
  using assms
proof (induction cnt r w rule: drain_induct)
  case (empty cnt r w)
  then show ?case by (simp add: drain_loop_empty)
next
  case (turn cnt r w job attempt rest n r' w')
  then obtain k r2 w2 where *: "drain_loop run (cnt + n) r' w' = Some (cnt + n + k, r2, w2)"
    "rn_queue r2 = []" "0 \<le> k" "rn_processed r2 = rn_processed r' + k" "rn_failed r' \<le> rn_failed r2" by blast
  have "0 \<le> n" "rn_processed r' = rn_processed r + n" "rn_failed r \<le> rn_failed r'"
    using turn.hyps(2) by (auto elim!: drain_turn_cases)
  then show ?case
    using * unfolding drain_loop_turn [OF turn.hyps] by (intro exI [of _ "n + k"]) auto
qed

section \<open>At least once, and not more often than allowed\<close>

lemma drain_loop_delivers:
  assumes "ranked (\<lambda>_. 0) run" and "\<And>j w. hist (snd (snd (run j w))) = hist w @ [j]"
  shows "\<exists>k r' w' L. drain_loop run cnt r w = Some (cnt + k, r', w') \<and>
    rn_processed r' + rn_failed r' = rn_processed r + rn_failed r + int (length (rn_queue r)) \<and>
    hist w' = hist w @ L \<and> mset (map fst (rn_queue r)) \<subseteq># mset L \<and>
    mset L \<subseteq># (\<Sum>(j, a) \<in># mset (rn_queue r). replicate_mset (Suc (nat (rn_max_retries r - int a))) j)"
  using assms(1)
proof (induction cnt r w rule: drain_induct)
  case (empty cnt r w)
  then show ?case by (simp add: drain_loop_empty)
next
  case (turn cnt r w job attempt rest n r' w')
  let ?B = "\<lambda>q. \<Sum>(j, a) \<in># mset q. replicate_mset (Suc (nat (rn_max_retries r - int a))) j"
  obtain k r2 w2 L where L: "drain_loop run (cnt + n) r' w' = Some (cnt + n + k, r2, w2)"
    "rn_processed r2 + rn_failed r2 = rn_processed r' + rn_failed r' + int (length (rn_queue r'))"
    "hist w2 = hist w' @ L" "mset (map fst (rn_queue r')) \<subseteq># mset L" "mset L \<subseteq># ?B (rn_queue r')"
    using turn.IH drain_turn_keeps(1) [OF turn.hyps(2)] by auto
  have hist: "hist w2 = hist w @ (job # L)"
    using L(3) assms(2) [of job w] drain_turn_keeps(2) [OF turn.hyps(2)] by simp
  have quiet: "fst (snd (run job w)) = []"
    using assms(1) by (auto simp: ranked_def)
  have "rn_processed r' + rn_failed r' + int (length (rn_queue r')) =
      rn_processed r + rn_failed r + int (length (rn_queue r)) \<and>
    mset (map fst rest) \<subseteq># mset (map fst (rn_queue r')) \<and> add_mset job (?B (rn_queue r')) \<subseteq># ?B (rn_queue r)"
    using turn.hyps(2)
  proof (cases rule: drain_turn_cases)
    case (retry e)
    then have "nat (rn_max_retries r - int attempt) = Suc (nat (rn_max_retries r - int (attempt + 1)))" by simp
    then show ?thesis using retry turn.hyps(1) quiet by simp
  qed (use turn.hyps(1) quiet in simp_all)
  moreover have "cnt + n + k = cnt + (n + k)" by simp
  ultimately show ?case
    unfolding drain_loop_turn [OF turn.hyps] using L(1,2,4,5) hist turn.hyps(1)
    by (intro exI [of _ "n + k"] exI [of _ r2] exI [of _ w2] exI [of _ "job # L"])
      (auto intro: subset_mset.order_trans)
qed

section \<open>One job on an idle runner\<close>

lemma emptied: "rn_queue r = [] \<Longrightarrow> r\<lparr>rn_queue := q, rn_queue := []\<rparr> = r"
  by (cases r) simp

lemma drain_head:
  assumes "rn_queue r = []"
  shows "drain_loop run n (r\<lparr>rn_queue := [(job, a)]\<rparr>) w =
    (case drain_turn run job a r w of (m, r', w') \<Rightarrow> drain_loop run (n + m) r' w')"
  using emptied [OF assms, of "[(job, a)]"] by (subst drain_loop.simps) simp

lemma drain_once:
  assumes "rn_queue r = []" and "rn_max_retries r = 1" and "\<And>w. fst (snd (run job w)) = []"
  shows "drain run (enqueue job r) w =
    (case run job w of
       (Inr _, _, w1) \<Rightarrow> Some (1, r\<lparr>rn_processed := rn_processed r + 1\<rparr>, w1)
     | (Inl _, _, w1) \<Rightarrow>
         (case run job w1 of
            (Inr _, _, w2) \<Rightarrow> Some (1, r\<lparr>rn_processed := rn_processed r + 1\<rparr>, w2)
          | (Inl _, _, w2) \<Rightarrow> Some (0, r\<lparr>rn_failed := rn_failed r + 1\<rparr>, w2)))"
proof -
  have q: "enqueue job r = r\<lparr>rn_queue := [(job, 0)]\<rparr>" by (simp add: enqueue_def assms(1))
  obtain o1 w1 where 1: "run job w = (o1, [], w1)" using assms(3) [of w] by (cases "run job w") auto
  obtain o2 w2 where 2: "run job w1 = (o2, [], w2)" using assms(3) [of w1] by (cases "run job w1") auto
  have counted: "drain_loop run n (r\<lparr>rn_processed := k\<rparr>) w' = Some (n, r\<lparr>rn_processed := k\<rparr>, w')"
    "drain_loop run n (r\<lparr>rn_failed := k\<rparr>) w' = Some (n, r\<lparr>rn_failed := k\<rparr>, w')" for n k w'
    by (simp_all add: drain_loop_empty assms(1))
  show ?thesis
    unfolding drain_def q drain_head [OF assms(1)] drain_turn_def 1 2
    by (cases o1; cases o2) (simp_all add: assms(1,2) counted drain_head drain_turn_def 2 split del: if_split)
qed

section \<open>Consolidation\<close>

definition CONSOLIDATE_LIMIT :: nat where "CONSOLIDATE_LIMIT = 512"

definition consolidation_prompt :: "memory_object list \<Rightarrow> string" where
  "consolidation_prompt rows =
     ''Consolidate these memories into a few durable facts. Preserve every number, identifier, ''
     @ ''and named entity verbatim; do not invent anything.'' @ [CHR 0x0A]
     @ join [CHR 0x0A] (map (\<lambda>r. ''- '' @ mo_content r) rows)"

text \<open>The state is the storage backend's \<open>'s\<close> and the inference backend's world \<open>'w\<close>; the id and
  the clock readings of the write are arguments, as in \<^verbatim>\<open>MemoryEngine.write\<close>.\<close>

definition consolidate_namespace ::
  "'s storage_backend \<Rightarrow> 'w adapter \<Rightarrow> security_context \<Rightarrow> int \<Rightarrow> string \<Rightarrow> int \<times> int \<times> int \<Rightarrow>
   's \<Rightarrow> 'w \<Rightarrow> nat result \<times> 's \<times> 'w" where
  "consolidate_namespace B llm ctx min_cluster ulid clk s w =
     (let rows = all_memories B ctx CONSOLIDATE_LIMIT s
      in if int (length rows) < min_cluster then (Inr 0, s, w)
      else
        let req = mk_request ''consolidation''
              [\<lparr>cm_role = USER, cm_content = consolidation_prompt rows\<rparr>] 256
        in case ad_generate llm req w of
             (Inl e, w') \<Rightarrow> (Inl e, s, w')
           | (Inr resp, w') \<Rightarrow>
               (case mem_write B ctx (strip (rs_text resp)) memory_tier.SEMANTIC (lit (7 / 10))
                       ''consolidation'' None None ulid clk s of
                  (Inl e, s') \<Rightarrow> (Inl e, s', w')
                | (Inr _, s') \<Rightarrow> (Inr (length rows), s', w')))"

lemma importance_in_range: "0 \<le> lit (7 / 10) \<and> lit (7 / 10) \<le> 1"
  by code_simp

context storage
begin

text \<open>A consolidation that answers adds one row, under its new id, and changes no other.\<close>

lemma consolidate_writes:
  "mem_write B ctx content memory_tier.SEMANTIC (lit (7 / 10)) src sid md ulid clk s = (res, s') \<Longrightarrow>
   \<exists>m. res = Inr m \<and> in_scope ctx m \<and> mo_id m = ulid \<and> mo_content m = content \<and>
     sb_get_memory B ctx ulid s' = Some m \<and>
     (\<forall>ctx' i. i \<noteq> ulid \<longrightarrow> sb_get_memory B ctx' i s' = sb_get_memory B ctx' i s)"
proof -
  let ?m = "new_memory ctx content memory_tier.SEMANTIC (lit (7 / 10)) src sid md ulid clk"
  assume w: "mem_write B ctx content memory_tier.SEMANTIC (lit (7 / 10)) src sid md ulid clk s = (res, s')"
  have "validate_memory ?m = Inr ?m"
    using importance_in_range by (simp add: validate_memory_def)
  then have add: "sb_add_memory B ctx ?m s = (res, s')" using w by (simp add: mem_write_def)
  then show ?thesis
    using add_in_scope [of ctx ?m s] get_after_add [of ctx ?m s] get_after_add_other [of _ ?m _ ctx s]
    by (intro exI [of _ ?m]) simp
qed

end

section \<open>Properties\<close>

text \<open>C29: The drain terminates when jobs enqueue only jobs of a smaller rank, whatever raises and
  however often: with every attempt bounded, the queue ends empty, and the count returned is the
  number of jobs processed meanwhile.\<close>

theorem drain_terminates:
  assumes "ranked rank run"
  shows "\<exists>cnt r' w'. drain run r w = Some (cnt, r', w') \<and> pending r' = 0 \<and> 0 \<le> cnt \<and>
    rn_processed r' = rn_processed r + cnt \<and> rn_failed r \<le> rn_failed r'"
  using drain_loop_total [OF assms, of 0 r w] by (auto simp: drain_def pending_def)

text \<open>C30: Delivery is at least once and at most once more than the retries allowed. For jobs that
  enqueue nothing, and any history of the runs, every job enqueued is run at least as often as it
  was enqueued and at most \<open>max_retries + 1\<close> times as often, nothing else is run, and every job
  ends as processed or as failed.\<close>

theorem drain_at_least_once:
  assumes "\<And>j w. fst (snd (run j w)) = []" and "\<And>j w. hist (snd (snd (run j w))) = hist w @ [j]"
    and "rn_queue r = map (\<lambda>j. (j, 0)) js"
  shows "\<exists>cnt r' w' L. drain run r w = Some (cnt, r', w') \<and> hist w' = hist w @ L \<and>
    mset js \<subseteq># mset L \<and> mset L \<subseteq># repeat_mset (Suc (nat (rn_max_retries r))) (mset js) \<and>
    rn_processed r' + rn_failed r' = rn_processed r + rn_failed r + int (length js)"
proof -
  have "ranked (\<lambda>_. 0) run" using assms(1) by (simp add: ranked_def)
  moreover have "(\<Sum>(j, a) \<in># mset (map (\<lambda>j. (j, 0::nat)) js). replicate_mset (Suc (nat (rn_max_retries r - int a))) j) =
      repeat_mset (Suc (nat (rn_max_retries r))) (mset js)"
    by (induction js) (simp_all add: repeat_mset_distrib_add_mset ac_simps del: repeat_mset_Suc)
  ultimately show ?thesis
    using drain_loop_delivers [of run hist 0 r w] assms(2)
    by (auto simp: drain_def assms(3) comp_def simp del: repeat_mset_Suc replicate_mset_Suc)
qed


section \<open>Witnesses\<close>

text \<open>A plane of named jobs, of which the second always raises, and the world is the history.\<close>

definition fx_run :: "string \<Rightarrow> string list \<Rightarrow> unit result \<times> string list \<times> string list" where
  "fx_run j w = (if j = ''bad'' then Inl (ValueError j) else Inr (), [], w @ [j])"

definition fx_runner :: "string runner" where
  "fx_runner = enqueue ''bad'' (enqueue ''good'' (new_runner 1))"

lemma drain_terminates_witness:
  "\<exists>cnt r' w'. drain fx_run fx_runner [] = Some (cnt, r', w') \<and> pending r' = 0"
  using drain_terminates [of "\<lambda>_. 0" fx_run fx_runner "[]"] by (auto simp: ranked_def fx_run_def)

lemma drain_at_least_once_witness:
  "\<exists>cnt r' L. drain fx_run fx_runner [] = Some (cnt, r', L) \<and> {#''good'', ''bad''#} \<subseteq># mset L \<and>
     rn_processed r' + rn_failed r' = 2"
  using drain_at_least_once [of fx_run "\<lambda>w. w" fx_runner "[''good'', ''bad'']" "[]"]
  by (auto simp: fx_run_def fx_runner_def enqueue_def new_runner_def)

end
