(* ===== verification/Sdk.thy ===== *)
theory Sdk
  imports Serving Workers
begin

text \<open>
  \<^verbatim>\<open>src/contextos/__init__.py\<close>: the client library, bound to one user of one tenant. Its methods
  drive the components the gateway drives, built by the same functions; consolidation goes
  through the worker plane, whose queue is the only state the gateway does not have.
\<close>

section \<open>The client\<close>

record 'w client =
  cl_ctx :: security_context
  cl_adapter :: "'w adapter"
  cl_pipeline :: "(mem_store, cache_store, 'w) pipeline"
  cl_memory :: "mem_store storage_backend \<times> embedder"
  cl_replay :: "embedder \<times> tokenizer"

text \<open>The closure \<^verbatim>\<open>job\<close> of \<^verbatim>\<open>consolidate\<close> is the only job.\<close>

datatype sdk_job = Consolidate

record 'w client_state = "'w app_state" +
  cl_runner :: "sdk_job runner"

definition DEFAULT_RETRIES :: int where "DEFAULT_RETRIES = 1"

definition new_client ::
  "'w http_client \<Rightarrow> schema \<Rightarrow> (string \<Rightarrow> 64 word) \<Rightarrow> settings \<Rightarrow> 'w adapter option \<Rightarrow> string \<Rightarrow> string \<Rightarrow>
   string option \<Rightarrow> string \<Rightarrow> 'w client result" where
  "new_client H S blake gs adapter user_id tenant namespace rid =
     bnd (resolve (Some tenant) (Some user_id) namespace None rid) (\<lambda>ctx.
       let a = (case adapter of Some a \<Rightarrow> a | None \<Rightarrow> build_adapter H S gs)
       in Inr \<lparr>cl_ctx = ctx, cl_adapter = a, cl_pipeline = build_pipeline gs a blake,
            cl_memory = build_memory_engine blake, cl_replay = build_replay blake\<rparr>)"

definition new_client_state :: "'w \<Rightarrow> 'w client_state" where
  "new_client_state w = app_state.extend (new_app w) \<lparr>cl_runner = new_runner DEFAULT_RETRIES\<rparr>"

section \<open>Methods\<close>

definition sdk_chat ::
  "platform \<Rightarrow> readings \<Rightarrow> 'w client \<Rightarrow> string \<Rightarrow> string option \<Rightarrow> int \<Rightarrow> string option \<Rightarrow> 'w client_state \<Rightarrow>
   chat_result result \<times> 'w client_state" where
  "sdk_chat pf rg cl prompt model max_tokens system cs =
     (case run pf rg (cl_pipeline cl) (cl_ctx cl) prompt model max_tokens system (as_pipe cs) of
        (res, st) \<Rightarrow> (res, cs\<lparr>as_pipe := st\<rparr>))"

definition remember ::
  "'w client \<Rightarrow> string \<Rightarrow> memory_tier \<Rightarrow> flt \<Rightarrow> string \<Rightarrow> int \<times> int \<times> int \<Rightarrow> 'w client_state \<Rightarrow>
   string result \<times> 'w client_state" where
  "remember cl content tier importance ulid clk cs =
     (case mem_write (fst (cl_memory cl)) (cl_ctx cl) content tier importance ''chat'' None None ulid clk
             (ps_store (as_pipe cs)) of
        (res, s) \<Rightarrow> (bnd res (\<lambda>m. Inr (mo_id m)), cs\<lparr>as_pipe := (as_pipe cs)\<lparr>ps_store := s\<rparr>\<rparr>))"

definition sdk_replay :: "platform \<Rightarrow> 'w client \<Rightarrow> string \<Rightarrow> 'w client_state \<Rightarrow> replay_result option result" where
  "sdk_replay pf cl trace_id cs = replay (pf_sha pf) (fst (cl_replay cl)) (snd (cl_replay cl)) (cl_ctx cl) trace_id
     RECORDED_OUTPUT (ps_bundles (as_pipe cs))"

definition sdk_diff :: "'w client \<Rightarrow> string \<Rightarrow> string \<Rightarrow> 'w client_state \<Rightarrow> context_diff option" where
  "sdk_diff cl trace_a trace_b cs =
     (let a = bundle_get (cl_ctx cl) trace_a (ps_bundles (as_pipe cs));
          b = bundle_get (cl_ctx cl) trace_b (ps_bundles (as_pipe cs))
      in if a \<noteq> None \<and> b \<noteq> None then Some (diff_bundles (the a) (the b)) else None)"

definition sdk_commit :: "'w client \<Rightarrow> string \<Rightarrow> string \<Rightarrow> string \<Rightarrow> int \<Rightarrow> 'w client_state \<Rightarrow> string \<times> 'w client_state" where
  "sdk_commit cl label branch ulid now cs =
     (case commit_memories (fst (cl_memory cl)) (cl_ctx cl) label branch ulid now (ps_store (as_pipe cs))
             (as_versioning cs) of
        (c, vs) \<Rightarrow> (c, cs\<lparr>as_versioning := vs\<rparr>))"

definition sdk_branch :: "'w client \<Rightarrow> string \<Rightarrow> string \<Rightarrow> 'w client_state \<Rightarrow> 'w client_state" where
  "sdk_branch cl name from_branch cs =
     cs\<lparr>as_versioning := branch_from (cl_ctx cl) name from_branch (as_versioning cs)\<rparr>"

definition sdk_branches :: "'w client \<Rightarrow> 'w client_state \<Rightarrow> (string, string option) dict" where
  "sdk_branches cl cs = branches (cl_ctx cl) (as_versioning cs)"

definition sdk_memory_diff :: "'w client \<Rightarrow> string \<Rightarrow> string \<Rightarrow> 'w client_state \<Rightarrow> memory_diff result" where
  "sdk_memory_diff cl a b cs = diff_commits (cl_ctx cl) a b (as_versioning cs)"

definition sdk_rollback :: "'w client \<Rightarrow> string \<Rightarrow> 'w client_state \<Rightarrow> nat result \<times> 'w client_state" where
  "sdk_rollback cl c cs =
     (case rollback (fst (cl_memory cl)) (cl_ctx cl) c (as_versioning cs) (ps_store (as_pipe cs)) of
        (res, s) \<Rightarrow> (res, cs\<lparr>as_pipe := (as_pipe cs)\<lparr>ps_store := s\<rparr>\<rparr>))"

definition sdk_cost :: "'w client \<Rightarrow> 'w client_state \<Rightarrow> cost_summary" where
  "sdk_cost cl cs = ledger_summary (cl_ctx cl) (ps_ledger (as_pipe cs))"

section \<open>Consolidation\<close>

text \<open>What the closure captures and assigns: the store, the backend's world, the \<^verbatim>\<open>nonlocal\<close> result;
  and how often it has run, since every run takes fresh ids and clock readings.\<close>

type_synonym 'w job_world = "mem_store \<times> 'w \<times> nat \<times> nat"

definition MIN_CLUSTER :: int where "MIN_CLUSTER = 2"

definition consolidation_attempt ::
  "'w client \<Rightarrow> string \<times> int \<times> int \<times> int \<Rightarrow> mem_store \<Rightarrow> 'w \<Rightarrow> nat result \<times> mem_store \<times> 'w" where
  "consolidation_attempt cl i s w =
     consolidate_namespace (fst (cl_memory cl)) (cl_adapter cl) (cl_ctx cl) MIN_CLUSTER (fst i) (snd i) s w"

definition consolidation_job ::
  "'w client \<Rightarrow> (nat \<Rightarrow> string \<times> int \<times> int \<times> int) \<Rightarrow> (sdk_job, 'w job_world) job_run" where
  "consolidation_job cl ids job jw =
     (case jw of (s, w, result, k) \<Rightarrow>
        (case consolidation_attempt cl (ids k) s w of
           (Inl e, s', w') \<Rightarrow> (Inl e, [], (s', w', result, Suc k))
         | (Inr n, s', w') \<Rightarrow> (Inr (), [], (s', w', n, Suc k))))"

text \<open>\<open>None\<close> where the drain does not end.\<close>

definition sdk_consolidate ::
  "'w client \<Rightarrow> (nat \<Rightarrow> string \<times> int \<times> int \<times> int) \<Rightarrow> 'w client_state \<Rightarrow> (nat \<times> 'w client_state) option" where
  "sdk_consolidate cl ids cs =
     (case drain (consolidation_job cl ids) (enqueue Consolidate (cl_runner cs))
             (ps_store (as_pipe cs), ps_world (as_pipe cs), 0, 0) of
        None \<Rightarrow> None
      | Some (_, r, (s, w, result, _)) \<Rightarrow>
          Some (result, cs\<lparr>as_pipe := (as_pipe cs)\<lparr>ps_store := s, ps_world := w\<rparr>, cl_runner := r\<rparr>))"

section \<open>The worker plane runs the job once or twice\<close>

lemma client_memory:
  assumes "new_client H S blake gs adapter user_id tenant namespace rid = Inr cl"
  shows "cl_memory cl = (inmem, hashing_provider blake DEFAULT_DIM)"
  using assms by (auto simp: new_client_def Let_def build_memory_engine_def DEFAULT_DIM_def)

lemma attempt_failed:
  assumes "fst (cl_memory cl) = inmem" and "consolidation_attempt cl i s w = (Inl e, s', w')"
  shows "s' = s"
  using assms
  by (auto simp: consolidation_attempt_def consolidate_namespace_def Let_def split: if_splits prod.splits sum.splits
      dest!: inmem.consolidate_writes)

section \<open>Properties\<close>

text \<open>C33: Consolidation through the worker plane. The client's \<^verbatim>\<open>consolidate\<close> always returns. A first
  attempt that succeeds is the outcome; one that raises is retried once, with fresh ids, on the
  state it left; when the second raises too, the result is 0, the failure is counted and the
  memories are as they were. The queue ends empty, so the method can be called again.\<close>

theorem consolidate_retries:
  fixes cs :: "'w client_state"
  defines "r \<equiv> cl_runner cs" and "st \<equiv> as_pipe cs"
  assumes "new_client H S blake gs adapter user_id tenant namespace rid = Inr cl"
    and "rn_queue r = []" and "rn_max_retries r = DEFAULT_RETRIES"
  shows "sdk_consolidate cl ids cs = Some
    (case consolidation_attempt cl (ids 0) (ps_store st) (ps_world st) of
       (Inr n, s, w) \<Rightarrow> (n, cs\<lparr>as_pipe := st\<lparr>ps_store := s, ps_world := w\<rparr>, cl_runner := r\<lparr>rn_processed := rn_processed r + 1\<rparr>\<rparr>)
     | (Inl _, _, w) \<Rightarrow>
         (case consolidation_attempt cl (ids 1) (ps_store st) w of
            (Inr n, s, w') \<Rightarrow> (n, cs\<lparr>as_pipe := st\<lparr>ps_store := s, ps_world := w'\<rparr>, cl_runner := r\<lparr>rn_processed := rn_processed r + 1\<rparr>\<rparr>)
          | (Inl _, _, w') \<Rightarrow> (0, cs\<lparr>as_pipe := st\<lparr>ps_world := w'\<rparr>, cl_runner := r\<lparr>rn_failed := rn_failed r + 1\<rparr>\<rparr>)))"
proof -
  have mem: "fst (cl_memory cl) = inmem" using client_memory [OF assms(3)] by simp
  have quiet: "fst (snd (consolidation_job cl ids j jw)) = []" for j jw
    by (simp add: consolidation_job_def split: prod.split sum.split)
  note once = drain_once [where run = "consolidation_job cl ids", OF assms(4) assms(5) [unfolded DEFAULT_RETRIES_def] quiet]
  obtain o1 s1 w1 where 1: "consolidation_attempt cl (ids 0) (ps_store st) (ps_world st) = (o1, s1, w1)" by (rule prod_cases3)
  obtain o2 s2 w2 where 2: "consolidation_attempt cl (ids 1) (ps_store st) w1 = (o2, s2, w2)" by (rule prod_cases3)
  show ?thesis
  proof (cases o1)
    case (Inr n)
    then show ?thesis using once 1 by (simp add: sdk_consolidate_def consolidation_job_def st_def r_def)
  next
    case (Inl e)
    then have "s1 = ps_store st" using attempt_failed [OF mem] 1 by simp
    then have run1: "consolidation_job cl ids Consolidate (ps_store st, ps_world st, 0, 0) = (Inl e, [], (ps_store st, w1, 0, 1))"
      using 1 Inl by (simp add: consolidation_job_def r_def)
    show ?thesis
    proof (cases o2)
      case (Inr n)
      then show ?thesis
        using once run1 1 2 Inl by (simp add: sdk_consolidate_def st_def r_def) (simp add: consolidation_job_def r_def)
    next
      case (Inl e')
      then have "s2 = ps_store st" using attempt_failed [OF mem] 2 by simp
      then show ?thesis
        using once run1 1 2 \<open>o1 = Inl e\<close> Inl by (simp add: sdk_consolidate_def st_def r_def) (simp add: consolidation_job_def r_def)
    qed
  qed
qed


section \<open>Witnesses\<close>

definition fx_client :: "unit client" where
  "fx_client = (case new_client (fx_http (fake_generate [] (mk_request ''m'' [] 5))) fx_schema fx_blake
     (default_settings\<lparr>gs_backend_kind := ''fake''\<rparr>) None ''1'' ''acme'' None ''r'' of Inr cl \<Rightarrow> cl)"

lemma fx_client_new: "new_client (fx_http (fake_generate [] (mk_request ''m'' [] 5))) fx_schema fx_blake
     (default_settings\<lparr>gs_backend_kind := ''fake''\<rparr>) None ''1'' ''acme'' None ''r'' = Inr fx_client"
proof -
  obtain ctx where "resolve (Some ''acme'') (Some ''1'') None None ''r'' = Inr ctx"
    by (simp add: resolve_def)
  then show ?thesis by (simp add: fx_client_def new_client_def Let_def)
qed

lemma consolidate_retries_witness:
  "\<exists>n cs. sdk_consolidate fx_client (\<lambda>_. (''c1'', 0, 0, 0)) (new_client_state ()) = Some (n, cs)"
  using consolidate_retries [OF fx_client_new, of "new_client_state ()" "\<lambda>_. (''c1'', 0, 0, 0)"]
  by (simp add: new_client_state_def new_runner_def app_state.extend_def)


end
