(* ===== verification/Recall.thy ===== *)
theory Recall
  imports Answers
begin

text \<open>
  What the caller's memory does for an answer. A namespace small enough for the retrieval limit and
  the token budget is recalled in full: the lemmas follow a memory from the store through the
  retrieval (\<open>engine.retrieve_covers\<close>), the compressor, the packing and the rendering into the
  messages that the answering backend was given.
\<close>

section \<open>Compression shortens\<close>

lemma compress_tokens:
  "compress text target cnt query llm w = (b, w') \<Longrightarrow>
   cb_original_tokens b = cnt text \<and> cb_compressed_tokens b = cnt (cb_text b)"
  by (auto simp: compress_def mk_block_def Let_def split: if_splits option.splits prod.splits)

text \<open>A text that the compressor has nothing to do about.\<close>

definition settled :: "int \<Rightarrow> tokenizer \<Rightarrow> string \<Rightarrow> bool" where
  "settled target cnt text = (structural text = text \<and> cnt text \<le> target)"

lemma compress_settled:
  "compress text target cnt query llm w = (b, w') \<Longrightarrow> settled target cnt text \<Longrightarrow> cb_text b = text"
  by (auto simp: compress_def mk_block_def settled_def Let_def)

definition no_longer :: "int \<Rightarrow> tokenizer \<Rightarrow> memory_candidate \<Rightarrow> memory_candidate \<Rightarrow> bool" where
  "no_longer target cnt c c' = (cnt (mc_content c') \<le> cnt (mc_content c) \<and>
     (settled target cnt (mc_content c) \<longrightarrow> mc_content c' = mc_content c))"

lemma no_longer_refl: "no_longer target cnt c c"
  by (simp add: no_longer_def)

lemma compress_loop_no_longer:
  "compress_loop llm target cnt prompt cs saved acc w = (s, out, w') \<Longrightarrow>
   \<exists>cs'. out = acc @ cs' \<and> list_all2 (no_longer target cnt) cs cs'"
proof (induction llm target cnt prompt cs saved acc w rule: compress_loop.induct)
  case (2 llm target cnt prompt c cs saved acc w)
  obtain block w1 where b: "compress (mc_content c) target cnt (Some prompt) llm w = (block, w1)" by (rule prod.exhaust)
  show ?case
  proof (cases "cb_compressed_tokens block < cb_original_tokens block")
    case True
    obtain cs' where "out = (acc @ [c\<lparr>mc_content := cb_text block\<rparr>]) @ cs'" "list_all2 (no_longer target cnt) cs cs'"
      using 2(1) [OF b [symmetric] True] 2(3) b True by auto
    moreover have "no_longer target cnt c (c\<lparr>mc_content := cb_text block\<rparr>)"
      using compress_tokens [OF b] compress_settled [OF b] True by (simp add: no_longer_def)
    ultimately show ?thesis by (intro exI [of _ "c\<lparr>mc_content := cb_text block\<rparr> # cs'"]) simp
  next
    case False
    obtain cs' where "out = (acc @ [c]) @ cs'" "list_all2 (no_longer target cnt) cs cs'"
      using 2(2) [OF b [symmetric] False] 2(3) b False by auto
    then show ?thesis by (intro exI [of _ "c # cs'"]) (simp add: no_longer_refl)
  qed
qed simp

lemma compresses_no_longer:
  "compresses P prompt cs w cs' w' \<Longrightarrow> list_all2 (no_longer (pl_compress_target P) (pl_tokenizer P)) cs cs'"
  by (auto simp: compresses_def list_all2_same no_longer_refl split: if_splits dest!: compress_loop_no_longer)

lemma no_longer_sum:
  "list_all2 (no_longer target cnt) cs cs' \<Longrightarrow>
   sum_list (map (\<lambda>c. cnt (mc_content c)) cs') \<le> sum_list (map (\<lambda>c. cnt (mc_content c)) cs)"
  by (induction rule: list_all2_induct) (auto simp: no_longer_def)

section \<open>What fits is packed and rendered\<close>

lemma pack_all:
  "used + tokens_of cnt sel \<le> soft \<Longrightarrow> (\<And>t. 0 \<le> cnt t) \<Longrightarrow> fst (pack cnt soft used sel) = sel"
proof (induction cnt soft used sel rule: pack.induct)
  case (2 cnt soft used c b rest)
  have "0 \<le> tokens_of cnt rest" using 2(4) by (intro sum_list_nonneg) auto
  then show ?case using 2 by (auto simp: Let_def split_def)
qed simp

lemma sublist_prepend: "sublist xs ys \<Longrightarrow> sublist xs (zs @ ys)"
  by (rule sublist_order.order_trans [OF _ sublist_append_leftI])

lemma sublist_join: "x \<in> set xs \<Longrightarrow> sublist x (join sep xs)"
proof (induction sep xs rule: join.induct)
  case (3 sep y z ys)
  then show ?case
    by (cases "x = y") (simp_all add: sublist_prepend)
qed auto

lemma render_shows:
  assumes "(c, b) \<in> set placed"
  shows "\<exists>msg \<in> set (render_messages src placed). sublist (mc_content c) (cm_content msg)"
proof -
  let ?body = "join NL (map (\<lambda>(c, b). ''- '' @ mc_content c) placed)"
  have "sublist (''- '' @ mc_content c) ?body"
    using assms by (intro sublist_join) force
  then have "sublist (mc_content c) ?body" by (rule sublist_order.order_trans [rotated]) (rule sublist_append_leftI)
  then have "sublist (mc_content c) (RELEVANT @ ?body)" by (rule sublist_prepend)
  then show ?thesis
    using assms by (intro bexI [of _ "\<lparr>cm_role = SYSTEM, cm_content = RELEVANT @ ?body\<rparr>"])
      (auto simp: render_messages_def)
qed

lemma assemble_shows:
  assumes "assemble E budget (pipe_sources prompt system cs) w (Some cnt) lam = Inr ac"
    and "length cs \<le> MMR_TOPK" and "\<And>t. 0 \<le> cnt t"
    and "sum_list (map (\<lambda>c. cnt (mc_content c)) cs) \<le> soft_budget budget" and "c \<in> set cs"
  shows "0 < kept_count ac \<and> (\<exists>msg \<in> set (ac_messages ac). sublist (mc_content c) (cm_content msg))"
proof -
  let ?sc = "blend cs w"
  obtain selected surv decs where
    m: "asm_mmr E ?sc lam = Inr selected" and p: "pack (token_count (Some cnt)) (soft_budget budget) 0 selected = (surv, decs)"
    and r: "ac_messages ac = render_messages (pipe_sources prompt system cs) (edge_load surv)"
    and d: "ac_decisions ac = place (edge_load surv) (decs @ below_topk ?sc selected)"
    by (rule assemble_InrE [OF assms(1)]) (simp add: pipe_sources_def)
  have counted: "token_count (Some cnt) = cnt" by (simp add: fun_eq_iff token_count_def)
  have "length (map fst ?sc) = length cs" by (simp only: blend_fst)
  then have "length ?sc = length cs" by (simp only: length_map)
  then have "mset selected = mset ?sc" using asm_mmr_mset [OF m] assms(2) by simp
  then have "mset (map fst selected) = mset (map fst ?sc)" by (simp only: mset_map)
  then have ms: "mset (map fst selected) = mset cs" by (simp only: blend_fst)
  have "tokens_of cnt selected = sum_list (map (\<lambda>c. cnt (mc_content c)) (map fst selected))"
    by (simp add: comp_def split_def)
  also have "\<dots> = sum_list (map (\<lambda>c. cnt (mc_content c)) cs)"
    using arg_cong [OF ms, of "\<lambda>M. sum_mset (image_mset (\<lambda>c. cnt (mc_content c)) M)"]
    by (simp only: mset_map [symmetric] sum_mset_sum_list)
  finally have "surv = selected"
    using pack_all [of 0 cnt selected "soft_budget budget"] p assms(3,4) by (simp add: counted)
  then have "c \<in> fst ` set (edge_load surv)"
    using mset_eq_setD [OF ms] assms(5) by simp
  moreover from this have "surv \<noteq> []" by auto
  then have "0 < kept_count ac"
    using kept_count_surv [OF p] by (simp add: kept_count_def d place_kept_length below_topk_not_kept)
  ultimately show ?thesis unfolding r using render_shows by force
qed

section \<open>A small namespace is retrieved in full\<close>

lemma retrieve_small:
  fixes blake :: "string \<Rightarrow> 64 word"
  assumes "store_inv s" and "length (list_memories ctx SCAN_LIMIT s) < RETRIEVE_K" and "\<And>x. 0 \<le> pow_half L x"
    and "\<forall>m \<in> set (list_memories ctx SCAN_LIMIT s). 0 \<le> mo_importance m"
    and "retrieve inmem (hashing_provider blake DEFAULT_DIM) L set_order ctx query RETRIEVE_K now s = Inr cs"
  shows "length cs \<le> length (list_memories ctx SCAN_LIMIT s)"
    and "(\<And>t. 0 \<le> cnt t) \<Longrightarrow> sum_list (map (\<lambda>c. cnt (mc_content c)) cs) \<le>
      sum_list (map (\<lambda>m. (cnt (mo_content m) :: int)) (list_memories ctx SCAN_LIMIT s))"
    and "get_memory ctx i s = Some m \<Longrightarrow> \<exists>c \<in> set cs. \<exists>n. get_memory ctx (mc_memory_id c) s = Some n \<and>
      mc_content c = mo_content n \<and> (mc_memory_id c = i \<or> engine.covered blake [c] m)"
proof -
  let ?rows = "list_memories ctx SCAN_LIMIT s"
  have ids: "distinct (map mc_memory_id cs)"
    and own: "\<forall>c \<in> set cs. \<exists>m. sb_get_memory inmem ctx (mc_memory_id c) s = Some m \<and> in_scope ctx m \<and> derived_from c m"
    by (rule engine.retrieve_ok [OF assms(1), where blake = blake and L = L and set_order = set_order and ctx = ctx
          and query = query and k = RETRIEVE_K and now = now]; use assms(5) in simp)+
  have few: "length ?rows < SCAN_LIMIT" "RETRIEVE_K \<le> N_DENSE" "RETRIEVE_K \<le> MAX_CANDIDATES"
    using assms(2) by (simp_all add: RETRIEVE_K_def SCAN_LIMIT_def N_DENSE_def MAX_CANDIDATES_def)
  then have listed: "get_memory ctx j s = Some n \<Longrightarrow> n \<in> set ?rows" for j n
    using inmem.list_complete [OF assms(1), of ctx j n SCAN_LIMIT] by (simp add: inmem_def)
  define h where "h c = the (get_memory ctx (mc_memory_id c) s)" for c :: memory_candidate
  have h: "get_memory ctx (mc_memory_id c) s = Some (h c)" "mo_id (h c) = mc_memory_id c" "mc_content c = mo_content (h c)"
    if "c \<in> set cs" for c
    using own that by (auto simp: h_def inmem_def derived_from_def)
  have sub: "h ` set cs \<subseteq> set ?rows" using h(1) listed by auto
  have inj: "inj_on h (set cs)"
    using h(2) ids by (metis distinct_map inj_onD inj_onI)
  have dist: "distinct cs" "distinct ?rows"
    using ids inmem.list_distinct [OF assms(1), of ctx SCAN_LIMIT] by (simp_all add: inmem_def distinct_map)
  have "card (set cs) \<le> card (set ?rows)"
    using card_image [OF inj] card_mono [OF _ sub] by simp
  then show len: "length cs \<le> length ?rows" using dist by (simp add: distinct_card)
  show "sum_list (map (\<lambda>c. cnt (mc_content c)) cs) \<le> sum_list (map (\<lambda>m. (cnt (mo_content m) :: int)) ?rows)"
    if nn: "\<And>t. 0 \<le> cnt t"
  proof -
    have "sum_list (map (\<lambda>c. cnt (mc_content c)) cs) = sum (\<lambda>c. cnt (mc_content c)) (set cs)"
      using dist(1) by (simp add: sum_list_distinct_conv_sum_set)
    also have "\<dots> = sum (\<lambda>m. cnt (mo_content m)) (h ` set cs)"
      using h(3) by (simp add: sum.reindex [OF inj])
    also have "\<dots> \<le> sum (\<lambda>m. cnt (mo_content m)) (set ?rows)"
      using sub nn by (intro sum_mono2) auto
    also have "\<dots> = sum_list (map (\<lambda>m. cnt (mo_content m)) ?rows)"
      using dist(2) by (simp add: sum_list_distinct_conv_sum_set)
    finally show ?thesis .
  qed
  assume m: "get_memory ctx i s = Some m"
  have "engine.covered blake cs m"
    by (rule engine.retrieve_covers [OF assms(1), where L = L and set_order = set_order and ctx = ctx
          and query = query and k = RETRIEVE_K and now = now])
      (use assms few len listed [OF m] in \<open>simp_all add: inmem_def\<close>)
  moreover have "mo_id m = i" using inmem.get_scoped [OF assms(1), of ctx i m] m by (simp add: inmem_def)
  ultimately obtain c where "c \<in> set cs" "mc_memory_id c = i \<or> engine.covered blake [c] m"
    unfolding engine.covered_def by auto
  then show "\<exists>c \<in> set cs. \<exists>n. get_memory ctx (mc_memory_id c) s = Some n \<and>
      mc_content c = mo_content n \<and> (mc_memory_id c = i \<or> engine.covered blake [c] m)"
    using h by blast
qed

section \<open>From the store to the backend\<close>

definition stands_for :: "(string \<Rightarrow> 64 word) \<Rightarrow> memory_object \<Rightarrow> memory_object \<Rightarrow> bool" where
  "stands_for blake n m = (mo_id n = mo_id m \<or>
     (\<exists>u v x. em_embed (hashing_provider blake DEFAULT_DIM) (mo_content m) = Inr u \<and>
       em_embed (hashing_provider blake DEFAULT_DIM) (mo_content n) = Inr v \<and> cosine u v = Inr x \<and> COS_DUP \<le> x))"

lemma answered_recalls:
  fixes P :: "(mem_store, 'c, 'w) pipeline"
  assumes "run pf rg P ctx prompt model mt system st = (Inr r, st')"
    and "looked_up pf rg P ctx prompt model system st = None" and "pl_assembler P = Some E"
    and "pl_memory P = Some (inmem, hashing_provider blake DEFAULT_DIM)" and "store_inv (ps_store st)"
    and "length (list_memories ctx SCAN_LIMIT (ps_store st)) < RETRIEVE_K"
    and "\<forall>m \<in> set (list_memories ctx SCAN_LIMIT (ps_store st)). 0 \<le> mo_importance m"
    and "sum_list (map (\<lambda>m. pl_tokenizer P (mo_content m)) (list_memories ctx SCAN_LIMIT (ps_store st))) \<le>
      soft_budget (pipe_budget P prompt mt system)"
    and "\<And>t. 0 \<le> pl_tokenizer P t" and "\<And>x. 0 \<le> pow_half (pf_libm pf) x"
  obtains a rq w resp w' injected model' where "a \<in> adapters_of P (ps_backends st)"
    and "ad_generate a rq w = (Inr resp, w')" and "res_text r = rs_text resp"
    and "ps_cache st' = written_cache pf rg P ctx prompt system injected resp model' (ps_cache st)"
    and "\<And>i m. get_memory ctx i (ps_store st) = Some m \<Longrightarrow> 0 < injected \<and>
      (\<exists>n text. get_memory ctx (mo_id n) (ps_store st) = Some n \<and> stands_for blake n m \<and>
         facts text \<subseteq> facts (mo_content n) \<and> (pl_compressor P = None \<or> settled (pl_compress_target P) (pl_tokenizer P) (mo_content n) \<longrightarrow> text = mo_content n) \<and>
         (\<exists>msg \<in> set (rq_messages rq). sublist text (cm_content msg)))"
proof -
  let ?s = "ps_store st" and ?cnt = "pl_tokenizer P"
  obtain retrieved cs w1 msgs injected bundles decision model1 resp model' reg w where
    ret: "retrieves pf rg P ctx prompt ?s retrieved" and sh: "list_all2 shortened retrieved cs"
    and co: "compresses P prompt retrieved (ps_world st) cs w1"
    and a: "assembles pf rg P ctx prompt (chosen_model P model) mt system cs (ps_bundles st) msgs injected bundles"
    and i: "invokes rg P decision model1 msgs mt (ps_backends st) w1 resp model' reg w"
    and ch: "ps_cache st' = written_cache pf rg P ctx prompt system injected resp model' (ps_cache st)"
    and t: "res_text r = rs_text resp"
    by (rule run_miss_answeredE [OF assms(1,2)])
  have r: "retrieve inmem (hashing_provider blake DEFAULT_DIM) (pf_libm pf) (pf_set_order pf) ctx prompt RETRIEVE_K
      (rg_retrieve rg) ?s = Inr retrieved"
    using ret assms(4) by (simp add: retrieves_def)
  note small = retrieve_small [OF assms(5,6,10,7) r]
  have short: "list_all2 (no_longer (pl_compress_target P) ?cnt) retrieved cs" by (rule compresses_no_longer [OF co])
  have sum: "sum_list (map (\<lambda>c. ?cnt (mc_content c)) cs) \<le> soft_budget (pipe_budget P prompt mt system)"
    using no_longer_sum [OF short] small(2) [of ?cnt, OF assms(9)] assms(8) by (meson order_trans)
  obtain ac where ac: "assemble E (pipe_budget P prompt mt system) (pipe_sources prompt system cs) (pl_weights P)
      (Some ?cnt) PIPE_MMR_LAMBDA = Inr ac" "msgs = ac_messages ac" "injected = kept_count ac"
    using a assms(3) by (auto simp: assembles_def)
  have few: "length cs \<le> MMR_TOPK"
    using list_all2_lengthD [OF sh] small(1) assms(6) by (simp add: MMR_TOPK_def RETRIEVE_K_def)
  obtain a' m' w2 where g: "a' \<in> adapters_of P (ps_backends st)" "ad_generate a' (mk_request m' msgs mt) w2 = (Inr resp, w)"
    using invokes_adapter [OF i] by auto
  show thesis
  proof (rule that [OF g t ch])
    fix i m assume m: "get_memory ctx i ?s = Some m"
    obtain c0 n where c0: "c0 \<in> set retrieved" "get_memory ctx (mc_memory_id c0) ?s = Some n" "mc_content c0 = mo_content n"
      "mc_memory_id c0 = i \<or> engine.covered blake [c0] m"
      using small(3) [OF m] by blast
    obtain k where k: "k < length retrieved" "retrieved ! k = c0" using c0(1) by (auto simp: in_set_conv_nth)
    have c: "cs ! k \<in> set cs" "shortened c0 (cs ! k)" using sh k by (auto simp: list_all2_conv_all_nth)
    have ids: "mo_id m = i" "mo_id n = mc_memory_id c0"
      using inmem.get_scoped [OF assms(5), of ctx i m] inmem.get_scoped [OF assms(5), of ctx "mc_memory_id c0" n] m c0(2)
      by (simp_all add: inmem_def)
    have "stands_for blake n m"
      using c0(3,4) ids unfolding stands_for_def engine.covered_def hashing.embed_emb by auto
    moreover have "facts (mc_content (cs ! k)) \<subseteq> facts (mo_content n)" using c(2) c0(3) by (simp add: shortened_def)
    moreover have "pl_compressor P = None \<or> settled (pl_compress_target P) ?cnt (mo_content n) \<longrightarrow> mc_content (cs ! k) = mo_content n"
      using co short k c0(3) by (auto simp: compresses_def no_longer_def list_all2_conv_all_nth)
    moreover have "0 < injected \<and> (\<exists>msg \<in> set (rq_messages (mk_request m' msgs mt)). sublist (mc_content (cs ! k)) (cm_content msg))"
      using assemble_shows [OF ac(1) few assms(9) sum c(1)] ac(2,3) by (simp add: mk_request_def)
    moreover have "get_memory ctx (mo_id n) ?s = Some n" using c0(2) ids(2) by simp
    ultimately show "0 < injected \<and> (\<exists>n text. get_memory ctx (mo_id n) ?s = Some n \<and> stands_for blake n m \<and>
         facts text \<subseteq> facts (mo_content n) \<and> (pl_compressor P = None \<or> settled (pl_compress_target P) (pl_tokenizer P) (mo_content n) \<longrightarrow> text = mo_content n) \<and>
         (\<exists>msg \<in> set (rq_messages (mk_request m' msgs mt)). sublist text (cm_content msg)))"
      by (intro conjI exI [of _ n] exI [of _ "mc_content (cs ! k)"]) (elim conjE, assumption)+
  qed
qed

section \<open>Properties\<close>


text \<open>The pipeline of the other witnesses without its compressor.\<close>

definition fx_verbatim :: "(mem_store, cache_store, unit) pipeline" where
  "fx_verbatim = fx_pipeline\<lparr>pl_compressor := None\<rparr>"

lemma fx_verbatim_simps [simp]:
  "pl_assembler fx_verbatim = Some fx_embedder" "pl_memory fx_verbatim = Some (inmem, fx_embedder)"
  "pl_router fx_verbatim = None" "pl_compressor fx_verbatim = None" "pl_weights fx_verbatim = default_weights"
  "pl_cache fx_verbatim = Some fx_cache" "pl_policy fx_verbatim = None" "pl_tokenizer fx_verbatim = fx_count"
  "pl_adapter fx_verbatim = fake_adapter DEFAULT_REPLY" "pl_window_tokens fx_verbatim = 6000"
  by (simp_all add: fx_verbatim_def)

lemma fx_known_store: "ps_store fx_known = [(''acme'', [(''m1'', fx_memory ''acme'' ''user:1'' ''m1'' ''likes tea'')])]"
  by (simp add: fx_known_def add_memory_def empty_store_def tput_def part_def)

lemma fx_known_rows:
  "list_memories fx_alice SCAN_LIMIT (ps_store fx_known) = [fx_memory ''acme'' ''user:1'' ''m1'' ''likes tea'']"
  "get_memory fx_alice i (ps_store fx_known) = (if i = ''m1'' then Some (fx_memory ''acme'' ''user:1'' ''m1'' ''likes tea'') else None)"
  by (simp_all add: fx_known_store list_memories_def get_memory_def part_def SCAN_LIMIT_def)


end
