(* ===== verification/Examples.thy ===== *)
theory Examples
  imports Sdk Recall Tenancy
begin

text \<open>
  The two scripts of \<^verbatim>\<open>examples/\<close>, each a function from what it is run with (the platform, the
  settings, the fresh ids and clock readings of its calls) to what it prints, or to the exception or
  failed \<^verbatim>\<open>assert\<close> that ends it. They compose the whole program: the client library, a backend
  adapter, memory, retrieval, compression, assembly, cache, ledger, capture and replay.
\<close>

datatype script_error = Raised pyexn | AssertionError

type_synonym 'a script = "script_error + 'a"

definition attempt :: "'a result \<Rightarrow> ('a \<Rightarrow> 'b script) \<Rightarrow> 'b script" where
  "attempt m f = (case m of Inl e \<Rightarrow> Inl (Raised e) | Inr x \<Rightarrow> f x)"

text \<open>\<^verbatim>\<open>assert x is not None\<close>.\<close>

definition assert_some :: "'a option \<Rightarrow> ('a \<Rightarrow> 'b script) \<Rightarrow> 'b script" where
  "assert_some x f = (case x of None \<Rightarrow> Inl AssertionError | Some y \<Rightarrow> f y)"

lemma script_simps [simp]:
  "attempt (Inr x) f = f x" "assert_some (Some y) f = f y"
  by (simp_all add: attempt_def assert_some_def)

text \<open>The defaults of \<^verbatim>\<open>chat\<close> and \<^verbatim>\<open>remember\<close>.\<close>

definition chat_plainly ::
  "platform \<Rightarrow> readings \<Rightarrow> 'w client \<Rightarrow> string \<Rightarrow> 'w client_state \<Rightarrow> chat_result result \<times> 'w client_state" where
  "chat_plainly pf rg cl prompt cs = sdk_chat pf rg cl prompt None 512 None cs"

definition remember_plainly ::
  "'w client \<Rightarrow> string \<Rightarrow> string \<times> int \<times> int \<times> int \<Rightarrow> 'w client_state \<Rightarrow> string result \<times> 'w client_state" where
  "remember_plainly cl content m cs = remember cl content memory_tier.SEMANTIC (lit (1 / 2)) (fst m) (snd m) cs"

section \<open>quickstart.py\<close>

record quickstart_output =
  qo_reply :: string
  qo_trace_id :: string
  qo_prompt_equal :: bool
  qo_bundle_cid :: string
  qo_total_cost_usd :: flt
  qo_requests :: nat

definition HELM :: string where "HELM = ''Deploy with the vLLM Helm chart.''"
definition HELM_TEAM :: string where "HELM_TEAM = ''the team deploys with Helm on Kubernetes''"
definition BILLING :: string where "BILLING = ''billing currency is EUR''"
definition PROD_REGION :: string where "PROD_REGION = ''user's prod region is eu-west-1''"

definition quickstart ::
  "platform \<Rightarrow> 'w http_client \<Rightarrow> schema \<Rightarrow> (string \<Rightarrow> 64 word) \<Rightarrow> settings \<Rightarrow> string \<Rightarrow>
   string \<times> int \<times> int \<times> int \<Rightarrow> string \<times> int \<times> int \<times> int \<Rightarrow> readings \<Rightarrow> 'w \<Rightarrow> quickstart_output script" where
  "quickstart pf H S blake env rid m1 m2 rg w =
     attempt (new_client H S blake env (Some (fake_adapter HELM)) ''123'' ''acme'' None rid) (\<lambda>cl.
       let (i1, cs1) = remember_plainly cl PROD_REGION m1 (new_client_state w)
       in attempt i1 (\<lambda>_.
            let (i2, cs2) = remember_plainly cl HELM_TEAM m2 cs1
            in attempt i2 (\<lambda>_.
                 let (reply, cs3) = chat_plainly pf rg cl ''how should we deploy our LLM?'' cs2
                 in attempt reply (\<lambda>reply.
                      attempt (sdk_replay pf cl (res_trace_id reply) cs3) (\<lambda>rep.
                        assert_some rep (\<lambda>rep.
                          let cost = sdk_cost cl cs3
                          in Inr \<lparr>qo_reply = res_text reply, qo_trace_id = res_trace_id reply,
                               qo_prompt_equal = rr_prompt_equal rep, qo_bundle_cid = rr_bundle_cid rep,
                               qo_total_cost_usd = cs_total_cost_usd cost, qo_requests = cs_requests cost\<rparr>))))))"

section \<open>replay_demo.py\<close>

text \<open>The class \<^verbatim>\<open>EchoBackend\<close>: it answers with the prompt it was given.\<close>

definition echo_generate :: "chat_request \<Rightarrow> chat_response" where
  "echo_generate req = \<lparr>rs_text = join ''  '' (map cm_content (rq_messages req)), rs_model = rq_model req,
     rs_finish_reason = Some ''stop'', rs_usage = zero_usage\<rparr>"

definition echo_stream :: "stream_event list" where
  "echo_stream = [\<lparr>se_type = DONE, se_data = '''', se_finish_reason = Some ''stop''\<rparr>]"

definition echo_backend :: "'w adapter" where
  "echo_backend = \<lparr>ad_name = ''echo'', ad_capabilities = default_capabilities, ad_health_check = (\<lambda>w. (True, w)),
     ad_generate = (\<lambda>req w. (Inr (echo_generate req), w))\<rparr>"

record demo_output =
  do_received :: string
  do_prompt_equal :: bool
  do_output_equal :: "bool option"
  do_bundle_cid :: string
  do_prompt_changed :: bool
  do_candidates_added :: "string list"
  do_candidates_removed :: "string list"

definition replay_demo ::
  "platform \<Rightarrow> 'w http_client \<Rightarrow> schema \<Rightarrow> (string \<Rightarrow> 64 word) \<Rightarrow> settings \<Rightarrow> string \<Rightarrow>
   string \<times> int \<times> int \<times> int \<Rightarrow> string \<times> int \<times> int \<times> int \<Rightarrow> readings \<Rightarrow> readings \<Rightarrow> 'w \<Rightarrow> demo_output script" where
  "replay_demo pf H S blake env rid m1 m2 rg1 rg2 w =
     attempt (new_client H S blake env (Some echo_backend) ''u'' ''acme'' None rid) (\<lambda>cl.
       let (i1, cs1) = remember_plainly cl PROD_REGION m1 (new_client_state w)
       in attempt i1 (\<lambda>_.
            let (i2, cs2) = remember_plainly cl BILLING m2 cs1
            in attempt i2 (\<lambda>_.
                 let (r1, cs3) = chat_plainly pf rg1 cl ''which region is prod deployed in?'' cs2
                 in attempt r1 (\<lambda>r1.
                      attempt (sdk_replay pf cl (res_trace_id r1) cs3) (\<lambda>rep.
                        assert_some rep (\<lambda>rep.
                          let (r2, cs4) = chat_plainly pf rg2 cl ''what currency do we bill in?'' cs3
                          in attempt r2 (\<lambda>r2.
                               assert_some (sdk_diff cl (res_trace_id r1) (res_trace_id r2) cs4) (\<lambda>diff.
                                 Inr \<lparr>do_received = res_text r1, do_prompt_equal = rr_prompt_equal rep,
                                   do_output_equal = rr_output_equal rep, do_bundle_cid = rr_bundle_cid rep,
                                   do_prompt_changed = df_prompt_changed diff,
                                   do_candidates_added = df_candidates_added diff,
                                   do_candidates_removed = df_candidates_removed diff\<rparr>))))))))"

section \<open>The client after its two memories\<close>

definition noted :: "'w client \<Rightarrow> string \<Rightarrow> string \<times> int \<times> int \<times> int \<Rightarrow> memory_object" where
  "noted cl content m = new_memory (cl_ctx cl) content memory_tier.SEMANTIC (lit (1 / 2)) ''chat'' None None (fst m) (snd m)"

lemma noted_simps [simp]:
  "mo_id (noted cl c m) = fst m" "mo_importance (noted cl c m) = lit (1 / 2)" "mo_content (noted cl c m) = c"
  "mo_namespace (noted cl c m) = ctx_namespace (cl_ctx cl)" "mo_tenant_id (noted cl c m) = ctx_tenant_id (cl_ctx cl)"
  by (simp_all add: noted_def) (simp_all add: new_memory_def split: prod.split)

lemma half_range: "0 \<le> lit (1 / 2)" "lit (1 / 2) \<le> 1"
  by code_simp+

lemma remember_state:
  assumes "fst (cl_memory cl) = inmem"
  shows "remember_plainly cl content m cs = (Inr (fst m), cs\<lparr>as_pipe := (as_pipe cs)\<lparr>ps_store :=
    tput (ctx_tenant_id (cl_ctx cl)) (fst m) (noted cl content m) (ps_store (as_pipe cs))\<rparr>\<rparr>)"
proof -
  have "validate_memory (noted cl content m) = Inr (noted cl content m)" using half_range by (simp add: validate_memory_def)
  then show ?thesis
    using assms by (simp add: remember_plainly_def remember_def mem_write_def inmem_def add_memory_def flip: noted_def)
qed

definition taught :: "'w client \<Rightarrow> string \<Rightarrow> string \<Rightarrow> string \<times> int \<times> int \<times> int \<Rightarrow> string \<times> int \<times> int \<times> int \<Rightarrow> mem_store" where
  "taught cl c1 c2 m1 m2 = tput (ctx_tenant_id (cl_ctx cl)) (fst m2) (noted cl c2 m2)
     (tput (ctx_tenant_id (cl_ctx cl)) (fst m1) (noted cl c1 m1) empty_store)"

lemma taught_inv: "store_inv (taught cl c1 c2 m1 m2)"
proof -
  have "store_inv (tput (ctx_tenant_id (cl_ctx cl)) (mo_id (noted cl c1 m1)) (noted cl c1 m1) empty_store)"
    by (intro store_inv_tput store_inv_empty) simp
  then show ?thesis
    unfolding taught_def using store_inv_tput [of _ "noted cl c2 m2" "ctx_tenant_id (cl_ctx cl)"] by simp
qed

lemma taught_rows:
  "list_memories (cl_ctx cl) SCAN_LIMIT (taught cl c1 c2 m1 m2) =
     (if fst m1 = fst m2 then [noted cl c2 m2] else [noted cl c1 m1, noted cl c2 m2])"
  by (simp add: taught_def list_memories_def empty_store_def SCAN_LIMIT_def)

lemma taught_get:
  "get_memory (cl_ctx cl) i (taught cl c1 c2 m1 m2) =
     (if i = fst m2 then Some (noted cl c2 m2) else if i = fst m1 then Some (noted cl c1 m1) else None)"
  by (simp add: taught_def get_memory_def empty_store_def)

section \<open>A chat that the cache cannot answer\<close>

lemma looked_up_empty:
  "ps_cache st = [] \<Longrightarrow> looked_up pf rg (build_pipeline gs a blake) ctx prompt model system st = None"
  by (simp add: pipe_lookup_def) (simp add: build_cache_def lookup_empty [unfolded DEFAULT_DIM_def])

lemma bundles_kept:
  assumes "run pf rg P ctx prompt model mt system st = (Inr r, st')"
    and "looked_up pf rg P ctx prompt model system st = None" and "bundle_get ctx i (ps_bundles st) \<noteq> None"
  shows "bundle_get ctx i (ps_bundles st') \<noteq> None"
proof -
  obtain cs msgs injected bundles resp where
    a: "assembles pf rg P ctx prompt (chosen_model P model) mt system cs (ps_bundles st) msgs injected bundles"
    and b: "ps_bundles st' = written_bundles rg P ctx resp bundles"
    by (rule run_miss_answeredE [OF assms(1,2)])
  have "bundles = ps_bundles st \<or> (\<exists>b. bundles = bundle_put ctx b (ps_bundles st))"
    using a by (auto simp: assembles_def split: option.splits if_splits dest!: capture_put)
  then have "bundle_get ctx i bundles \<noteq> None" using assms(3) by (auto simp: bundle_get_def bundle_put_def)
  then show ?thesis
    by (auto simp: b written_bundles_def bundle_attach_def bundle_get_def split: option.splits)
qed

text \<open>A client whose backend is a function \<open>g\<close> of the request.\<close>

definition wired :: "settings \<Rightarrow> (string \<Rightarrow> 64 word) \<Rightarrow> (chat_request \<Rightarrow> chat_response) \<Rightarrow> 'w client \<Rightarrow> bool" where
  "wired gs blake g cl = (\<exists>a. cl_pipeline cl = build_pipeline gs a blake \<and> (\<forall>rq w. ad_generate a rq w = (Inr (g rq), w)) \<and>
     cl_replay cl = (hashing_provider blake DEFAULT_DIM, default_count) \<and> fst (cl_memory cl) = inmem \<and>
     (\<forall>rq. rs_finish_reason (g rq) \<noteq> None))"

lemma chat_uncached:
  assumes cl: "wired gs blake g cl" and pow: "\<And>x. 0 \<le> pow_half (pf_libm pf) x"
    and s: "ps_store (as_pipe cs) = taught cl c1 c2 m1 m2" "ps_cache (as_pipe cs) = []" "ps_backends (as_pipe cs) = []"
    and short: "default_count c1 \<le> 20" "default_count c2 \<le> 20" "default_count prompt \<le> 20" "600 \<le> gs_default_token_budget gs"
  obtains r st rr rq model where "chat_plainly pf rg cl prompt cs = (Inr r, cs\<lparr>as_pipe := st\<rparr>)"
    and "sdk_replay pf cl (res_trace_id r) (cs\<lparr>as_pipe := st\<rparr>) = Inr (Some rr)" and "rr_prompt_equal rr"
    and "rr_output_equal rr = Some True" and "res_trace_id r = rg_trace_id rg" and "res_text r = rs_text (g rq)"
    and "ps_store st = ps_store (as_pipe cs)" and "ps_cache st = []" and "ps_backends st = []"
    and "\<exists>u. ps_ledger st = snd (ledger_record (cl_ctx cl) model u (ps_ledger (as_pipe cs)))"
    and "\<forall>i. bundle_get (cl_ctx cl) i (ps_bundles (as_pipe cs)) \<noteq> None \<longrightarrow> bundle_get (cl_ctx cl) i (ps_bundles st) \<noteq> None"
    and "bundle_get (cl_ctx cl) (rg_trace_id rg) (ps_bundles st) \<noteq> None"
    and "\<exists>n text. n \<in> {noted cl c1 m1, noted cl c2 m2} \<and> (settled 256 default_count (mo_content n) \<longrightarrow> text = mo_content n) \<and>
      (\<exists>msg \<in> set (rq_messages rq). sublist text (cm_content msg))"
proof -
  let ?P = "cl_pipeline cl" and ?ctx = "cl_ctx cl" and ?st = "as_pipe cs"
  obtain a where P: "?P = build_pipeline gs a blake" and gen: "\<And>rq w. ad_generate a rq w = (Inr (g rq), w)"
    and rep: "cl_replay cl = (hashing_provider blake DEFAULT_DIM, default_count)" and fin: "\<And>rq. rs_finish_reason (g rq) \<noteq> None"
    using cl by (auto simp: wired_def)
  have inv: "store_inv (ps_store ?st)" by (simp add: s(1) taught_inv)
  have fits: "hard_floor (pipe_budget ?P prompt 512 None) \<le> gs_default_token_budget gs"
    "40 \<le> soft_budget (pipe_budget ?P prompt 512 None)"
    using short(3,4) by (simp_all add: P pipe_budget_def hard_floor_def soft_budget_def or_else_def)
  have miss: "looked_up pf rg ?P ?ctx prompt None None ?st = None" unfolding P by (rule looked_up_empty [OF s(2)])
  have "\<exists>r st'. run pf rg ?P ?ctx prompt None 512 None ?st = (Inr r, st')"
    by (rule run_succeeds) (use gen wired_admits wired_retrieves [OF inv] wired_assembles fits(1) in \<open>simp_all add: P\<close>)
  then obtain r st where r: "run pf rg ?P ?ctx prompt None 512 None ?st = (Inr r, st)" by blast
  have adapters: "adapters_of ?P (ps_backends ?st) = {a}" by (simp add: P adapters_of_def s(3) registry_all_def)
  have rows: "length (list_memories ?ctx SCAN_LIMIT (ps_store ?st)) < RETRIEVE_K"
    "\<forall>m \<in> set (list_memories ?ctx SCAN_LIMIT (ps_store ?st)). 0 \<le> mo_importance m"
    "sum_list (map (\<lambda>m. pl_tokenizer ?P (mo_content m)) (list_memories ?ctx SCAN_LIMIT (ps_store ?st))) \<le>
      soft_budget (pipe_budget ?P prompt 512 None)"
    using half_range fits(2) short(1,2) by (simp_all add: P s(1) taught_rows RETRIEVE_K_def)
  have parts: "pl_assembler ?P = Some (hashing_provider blake DEFAULT_DIM)"
    "pl_memory ?P = Some (inmem, hashing_provider blake DEFAULT_DIM)" "0 \<le> pl_tokenizer ?P t" for t
    by (simp_all add: P default_count_nonneg)
  obtain a' rq w resp w' injected model' where g: "a' \<in> adapters_of ?P (ps_backends ?st)"
    "ad_generate a' rq w = (Inr resp, w')" "res_text r = rs_text resp"
    and ch: "ps_cache st = written_cache pf rg ?P ?ctx prompt None injected resp model' (ps_cache ?st)"
    and seen: "\<And>i m. get_memory ?ctx i (ps_store ?st) = Some m \<Longrightarrow> 0 < injected \<and>
      (\<exists>n text. get_memory ?ctx (mo_id n) (ps_store ?st) = Some n \<and> stands_for blake n m \<and>
         facts text \<subseteq> facts (mo_content n) \<and>
         (pl_compressor ?P = None \<or> settled (pl_compress_target ?P) (pl_tokenizer ?P) (mo_content n) \<longrightarrow> text = mo_content n) \<and>
         (\<exists>msg \<in> set (rq_messages rq). sublist text (cm_content msg)))"
    by (rule answered_recalls [OF r miss parts(1,2) inv rows parts(3) pow]) (rule that)
  have "rs_text resp = rs_text (g rq)" using g(1,2) by (simp add: adapters gen)
  have some: "get_memory ?ctx (fst m2) (ps_store ?st) = Some (noted cl c2 m2)" by (simp add: s(1) taught_get)
  have "ps_cache st = []"
    using seen [OF some] s(2) by (simp add: ch written_cache_def writeback_op_def store_def split: option.split)
  obtain decision msgs mt' resp2 model2 reg2 w2 w3 where
    i: "invokes rg ?P decision mt' msgs 512 (ps_backends ?st) w2 resp2 model2 reg2 w3"
    and lg: "ps_ledger st = written_ledger ?P ?ctx resp2 model2 (ps_ledger ?st)" and tid: "res_trace_id r = rg_trace_id rg"
    by (rule run_miss_answeredE [OF r miss])
  have "rs_finish_reason resp2 \<noteq> None"
    using invokes_adapter [OF i] fin unfolding adapters by (auto simp: gen)
  then have ledger: "\<exists>u. ps_ledger st = snd (ledger_record ?ctx model2 u (ps_ledger ?st))"
    using lg by (auto simp: written_ledger_def P)
  obtain rr where rr: "replay (pf_sha pf) (hashing_provider blake DEFAULT_DIM) (pl_tokenizer ?P) ?ctx (rg_trace_id rg)
      RECORDED_OUTPUT (ps_bundles st) = Inr (Some rr)" "rr_prompt_equal rr" "rr_output_equal rr = Some True"
    using answered_replays [OF r miss] by (auto simp: P)
  have "ps_store st = ps_store ?st"
    using run_others [of ?P ?ctx rg ?st pf prompt None 512 None] r by (simp add: P others_unchanged_def)
  moreover have "ps_backends st = []"
    using run_unrouted [of ?st pf rg ?P ?ctx prompt None 512 None] s(3) r by (simp add: unrouted_def)
  moreover have "bundle_get ?ctx (rg_trace_id rg) (ps_bundles st) \<noteq> None"
    using rr(1) by (cases "bundle_get ?ctx (rg_trace_id rg) (ps_bundles st)") (simp_all add: replay_def)
  moreover have "\<exists>n text. n \<in> {noted cl c1 m1, noted cl c2 m2} \<and> (settled 256 default_count (mo_content n) \<longrightarrow> text = mo_content n) \<and>
      (\<exists>msg \<in> set (rq_messages rq). sublist text (cm_content msg))"
  proof -
    have "pl_compress_target ?P = 256" by (simp add: P build_pipeline_def default_pipeline_def)
    then show ?thesis
      using seen [OF some] by (auto simp: P s(1) taught_get split: if_splits)
  qed
  ultimately show thesis
    using that [of r st rr rq model2] r rr tid g(3) \<open>rs_text resp = rs_text (g rq)\<close> \<open>ps_cache st = []\<close> ledger
      bundles_kept [OF r miss]
    by (simp add: chat_plainly_def sdk_chat_def sdk_replay_def rep P)
qed

section \<open>The scripts\<close>

lemma remember_twice:
  assumes "wired gs blake g cl"
  obtains cs1 cs2 where "remember_plainly cl c1 m1 (new_client_state w) = (Inr (fst m1), cs1)"
    and "remember_plainly cl c2 m2 cs1 = (Inr (fst m2), cs2)"
    and "ps_store (as_pipe cs2) = taught cl c1 c2 m1 m2" and "ps_cache (as_pipe cs2) = []"
    and "ps_backends (as_pipe cs2) = []" and "ps_ledger (as_pipe cs2) = build_cost_ledger"
proof -
  have mem: "fst (cl_memory cl) = inmem" using assms by (auto simp: wired_def)
  have pipe: "as_pipe (new_client_state w) = as_pipe (new_app w)"
    by (simp add: new_client_state_def app_state.extend_def)
  show thesis
    by (rule that [OF remember_state [OF mem] remember_state [OF mem]])
      (simp_all add: pipe new_app_def taught_def)
qed

lemma client_wired:
  assumes "user \<noteq> []" and "\<And>rq w. ad_generate a rq w = (Inr (g rq), w)" and "\<And>rq. rs_finish_reason (g rq) \<noteq> None"
  obtains cl where "new_client H S blake env (Some a) user ''acme'' None rid = Inr cl" and "wired env blake g cl"
proof -
  obtain ctx where "resolve (Some ''acme'') (Some user) None None rid = Inr ctx" using assms(1) by (simp add: resolve_def)
  then show thesis
    by (intro that) (simp add: new_client_def Let_def, unfold wired_def, intro exI [of _ a],
      use assms(2,3) in \<open>simp add: build_memory_engine_def build_replay_def build_assembler_def DEFAULT_DIM_def\<close>)
qed

lemma facts_short: "default_count PROD_REGION \<le> 20" "default_count HELM_TEAM \<le> 20" "default_count BILLING \<le> 20"
  "default_count ''how should we deploy our LLM?'' \<le> 20" "default_count ''which region is prod deployed in?'' \<le> 20"
  "default_count ''what currency do we bill in?'' \<le> 20"
  by code_simp+

lemma facts_settled: "settled 256 default_count PROD_REGION" "settled 256 default_count BILLING"
  by code_simp+

lemma quickstart_completes:
  assumes "600 \<le> gs_default_token_budget env" and "\<And>x. 0 \<le> pow_half (pf_libm pf) x"
  shows "\<exists>out. quickstart pf H S blake env rid m1 m2 rg w = Inr out \<and> qo_reply out = HELM \<and>
    qo_trace_id out = rg_trace_id rg \<and> qo_prompt_equal out \<and> qo_requests out = 1"
proof -
  obtain cl where cl: "new_client H S blake env (Some (fake_adapter HELM)) ''123'' ''acme'' None rid = Inr cl"
    "wired env blake (fake_generate HELM) cl"
    by (rule client_wired [where user = "''123''" and a = "fake_adapter HELM" and g = "fake_generate HELM"])
      (simp_all add: fake_adapter_def fake_generate_def Let_def)
  obtain cs1 cs2 where two: "remember_plainly cl PROD_REGION m1 (new_client_state w) = (Inr (fst m1), cs1)"
    "remember_plainly cl HELM_TEAM m2 cs1 = (Inr (fst m2), cs2)"
    and s: "ps_store (as_pipe cs2) = taught cl PROD_REGION HELM_TEAM m1 m2" "ps_cache (as_pipe cs2) = []"
      "ps_backends (as_pipe cs2) = []"
    and lg: "ps_ledger (as_pipe cs2) = build_cost_ledger"
    by (rule remember_twice [OF cl(2)])
  obtain r st rr rq model where chat: "chat_plainly pf rg cl ''how should we deploy our LLM?'' cs2 = (Inr r, cs2\<lparr>as_pipe := st\<rparr>)"
    and rr: "sdk_replay pf cl (res_trace_id r) (cs2\<lparr>as_pipe := st\<rparr>) = Inr (Some rr)" "rr_prompt_equal rr"
    and tid: "res_trace_id r = rg_trace_id rg" and t: "res_text r = rs_text (fake_generate HELM rq)"
    and l: "\<exists>u. ps_ledger st = snd (ledger_record (cl_ctx cl) model u (ps_ledger (as_pipe cs2)))"
    by (rule chat_uncached [OF cl(2) assms(2) s facts_short(1,2,4) assms(1)])
  have "cs_requests (sdk_cost cl (cs2\<lparr>as_pipe := st\<rparr>)) = 1"
    using l by (auto simp: sdk_cost_def ledger_summary_def ledger_record_def tenant_records_def lg
        build_cost_ledger_def new_ledger_def Let_def)
  moreover have "res_text r = HELM" by (simp add: t fake_generate_def Let_def)
  ultimately show ?thesis
    using rr tid by (simp add: quickstart_def cl(1) two chat)
qed

lemma demo_completes:
  assumes "600 \<le> gs_default_token_budget env" and "\<And>x. 0 \<le> pow_half (pf_libm pf) x"
  shows "\<exists>out. replay_demo pf H S blake env rid m1 m2 rg1 rg2 w = Inr out \<and> do_prompt_equal out \<and>
    do_output_equal out = Some True \<and> (sublist PROD_REGION (do_received out) \<or> sublist BILLING (do_received out))"
proof -
  obtain cl where cl: "new_client H S blake env (Some echo_backend) ''u'' ''acme'' None rid = Inr cl"
    "wired env blake echo_generate cl"
    by (rule client_wired [where user = "''u''" and a = echo_backend and g = echo_generate])
      (simp_all add: echo_backend_def echo_generate_def)
  obtain cs1 cs2 where two: "remember_plainly cl PROD_REGION m1 (new_client_state w) = (Inr (fst m1), cs1)"
    "remember_plainly cl BILLING m2 cs1 = (Inr (fst m2), cs2)"
    and s: "ps_store (as_pipe cs2) = taught cl PROD_REGION BILLING m1 m2" "ps_cache (as_pipe cs2) = []"
      "ps_backends (as_pipe cs2) = []"
    by (rule remember_twice [OF cl(2)])
  obtain r st rr rq where chat: "chat_plainly pf rg1 cl ''which region is prod deployed in?'' cs2 = (Inr r, cs2\<lparr>as_pipe := st\<rparr>)"
    and rr: "sdk_replay pf cl (res_trace_id r) (cs2\<lparr>as_pipe := st\<rparr>) = Inr (Some rr)" "rr_prompt_equal rr"
      "rr_output_equal rr = Some True"
    and tid: "res_trace_id r = rg_trace_id rg1" and t: "res_text r = rs_text (echo_generate rq)"
    and st: "ps_store st = ps_store (as_pipe cs2)" "ps_cache st = []" "ps_backends st = []"
    and b: "bundle_get (cl_ctx cl) (rg_trace_id rg1) (ps_bundles st) \<noteq> None"
    and seen: "\<exists>n text. n \<in> {noted cl PROD_REGION m1, noted cl BILLING m2} \<and>
      (settled 256 default_count (mo_content n) \<longrightarrow> text = mo_content n) \<and> (\<exists>msg \<in> set (rq_messages rq). sublist text (cm_content msg))"
    by (rule chat_uncached [OF cl(2) assms(2) s facts_short(1,3,5) assms(1)])
  let ?cs3 = "cs2\<lparr>as_pipe := st\<rparr>"
  have s3: "ps_store (as_pipe ?cs3) = taught cl PROD_REGION BILLING m1 m2" "ps_cache (as_pipe ?cs3) = []"
    "ps_backends (as_pipe ?cs3) = []"
    using st s(1) by simp_all
  obtain r2 st2 where chat2: "chat_plainly pf rg2 cl ''what currency do we bill in?'' ?cs3 = (Inr r2, ?cs3\<lparr>as_pipe := st2\<rparr>)"
    and tid2: "res_trace_id r2 = rg_trace_id rg2"
    and kept: "\<forall>i. bundle_get (cl_ctx cl) i (ps_bundles (as_pipe ?cs3)) \<noteq> None \<longrightarrow> bundle_get (cl_ctx cl) i (ps_bundles st2) \<noteq> None"
    and b2: "bundle_get (cl_ctx cl) (rg_trace_id rg2) (ps_bundles st2) \<noteq> None"
    by (rule chat_uncached [where rg = rg2, OF cl(2) assms(2) s3 facts_short(1,3,6) assms(1)])
  have "bundle_get (cl_ctx cl) (rg_trace_id rg1) (ps_bundles st2) \<noteq> None" using kept b by simp
  then obtain d where d: "sdk_diff cl (res_trace_id r) (res_trace_id r2) (?cs3\<lparr>as_pipe := st2\<rparr>) = Some d"
    using b2 by (simp add: sdk_diff_def tid tid2)
  obtain msg where msg: "msg \<in> set (rq_messages rq)" "sublist PROD_REGION (cm_content msg) \<or> sublist BILLING (cm_content msg)"
    using seen facts_settled by auto
  have "sublist (cm_content msg) (res_text r)"
    using msg(1) by (auto simp: t echo_generate_def intro: sublist_join)
  then have "sublist PROD_REGION (res_text r) \<or> sublist BILLING (res_text r)"
    using msg(2) sublist_order.order_trans by blast
  then show ?thesis
    using rr d by (simp add: replay_demo_def cl(1) two chat chat2)
qed

section \<open>Properties\<close>



end
