(* ===== verification/Postgres.thy ===== *)
theory Postgres
  imports Store Fixtures
begin

text \<open>
  \<^verbatim>\<open>store/postgres.py\<close> against the schema of \<^verbatim>\<open>deploy/migrations/0001_init_rls.sql\<close>. The server is
  the table \<open>memories\<close> under its row-level security policy, the pool is the number of connections
  out; the three statements the store issues are given their SQL meaning on that table. What the
  server may do besides is the record \<open>pg_server\<close>: which statements it fails, how it orders rows,
  what a \<^verbatim>\<open>REAL\<close> and a \<^verbatim>\<open>JSONB\<close> column keep of a value.
\<close>

section \<open>The server\<close>

record memory_row =
  mr_id :: string
  mr_tenant_id :: string
  mr_namespace :: string
  mr_tier :: string
  mr_content :: string
  mr_importance :: flt
  mr_created_at :: int
  mr_last_accessed_at :: int
  mr_provenance :: provenance
  mr_metadata :: "(string, string) dict"

text \<open>The statements, to say which of them the server fails.\<close>

datatype statement = SetTenant string | SetNamespace string | InsertMemory memory_row | SelectMemories nat
  | SelectMemory string | SelectOne | Commit

record pg_server =
  sv_fault :: "statement \<Rightarrow> pyexn option"
  sv_order :: "memory_row list \<Rightarrow> memory_row list"
  sv_real :: "flt \<Rightarrow> flt"
  sv_jsonb :: "(string, string) dict \<Rightarrow> (string, string) dict"

record pg_state =
  pg_connected :: bool
  pg_rows :: "memory_row list"
  pg_leased :: nat

definition POOL_MAX :: nat where "POOL_MAX = 10"

text \<open>The settings bound for the transaction, \<^verbatim>\<open>app.tenant_id\<close> and \<^verbatim>\<open>app.namespace\<close>.\<close>

record pg_session =
  ss_tenant :: string
  ss_namespace :: string

text \<open>The policy \<^verbatim>\<open>memories_tenant_isolation\<close>, for reading (\<^verbatim>\<open>USING\<close>) and writing (\<^verbatim>\<open>WITH CHECK\<close>).\<close>

definition rls_visible :: "pg_session \<Rightarrow> memory_row \<Rightarrow> bool" where
  "rls_visible ss r = (mr_tenant_id r = ss_tenant ss)"

definition sql_insert :: "pg_session \<Rightarrow> memory_row \<Rightarrow> memory_row list \<Rightarrow> memory_row list result" where
  "sql_insert ss r rows =
     (if \<not> rls_visible ss r
      then Inl (DatabaseError ''new row violates row-level security policy'')
      else if list_ex (\<lambda>r'. mr_id r' = mr_id r) rows
      then Inl (DatabaseError ''duplicate key value violates unique constraint'')
      else Inr (rows @ [r]))"

definition sql_list :: "pg_server \<Rightarrow> pg_session \<Rightarrow> nat \<Rightarrow> memory_row list \<Rightarrow> memory_row list" where
  "sql_list sv ss limit rows = take limit (sv_order sv (filter (rls_visible ss) rows))"

definition sql_get :: "pg_session \<Rightarrow> string \<Rightarrow> memory_row list \<Rightarrow> memory_row option" where
  "sql_get ss i rows = find (\<lambda>r. mr_id r = i) (filter (rls_visible ss) rows)"

section \<open>PostgresStore\<close>

definition pg_release :: "pg_state \<Rightarrow> pg_state" where
  "pg_release st = st\<lparr>pg_leased := pg_leased st - 1\<rparr>"

definition pg_connect :: "pg_state \<Rightarrow> pg_state" where
  "pg_connect st = st\<lparr>pg_connected := True, pg_leased := 0\<rparr>"

text \<open>\<^verbatim>\<open>tx.rollback()\<close> in an \<^verbatim>\<open>except\<close> clause raises when the transaction has ended, and hides the
  exception being handled.\<close>

definition LATE_ROLLBACK :: pyexn where
  "LATE_ROLLBACK = DatabaseError ''cannot rollback; the transaction has ended''"

text \<open>An operation on an exhausted pool waits for a connection: \<open>None\<close>.\<close>

definition scoped_conn ::
  "pg_server \<Rightarrow> security_context \<Rightarrow> pg_state \<Rightarrow> (pg_session result \<times> pg_state) option" where
  "scoped_conn sv ctx st =
     (if \<not> pg_connected st then Some (Inl (RuntimeError ''call connect() first''), st)
      else if POOL_MAX \<le> pg_leased st then None
      else
        let st' = st\<lparr>pg_leased := Suc (pg_leased st)\<rparr>
        in case sv_fault sv (SetTenant (ctx_tenant_id ctx)) of
             Some e \<Rightarrow> Some (Inl e, st')
           | None \<Rightarrow>
               (case sv_fault sv (SetNamespace (ctx_namespace ctx)) of
                  Some e \<Rightarrow> Some (Inl e, st')
                | None \<Rightarrow> Some (Inr \<lparr>ss_tenant = ctx_tenant_id ctx, ss_namespace = ctx_namespace ctx\<rparr>, st')))"

definition memory_row_of :: "pg_server \<Rightarrow> memory_object \<Rightarrow> memory_row" where
  "memory_row_of sv m = \<lparr>mr_id = mo_id m, mr_tenant_id = mo_tenant_id m, mr_namespace = mo_namespace m,
     mr_tier = tier_value (mo_tier m), mr_content = mo_content m, mr_importance = sv_real sv (mo_importance m),
     mr_created_at = mo_created_at m, mr_last_accessed_at = mo_last_accessed_at m,
     mr_provenance = mo_provenance m, mr_metadata = sv_jsonb sv (mo_metadata m)\<rparr>"

definition pg_add_memory ::
  "pg_server \<Rightarrow> security_context \<Rightarrow> memory_object \<Rightarrow> pg_state \<Rightarrow> (memory_object result \<times> pg_state) option" where
  "pg_add_memory sv ctx memory st =
     (case scoped_conn sv ctx st of
        None \<Rightarrow> None
      | Some (Inl e, st') \<Rightarrow> Some (Inl e, st')
      | Some (Inr ss, st') \<Rightarrow>
          let row = memory_row_of sv memory
          in Some (case sv_fault sv (InsertMemory row) of
               Some e \<Rightarrow> (Inl e, pg_release st')
             | None \<Rightarrow>
                 (case sql_insert ss row (pg_rows st') of
                    Inl e \<Rightarrow> (Inl e, pg_release st')
                  | Inr rows \<Rightarrow>
                      (case sv_fault sv Commit of
                         Some e \<Rightarrow> (Inl LATE_ROLLBACK, pg_release st')
                       | None \<Rightarrow> (Inr memory, pg_release (st'\<lparr>pg_rows := rows\<rparr>))))))"

text \<open>\<^verbatim>\<open>MemoryTier(value)\<close>.\<close>

definition tier_of_value :: "string \<Rightarrow> memory_tier result" where
  "tier_of_value v =
     (case find (\<lambda>t. tier_value t = v) [WORKING, SHORT_TERM, LONG_TERM, EPISODIC, memory_tier.SEMANTIC] of
        None \<Rightarrow> Inl (ValueError ''MemoryTier'') | Some t \<Rightarrow> Inr t)"

text \<open>The schema has no column \<^verbatim>\<open>embedding_ref\<close>, so \<^verbatim>\<open>row.get\<close> of it is \<^verbatim>\<open>None\<close>.\<close>

definition row_to_memory :: "memory_row \<Rightarrow> memory_object result" where
  "row_to_memory r =
     bnd (tier_of_value (mr_tier r)) (\<lambda>tier.
       validate_memory \<lparr>mo_id = mr_id r, mo_tenant_id = mr_tenant_id r, mo_namespace = mr_namespace r,
         mo_tier = tier, mo_content = mr_content r, mo_embedding_ref = None,
         mo_importance = mr_importance r, mo_created_at = mr_created_at r,
         mo_last_accessed_at = mr_last_accessed_at r, mo_provenance = mr_provenance r,
         mo_metadata = mr_metadata r\<rparr>)"

definition pg_list_memories ::
  "pg_server \<Rightarrow> security_context \<Rightarrow> nat \<Rightarrow> pg_state \<Rightarrow> (memory_object list result \<times> pg_state) option" where
  "pg_list_memories sv ctx limit st =
     (case scoped_conn sv ctx st of
        None \<Rightarrow> None
      | Some (Inl e, st') \<Rightarrow> Some (Inl e, st')
      | Some (Inr ss, st') \<Rightarrow>
          Some (case sv_fault sv (SelectMemories limit) of
              Some e \<Rightarrow> (Inl e, pg_release st')
            | None \<Rightarrow>
                (case sv_fault sv Commit of
                   Some e \<Rightarrow> (Inl LATE_ROLLBACK, pg_release st')
                 | None \<Rightarrow> (case map_result row_to_memory (sql_list sv ss limit (pg_rows st')) of
                     Inl e \<Rightarrow> Inl LATE_ROLLBACK | Inr ms \<Rightarrow> Inr ms, pg_release st'))))"

definition pg_get_memory ::
  "pg_server \<Rightarrow> security_context \<Rightarrow> string \<Rightarrow> pg_state \<Rightarrow> (memory_object option result \<times> pg_state) option" where
  "pg_get_memory sv ctx memory_id st =
     (case scoped_conn sv ctx st of
        None \<Rightarrow> None
      | Some (Inl e, st') \<Rightarrow> Some (Inl e, st')
      | Some (Inr ss, st') \<Rightarrow>
          Some (case sv_fault sv (SelectMemory memory_id) of
              Some e \<Rightarrow> (Inl e, pg_release st')
            | None \<Rightarrow>
                (case sv_fault sv Commit of
                   Some e \<Rightarrow> (Inl e, pg_release st')
                 | None \<Rightarrow>
                     ((case sql_get ss memory_id (pg_rows st') of
                         None \<Rightarrow> Inr None | Some r \<Rightarrow> bnd (row_to_memory r) (\<lambda>m. Inr (Some m))),
                      pg_release st'))))"

definition pg_health_check :: "pg_server \<Rightarrow> pg_state \<Rightarrow> (bool result \<times> pg_state) option" where
  "pg_health_check sv st =
     (if \<not> pg_connected st then Some (Inr False, st)
      else if POOL_MAX \<le> pg_leased st then None
      else Some (case sv_fault sv SelectOne of Some e \<Rightarrow> Inl e | None \<Rightarrow> Inr True, st))"

section \<open>Laws\<close>

lemma release_lease [simp]: "pg_release (st\<lparr>pg_leased := Suc n\<rparr>) = st\<lparr>pg_leased := n\<rparr>"
  by (simp add: pg_release_def)

lemma tier_of_value_value [simp]: "tier_of_value (tier_value t) = Inr t"
  by (cases t) (simp_all add: tier_of_value_def)

lemma row_to_memory_of:
  "row_to_memory (memory_row_of sv m) = validate_memory
     (m\<lparr>mo_embedding_ref := None, mo_importance := sv_real sv (mo_importance m), mo_metadata := sv_jsonb sv (mo_metadata m)\<rparr>)"
  by (cases m) (simp add: row_to_memory_def memory_row_of_def)

text \<open>A server that fails no statement, and a pool with a connection to spare.\<close>

definition pg_ready :: "pg_server \<Rightarrow> pg_state \<Rightarrow> bool" where
  "pg_ready sv st = ((\<forall>q. sv_fault sv q = None) \<and> pg_connected st \<and> pg_leased st < POOL_MAX)"

lemma scoped_conn_ready:
  "pg_ready sv st \<Longrightarrow> scoped_conn sv ctx st =
     Some (Inr \<lparr>ss_tenant = ctx_tenant_id ctx, ss_namespace = ctx_namespace ctx\<rparr>, st\<lparr>pg_leased := Suc (pg_leased st)\<rparr>)"
  by (simp add: pg_ready_def scoped_conn_def Let_def)

lemma faultless: "pg_ready sv st \<Longrightarrow> sv_fault sv q = None"
  by (simp add: pg_ready_def)

lemma pg_add_ready:
  assumes "pg_ready sv st" and "mo_tenant_id m = ctx_tenant_id ctx" and "\<not> list_ex (\<lambda>r. mr_id r = mo_id m) (pg_rows st)"
  shows "pg_add_memory sv ctx m st = Some (Inr m, st\<lparr>pg_rows := pg_rows st @ [memory_row_of sv m]\<rparr>)"
proof -
  have "mr_id (memory_row_of sv m) = mo_id m" "mr_tenant_id (memory_row_of sv m) = mo_tenant_id m"
    by (simp_all add: memory_row_of_def)
  then show ?thesis
    using assms(2,3) by (simp add: pg_add_memory_def scoped_conn_ready [OF assms(1)] faultless [OF assms(1)]
        sql_insert_def rls_visible_def pg_release_def)
qed

lemma pg_get_ready:
  "pg_ready sv st \<Longrightarrow> pg_get_memory sv ctx i st =
     Some (case find (\<lambda>r. mr_id r = i) (filter (\<lambda>r. mr_tenant_id r = ctx_tenant_id ctx) (pg_rows st)) of
       None \<Rightarrow> Inr None | Some r \<Rightarrow> bnd (row_to_memory r) (\<lambda>m. Inr (Some m)), st)"
  by (simp add: pg_get_memory_def scoped_conn_ready faultless sql_get_def rls_visible_def [abs_def] pg_release_def)

lemma find_append: "find P (xs @ ys) = (case find P xs of None \<Rightarrow> find P ys | Some x \<Rightarrow> Some x)"
  by (induction xs) simp_all

section \<open>Properties\<close>


section \<open>Connections\<close>

text \<open>When binding the settings fails, the connection acquired just before is not released.\<close>

lemma scoped_conn_leaks:
  assumes "sv_fault sv (SetTenant (ctx_tenant_id ctx)) = Some e" and "pg_connected st" and "pg_leased st < POOL_MAX"
  shows "pg_get_memory sv ctx i st = Some (Inl e, st\<lparr>pg_leased := Suc (pg_leased st)\<rparr>)"
  using assms by (simp add: pg_get_memory_def scoped_conn_def Let_def)

text \<open>So as many failures as the pool has connections block every later operation for good.\<close>

lemma pool_exhausted:
  assumes "sv_fault sv (SetTenant (ctx_tenant_id ctx)) = Some e" and "pg_connected st" and "pg_leased st = 0"
    and "k \<le> POOL_MAX"
  shows "((\<lambda>st. snd (the (pg_get_memory sv ctx i st))) ^^ k) st = st\<lparr>pg_leased := k\<rparr>"
  using assms(4)
proof (induction k)
  case 0
  then show ?case using assms(3) by (cases st) simp
next
  case (Suc k)
  then show ?case using scoped_conn_leaks [OF assms(1), of "st\<lparr>pg_leased := k\<rparr>" i] assms(2) by simp
qed

lemma pool_blocks:
  "pg_connected st \<Longrightarrow> pg_leased st = POOL_MAX \<Longrightarrow>
   pg_get_memory sv ctx i st = None \<and> pg_list_memories sv ctx n st = None \<and> pg_add_memory sv ctx m st = None"
  by (simp add: pg_get_memory_def pg_list_memories_def pg_add_memory_def scoped_conn_def)

text \<open>The rows of other tenants do not show in a listing, but those of other namespaces do.\<close>

lemma pg_list_ready:
  "pg_ready sv st \<Longrightarrow> pg_list_memories sv ctx n st =
     Some (case map_result row_to_memory (take n (sv_order sv (filter (\<lambda>r. mr_tenant_id r = ctx_tenant_id ctx) (pg_rows st)))) of
       Inl e \<Rightarrow> Inl LATE_ROLLBACK | Inr ms \<Rightarrow> Inr ms, st)"
  by (simp add: pg_list_memories_def scoped_conn_ready faultless sql_list_def rls_visible_def [abs_def] pg_release_def)

section \<open>Witness\<close>

definition fx_server :: pg_server where
  "fx_server = \<lparr>sv_fault = (\<lambda>_. None), sv_order = rev, sv_real = (\<lambda>x. x), sv_jsonb = (\<lambda>d. d)\<rparr>"

definition fx_pg :: pg_state where
  "fx_pg = pg_connect \<lparr>pg_connected = False, pg_rows = [], pg_leased = 0\<rparr>"


end
