(* ===== verification/Spec2Isabelle.thy ===== *)
theory Spec2Isabelle
  imports Concurrency Replicas Examples Postgres
begin

text \<open>
  ContextOS, a multi-tenant gateway between chat clients and language-model backends
  (\<^verbatim>\<open>src/contextos\<close>). This development models its Python code as HOL functions and proves what
  makes it correct. This root theory imports all others and holds their guide.

  \<^bold>\<open>The program.\<close> A caller is resolved to a security context (tenant, principal, namespace). A chat
  request then runs through the pipeline: policy check; semantic-cache lookup; on a miss retrieval of
  the caller's memories, compression of each of them, assembly of the prompt under the token budget of
  the model window, capture of a replayable bundle; routing over registered backends with circuit
  breakers, invocation with failover; and write-back to the cache, the bundle and the cost ledger.
  Every stage leaves a span in the request's trace. Around the pipeline stand the memory engine over a
  store, memory versioning, background workers, the HTTP gateway and an embedded client library.
  Every store of the program is partitioned by tenant, and the components share state only through
  the pipeline's (theory \<open>Pipeline\<close>, record \<open>pipe_state\<close>).

  \<^bold>\<open>How the code is rendered.\<close>
  \<^item> A class or schema is a \<open>record\<close>, an enumeration or union a \<open>datatype\<close>. A method becomes a function
    of the object's state, of its arguments and of everything it reads from outside.
  \<^item> Code that may raise has type \<open>'a result\<close>, the sum of \<open>pyexn\<close> (the exceptions of the program and
    those of Python's it lets escape) and a value; state is passed explicitly, and what was written
    before an exception stays written.
  \<^item> A dictionary is an association list in insertion order (\<open>dict\<close>), and the two-level stores are
    \<open>tdict\<close>, tenant first.
  \<^item> A \<^verbatim>\<open>float\<close> is a dyadic rational rounded to nearest even on 53 bits at every operation, with gradual
    underflow (\<open>Float64\<close>); all scores, costs and similarities are computed in it.
  \<^item> Text is ASCII: \<open>string\<close> with Python's character classes; the regular expressions of the source
    are written out as scanners (\<open>Text\<close>, \<open>Compressor\<close>).
  \<^item> Clock readings, fresh identifiers and random bytes are arguments, one per reading the code makes,
    so nothing is assumed about how they are related unless a theorem says so.

  \<^bold>\<open>Parameters.\<close> Code outside the repository is an argument of the definitions that use it: the digests
  SHA-256 and BLAKE2b, \<open>repr\<close> of a float, \<open>pow\<close> and \<open>log\<close> of the C library and the iteration order
  of a set (the record \<open>platform\<close>), the HTTP client with the JSON decoder, the
  schema validation of pydantic, the PostgreSQL server. A language-model backend is a value of the
  record \<open>adapter\<close>, whose calls pass on a \<open>world\<close> of any type.

  \<^bold>\<open>Theories and the code they model.\<close>
  \<^item> \<open>Prelude\<close>: exceptions, dictionaries, Python's \<^verbatim>\<open>sorted\<close> and \<^verbatim>\<open>max\<close> with their stability and
    first-maximum laws. \<open>Float64\<close>: monotonicity and exactness of rounding. \<open>Text\<close>: character classes,
    \<^verbatim>\<open>split\<close>, \<^verbatim>\<open>join\<close>, \<^verbatim>\<open>lower\<close>. \<open>Json\<close>: canonical JSON. \<open>Isolation\<close>: the locale \<open>tenant_scoped\<close>.
  \<^item> \<open>Models\<close> (\<^verbatim>\<open>models/\<close>), \<open>Ulid\<close> (\<^verbatim>\<open>new_ulid\<close>): the five schemas with their field validators.
  \<^item> \<open>Security\<close> (\<^verbatim>\<open>security/\<close>): \<open>resolve\<close>, \<open>evaluate\<close>, \<open>check\<close>.
  \<^item> \<open>Store\<close> (\<^verbatim>\<open>store/base.py\<close>, \<^verbatim>\<open>memory_store.py\<close>) and \<open>Postgres\<close> (\<^verbatim>\<open>postgres.py\<close> with the row-level
    security of its migration): \<open>add_memory\<close>, \<open>get_memory\<close>, \<open>list_memories\<close> and their \<open>pg_\<close> versions.
  \<^item> \<open>Embedding\<close> (\<^verbatim>\<open>embedding/\<close>), \<open>Scoring\<close> and \<open>Memory\<close> (\<^verbatim>\<open>memory/\<close>): feature hashing, BM25,
    reciprocal-rank fusion, recency, \<open>retrieve\<close>.
  \<^item> \<open>Budget\<close> and \<open>Assembler\<close> (\<^verbatim>\<open>assembler/\<close>): \<open>soft_budget\<close>, \<open>asm_mmr\<close>, \<open>pack\<close>, \<open>edge_load\<close>, \<open>assemble\<close>.
  \<^item> \<open>Adapters\<close>, \<open>OpenAI\<close> (\<^verbatim>\<open>adapters/\<close>); \<open>Compressor\<close> (\<^verbatim>\<open>compressor/\<close>); \<open>Cache\<close> (\<^verbatim>\<open>cache/\<close>);
    \<open>Router\<close> (\<^verbatim>\<open>router/\<close>); \<open>Observability\<close> (\<^verbatim>\<open>observability/\<close>); \<open>Replay\<close> (\<^verbatim>\<open>replay/\<close>);
    \<open>Versioning\<close> (\<^verbatim>\<open>versioning/\<close>); \<open>Workers\<close> (\<^verbatim>\<open>workers/\<close>).
  \<^item> \<open>Pipeline\<close> (\<^verbatim>\<open>pipeline.py\<close>): one definition per stage and \<open>run\<close>, their composition.
    \<open>PipelineLaws\<close>, \<open>PipelineStages\<close> and \<open>PipelineViews\<close> hold the laws of composition, \<open>Failover\<close>,
    \<open>Requests\<close>, \<open>Grounding\<close>, \<open>Answers\<close> and \<open>Recall\<close> the properties of a request.
  \<^item> \<open>Wiring\<close> (\<^verbatim>\<open>config/settings.py\<close> and the \<^verbatim>\<open>build_*\<close> functions of \<^verbatim>\<open>gateway/app.py\<close>), \<open>Gateway\<close> (the
    endpoints and error envelopes), \<open>Serving\<close> (\<open>serve\<close>, the reachable states), \<open>Tenancy\<close> (the gateway as
    a multi-tenant service), \<open>Concurrency\<close> (its requests interleaved at the stages of the pipeline), \<open>Replicas\<close>
    (\<^verbatim>\<open>gateway/asgi.py\<close>: one application per process, and a fleet of them behind a balancer), \<open>Sdk\<close>
    (\<^verbatim>\<open>contextos/__init__.py\<close>, the client library), \<open>Examples\<close> (the scripts of \<^verbatim>\<open>examples/\<close>, which run all of it).
  \<^item> \<open>Fixtures\<close>: the concrete inputs of the witnesses.

  \<^bold>\<open>Interfaces.\<close> Each is a locale, interpreted on the model's own definitions:
  \<^item> \<open>tenant_scoped\<close> (\<open>Isolation\<close>): the two unwinding conditions from which noninterference over any
    interleaving follows; interpreted by the memory store, the cache, the bundle store, the cost
    ledger, the version store and the whole gateway (\<open>tenants\<close>). It is a sublocale of \<open>tenant_scoped_under\<close>,
    whose laws hold under an invariant; the server with requests in flight interprets that (\<open>concurrent\<close>).
  \<^item> \<open>storage\<close>, \<open>embedding_provider\<close> and their union \<open>memory_service\<close>: what retrieval, versioning and
    consolidation need of a store and an embedder; interpreted by \<open>inmem\<close> and the hashing provider.
  \<^item> \<open>cache_backend_laws\<close>: what the cache engine needs of its backend; interpreted by \<open>mem_cache\<close>.
  \<^item> \<open>pipe_frame\<close> and \<open>pipe_view\<close>: a relation every stage keeps, and a view every stage respects, hold of
    the whole request; interpreted three times and once.

  \<^bold>\<open>What is proved.\<close>
  \<^item> Isolation: no tenant's requests show in another's answers, at the level of each store, of a request,
    of the gateway and of the gateway with requests interleaved in any schedule, where every request
    is answered after a bounded number of its own steps; a client or a header without tenant or
    namespace is refused everywhere. A fleet of replicas whose balancer keeps each tenant on one
    replica answers like a single server, and one that does not can be told from it.
  \<^item> Prompts: the assembled prompt fits the model window, is a maximal packing in order of marginal
    relevance, and every candidate gets one recorded decision; its memories are the caller's own, and
    no number or identifier in them is invented by compression; a namespace that fits is recalled in
    full, every memory of it or a near duplicate reaching the backend; an answer given from memories is
    never served from the cache, and a cache hit was stored under the same scope, model and prompt.
  \<^item> Requests: the exceptions a request may end in, the trace it leaves, that an answered request is
    replayable to the very prompt; failover walks the routed backends in order past open breakers.
  \<^item> Components: policies deny over allow, the router chooses an admissible backend of best score, the breaker opens
    exactly during its cooldown, rollback restores what is missing and keeps the rest, the job
    runner ends and runs every job, identifiers sort by their time, parsing what a backend
    sends yields it, what is written to PostgreSQL reads back.
  Lemmas named \<open>fx_\<close> and \<open>_witness\<close> evaluate the model on the inputs of \<open>Fixtures\<close>.

  \<^bold>\<open>Termination.\<close> Loops over data are structural or have a measure (\<open>asm_mmr_loop\<close>, \<open>mmr_loop\<close>: the
  pool shrinks; \<open>sent_findall\<close>, \<open>runs\<close>: the text; \<open>isqrt\<close>: the argument). The worker loop \<open>drain_loop\<close> may not end, as
  a job may enqueue itself, and is a partial function into \<open>option\<close>: \<open>None\<close> is not returning. There is no fuel.

  \<^bold>\<open>Not modelled.\<close> The reading of environment variables, the routing,
  body parsing and serialisation of FastAPI, the OpenAPI document, logging. In \<open>Concurrency\<close> a request
  may be suspended between any two stages of the pipeline, which over the in-process components is more
  often than the code can be: it awaits only the backend's answer, and its stage has no effect on shared
  state before that. An interleaving within a stage (a registry of backends tried by two requests at once,
  a store that suspends) is not modelled. Non-ASCII text, infinite and NaN
  floats and float overflow are outside the model. In the noninterference theorems of the gateway
  the backend has no memory of its own: its answer depends on the request.
\<close>

end
